(* ===== verification/Prelude.thy ===== *)
theory Prelude
  imports Main "HOL-Library.AList" "HOL-Library.List_Lexorder" "HOL-Library.Char_ord"
begin

text \<open>
  The part of the Go language and its standard library that the packages of OpticTrace share,
  and the generic lemmas about it.

  A Go \<open>string\<close> (and a \<open>[]byte\<close>) is a list of 8-bit characters, so \<open>len(s)\<close> is \<open>length s\<close>
  and an index reads a byte.  Case mapping and white space follow \<open>package strings\<close> on ASCII;
  bytes above 127 are left as they are.  A Go map is an association list with distinct keys
  whose order is the order in which a \<open>range\<close> loop happens to visit it; a theorem that holds for
  every list holds for every iteration order.  A \<open>map[K]struct{}\<close> is the list of its keys.
\<close>

type_synonym 'v gomap = "(string \<times> 'v) list"
type_synonym goset = "string list"

named_theorems go_string "equations and bounds of the modelled package strings"
named_theorems go_map "facts on association lists that stand for Go maps"

subsection \<open>Bytes\<close>

abbreviation byte :: "char \<Rightarrow> nat" where
  "byte c \<equiv> of_char c"

definition is_digit :: "char \<Rightarrow> bool" where
  "is_digit c \<longleftrightarrow> 48 \<le> byte c \<and> byte c \<le> 57"

definition is_lower :: "char \<Rightarrow> bool" where
  "is_lower c \<longleftrightarrow> 97 \<le> byte c \<and> byte c \<le> 122"

definition is_upper :: "char \<Rightarrow> bool" where
  "is_upper c \<longleftrightarrow> 65 \<le> byte c \<and> byte c \<le> 90"

definition is_alpha :: "char \<Rightarrow> bool" where
  "is_alpha c \<longleftrightarrow> is_lower c \<or> is_upper c"

definition is_space :: "char \<Rightarrow> bool" where
  "is_space c \<longleftrightarrow> byte c = 32 \<or> (9 \<le> byte c \<and> byte c \<le> 13)"

definition lower_char :: "char \<Rightarrow> char" where
  "lower_char c = (if is_upper c then char_of (byte c + 32) else c)"

definition upper_char :: "char \<Rightarrow> char" where
  "upper_char c = (if is_lower c then char_of (byte c - 32) else c)"

definition digit_val :: "char \<Rightarrow> nat" where
  "digit_val c = byte c - 48"

definition digit_char :: "nat \<Rightarrow> char" where
  "digit_char d = char_of (48 + d)"

lemma byte_lower_char:
  "byte (lower_char c) = (if is_upper c then byte c + 32 else byte c)"
  by (auto simp: lower_char_def is_upper_def)

lemma byte_upper_char:
  "byte (upper_char c) = (if is_lower c then byte c - 32 else byte c)"
  by (auto simp: upper_char_def is_lower_def)

lemma not_upper_lower_char [simp]: "\<not> is_upper (lower_char c)"
  using byte_lower_char [of c] by (auto simp: is_upper_def split: if_splits)

lemma lower_char_idem [simp]: "lower_char (lower_char c) = lower_char c"
  by (simp add: lower_char_def [of "lower_char c"])

lemma not_lower_upper_char [simp]: "\<not> is_lower (upper_char c)"
  using byte_upper_char [of c] by (auto simp: is_lower_def split: if_splits)

lemma upper_char_idem [simp]: "upper_char (upper_char c) = upper_char c"
  by (simp add: upper_char_def [of "upper_char c"])

lemma digit_val_char [simp]: "d < 10 \<Longrightarrow> digit_val (digit_char d) = d"
  by (simp add: digit_val_def digit_char_def)

lemma is_digit_char [simp]: "d < 10 \<Longrightarrow> is_digit (digit_char d)"
  by (simp add: is_digit_def digit_char_def)

lemma digit_val_less: "is_digit c \<Longrightarrow> digit_val c < 10"
  by (auto simp: is_digit_def digit_val_def)

subsection \<open>Package strings\<close>

definition to_lower :: "string \<Rightarrow> string" where
  "to_lower s = map lower_char s"

definition to_upper :: "string \<Rightarrow> string" where
  "to_upper s = map upper_char s"

definition trim_left :: "(char \<Rightarrow> bool) \<Rightarrow> string \<Rightarrow> string" where
  "trim_left p s = dropWhile p s"

definition trim_right :: "(char \<Rightarrow> bool) \<Rightarrow> string \<Rightarrow> string" where
  "trim_right p s = rev (dropWhile p (rev s))"

definition trim :: "(char \<Rightarrow> bool) \<Rightarrow> string \<Rightarrow> string" where
  "trim p s = trim_right p (trim_left p s)"

definition trim_space :: "string \<Rightarrow> string" where
  "trim_space s = trim is_space s"

definition has_prefix :: "string \<Rightarrow> string \<Rightarrow> bool" where
  "has_prefix s p \<longleftrightarrow> take (length p) s = p"

definition has_suffix :: "string \<Rightarrow> string \<Rightarrow> bool" where
  "has_suffix s p \<longleftrightarrow> length p \<le> length s \<and> drop (length s - length p) s = p"

definition trim_prefix :: "string \<Rightarrow> string \<Rightarrow> string" where
  "trim_prefix s p = (if has_prefix s p then drop (length p) s else s)"

definition trim_suffix :: "string \<Rightarrow> string \<Rightarrow> string" where
  "trim_suffix s p = (if has_suffix s p then take (length s - length p) s else s)"

fun contains :: "string \<Rightarrow> string \<Rightarrow> bool" where
  "contains [] sub = (sub = [])"
| "contains (c # s) sub = (has_prefix (c # s) sub \<or> contains s sub)"

text \<open>\<open>strings.Split\<close> and \<open>strings.Cut\<close> with a one-byte separator; \<open>strings.Join\<close>.\<close>

fun split_on :: "char \<Rightarrow> string \<Rightarrow> string list" where
  "split_on sep [] = [[]]"
| "split_on sep (c # s) =
     (if c = sep then [] # split_on sep s
      else (case split_on sep s of
              [] \<Rightarrow> [[c]]
            | w # ws \<Rightarrow> (c # w) # ws))"

fun join :: "string \<Rightarrow> string list \<Rightarrow> string" where
  "join sep [] = []"
| "join sep [x] = x"
| "join sep (x # y # ys) = x @ sep @ join sep (y # ys)"

fun cut_on :: "char \<Rightarrow> string \<Rightarrow> string \<times> string \<times> bool" where
  "cut_on sep [] = ([], [], False)"
| "cut_on sep (c # s) =
     (if c = sep then ([], s, True)
      else (let (before, after, found) = cut_on sep s in (c # before, after, found)))"

definition equal_fold :: "string \<Rightarrow> string \<Rightarrow> bool" where
  "equal_fold s t \<longleftrightarrow> to_lower s = to_lower t"

lemma to_lower_idem [go_string, simp]: "to_lower (to_lower s) = to_lower s"
  by (simp add: to_lower_def)

lemma to_upper_idem [go_string, simp]: "to_upper (to_upper s) = to_upper s"
  by (simp add: to_upper_def)

lemma length_to_lower [go_string, simp]: "length (to_lower s) = length s"
  by (simp add: to_lower_def)

lemma has_prefix_append [go_string, simp]: "has_prefix (p @ s) p"
  by (simp add: has_prefix_def)

lemma has_prefixE: "has_prefix s p \<Longrightarrow> (\<And>t. s = p @ t \<Longrightarrow> P) \<Longrightarrow> P"
  by (metis append_take_drop_id has_prefix_def)

lemma trim_prefix_append [go_string, simp]: "trim_prefix (p @ s) p = s"
  by (simp add: trim_prefix_def)

lemma contains_iff: "contains s sub \<longleftrightarrow> (\<exists>u v. s = u @ sub @ v)"
proof (induction s)
  case Nil
  then show ?case by auto
next
  case (Cons c s)
  have "has_prefix (c # s) sub \<longleftrightarrow> (\<exists>v. c # s = sub @ v)"
    by (metis has_prefixE has_prefix_append)
  with Cons show ?case
    by (auto simp: Cons_eq_append_conv)
qed

lemma contains_append: "contains s sub \<Longrightarrow> contains (u @ s @ v) sub"
  unfolding contains_iff by (metis append.assoc)

lemma split_on_not_Nil [go_string, simp]: "split_on sep s \<noteq> []"
  by (induction s) (auto split: list.splits)

lemma join_Cons: "join sep (x # xs) = (if xs = [] then x else x @ sep @ join sep xs)"
  by (cases xs) auto

lemma join_split_on [go_string, simp]: "join [sep] (split_on sep s) = s"
proof (induction s)
  case Nil
  then show ?case by simp
next
  case (Cons c s)
  then show ?case
    by (cases "split_on sep s") (auto simp: join_Cons split: if_splits)
qed

lemma split_on_no_sep: "sep \<notin> set s \<Longrightarrow> split_on sep s = [s]"
  by (induction s) auto

lemma split_on_append_sep:
  "sep \<notin> set x \<Longrightarrow> split_on sep (x @ sep # s) = x # split_on sep s"
  by (induction x) auto

lemma split_on_join:
  assumes "xs \<noteq> []" and "\<forall>x \<in> set xs. sep \<notin> set x"
  shows "split_on sep (join [sep] xs) = xs"
  using assms
proof (induction xs)
  case Nil
  then show ?case by simp
next
  case (Cons x xs)
  then show ?case
    by (cases xs) (auto simp: split_on_no_sep split_on_append_sep)
qed

lemma split_on_elem: "x \<in> set (split_on sep s) \<Longrightarrow> sep \<notin> set x"
  by (induction s arbitrary: x) (auto split: if_splits list.splits)

lemma set_split_on: "x \<in> set (split_on sep s) \<Longrightarrow> set x \<subseteq> set s"
  by (induction s arbitrary: x) (fastforce split: if_splits list.splits)+

lemma cut_on_found:
  "cut_on sep s = (b, a, True) \<Longrightarrow> s = b @ sep # a \<and> sep \<notin> set b"
  by (induction s arbitrary: b a) (auto split: if_splits prod.splits)

lemma cut_on_not_found: "sep \<notin> set s \<Longrightarrow> cut_on sep s = (s, [], False)"
  by (induction s) auto

lemma cut_on_append: "sep \<notin> set b \<Longrightarrow> cut_on sep (b @ sep # a) = (b, a, True)"
  by (induction b) auto

lemma dropWhile_hd: "s = [] \<or> \<not> p (hd s) \<Longrightarrow> dropWhile p s = s"
  by (cases s) auto

lemma trim_cases: "trim p s = [] \<or> (\<not> p (hd (trim p s)) \<and> \<not> p (last (trim p s)))"
proof -
  define u where "u = dropWhile p s"
  define v where "v = dropWhile p (rev u)"
  have trim: "trim p s = rev v"
    by (simp add: trim_def trim_left_def trim_right_def u_def v_def)
  show ?thesis
  proof (cases "v = []")
    case True
    then show ?thesis by (simp add: trim)
  next
    case False
    have "\<not> p (hd v)"
      using False hd_dropWhile v_def by blast
    moreover have "u \<noteq> []"
      using False by (auto simp: v_def)
    then have "\<not> p (hd u)"
      using hd_dropWhile u_def by blast
    moreover obtain w where "u = rev v @ w"
      by (metis v_def rev_append rev_rev_ident takeWhile_dropWhile_id)
    then have "hd (rev v) = hd u"
      using False by simp
    ultimately show ?thesis
      by (simp add: trim False last_rev)
  qed
qed

lemma trim_ends:
  "s = [] \<or> (\<not> p (hd s) \<and> \<not> p (last s)) \<Longrightarrow> trim p s = s"
  by (cases "s = []")
     (auto simp: trim_def trim_left_def trim_right_def dropWhile_hd hd_rev)

lemma trim_idem [go_string, simp]: "trim p (trim p s) = trim p s"
  by (rule trim_ends) (rule trim_cases)

lemma set_trim: "set (trim p s) \<subseteq> set s"
  by (auto simp: trim_def trim_left_def trim_right_def dest!: set_dropWhileD)

lemma length_trim_le: "length (trim p s) \<le> length s"
  unfolding trim_def trim_left_def trim_right_def
  by (metis length_dropWhile_le length_rev order.trans)

subsection \<open>Package strconv\<close>

fun nat_digits :: "nat \<Rightarrow> string" where
  "nat_digits n = (if n < 10 then [digit_char n] else nat_digits (n div 10) @ [digit_char (n mod 10)])"

declare nat_digits.simps [simp del]

definition itoa :: "int \<Rightarrow> string" where
  "itoa i = (if i < 0 then CHR ''-'' # nat_digits (nat (- i)) else nat_digits (nat i))"

definition digits_val :: "string \<Rightarrow> nat" where
  "digits_val s = foldl (\<lambda>acc c. 10 * acc + digit_val c) 0 s"

text \<open>\<open>strconv.Atoi\<close> on a 64-bit platform: an optional sign, at least one digit, in range.\<close>

definition atoi :: "string \<Rightarrow> int option" where
  "atoi s =
     (let (neg, ds) = (case s of
            c # cs \<Rightarrow> if c = CHR ''-'' then (True, cs) else if c = CHR ''+'' then (False, cs)
                      else (False, s)
          | [] \<Rightarrow> (False, s))
      in if ds = [] \<or> \<not> list_all is_digit ds then None
         else let n = int (digits_val ds); i = (if neg then - n else n)
              in if - (2 ^ 63) \<le> i \<and> i < 2 ^ 63 then Some i else None)"

lemma nat_digits_not_Nil [simp]: "nat_digits n \<noteq> []"
  by (subst nat_digits.simps) simp

lemma nat_digits_digits: "list_all is_digit (nat_digits n)"
proof (induction n rule: nat_digits.induct)
  case (1 n)
  then show ?case by (subst nat_digits.simps) auto
qed

lemma digits_val_nat_digits [simp]: "digits_val (nat_digits n) = n"
proof (induction n rule: nat_digits.induct)
  case (1 n)
  then show ?case
    by (subst nat_digits.simps) (auto simp: digits_val_def)
qed

lemma itoa_inject [simp]: "itoa i = itoa j \<longleftrightarrow> i = j"
proof
  assume eq: "itoa i = itoa j"
  have sign: "hd (nat_digits n) \<noteq> CHR ''-''" for n
    using nat_digits_digits [of n] nat_digits_not_Nil [of n]
    by (cases "nat_digits n") (auto simp: is_digit_def)
  have inj: "nat_digits m = nat_digits n \<Longrightarrow> m = n" for m n
    by (metis digits_val_nat_digits)
  from eq show "i = j"
    by (auto simp: itoa_def split: if_splits dest: inj)
       (metis list.sel(1) sign)+
qed simp

subsection \<open>Maps and sets\<close>

abbreviation keys :: "'v gomap \<Rightarrow> string list" where
  "keys m \<equiv> map fst m"

abbreviation lookup :: "'v gomap \<Rightarrow> string \<Rightarrow> 'v option" where
  "lookup m k \<equiv> map_of m k"

definition store :: "string \<Rightarrow> 'v \<Rightarrow> 'v gomap \<Rightarrow> 'v gomap" where
  "store k v m = AList.update k v m"

definition sorted_keys :: "'v gomap \<Rightarrow> string list" where
  "sorted_keys m = sort (remdups (keys m))"

definition add_all :: "string list \<Rightarrow> goset \<Rightarrow> goset" where
  "add_all xs s = fold List.insert xs s"

definition store_all :: "'v gomap \<Rightarrow> 'v gomap \<Rightarrow> 'v gomap" where
  "store_all new m = fold (\<lambda>(k, v). store k v) new m"

lemma lookup_store [go_map, simp]: "lookup (store k v m) j = (if j = k then Some v else lookup m j)"
  by (simp add: store_def update_conv')

lemma keys_store [go_map]: "fst ` set (store k v m) = insert k (fst ` set m)"
  by (simp add: store_def dom_update)

lemma distinct_store [go_map, simp]: "distinct (keys m) \<Longrightarrow> distinct (keys (store k v m))"
  by (simp add: store_def distinct_update)

lemma set_sorted_keys [go_map, simp]: "set (sorted_keys m) = fst ` set m"
  by (simp add: sorted_keys_def)

lemma distinct_sorted_keys [go_map, simp]: "distinct (sorted_keys m)"
  by (simp add: sorted_keys_def)

lemma sorted_sorted_keys [go_map, simp]: "sorted (sorted_keys m)"
  by (simp add: sorted_keys_def)

lemma set_add_all [go_map, simp]: "set (add_all xs s) = set xs \<union> set s"
  unfolding add_all_def by (induction xs arbitrary: s) auto

lemma distinct_add_all [go_map, simp]: "distinct s \<Longrightarrow> distinct (add_all xs s)"
  unfolding add_all_def by (induction xs arbitrary: s) auto

lemma lookup_store_all [go_map]:
  "lookup (store_all new m) k =
     (case lookup (rev new) k of Some v \<Rightarrow> Some v | None \<Rightarrow> lookup m k)"
  unfolding store_all_def
  by (induction new arbitrary: m)
     (auto simp: map_add_def map_of_append [symmetric] map_add_Some_iff split: option.splits)

lemma keys_store_all [go_map]: "fst ` set (store_all new m) = fst ` set new \<union> fst ` set m"
  unfolding store_all_def
proof (induction new arbitrary: m)
  case Nil
  then show ?case by simp
next
  case (Cons kv new)
  then show ?case by (cases kv) (simp add: keys_store)
qed

lemma distinct_store_all [go_map, simp]:
  "distinct (keys m) \<Longrightarrow> distinct (keys (store_all new m))"
  unfolding store_all_def by (induction new arbitrary: m) auto

subsection \<open>Loops over suffixes\<close>

lemma list_ex_upto: "list_ex P [0..<Suc n] \<longleftrightarrow> (\<exists>i \<le> n. P i)"
  by (auto simp: list_ex_iff less_Suc_eq_le simp del: upt_Suc)

lemma ex_drop_Cons:
  "(\<exists>i \<le> length (x # xs). P (drop i (x # xs))) \<longleftrightarrow> P (x # xs) \<or> (\<exists>i \<le> length xs. P (drop i xs))"
  by (metis drop0 drop_Suc_Cons Suc_le_mono length_Cons not0_implies_Suc zero_le)

subsection \<open>First hit of a loop\<close>

fun first_some :: "('a \<Rightarrow> 'b option) \<Rightarrow> 'a list \<Rightarrow> 'b option" where
  "first_some f [] = None"
| "first_some f (x # xs) = (case f x of Some y \<Rightarrow> Some y | None \<Rightarrow> first_some f xs)"

lemma first_some_cong [fundef_cong]:
  "xs = ys \<Longrightarrow> (\<And>x. x \<in> set ys \<Longrightarrow> f x = g x) \<Longrightarrow> first_some f xs = first_some g ys"
  by (induction xs arbitrary: ys) (auto split: option.splits)

lemma first_some_None [simp]: "first_some f xs = None \<longleftrightarrow> (\<forall>x \<in> set xs. f x = None)"
  by (induction xs) (auto split: option.splits)

lemma first_some_Some: "first_some f xs = Some y \<Longrightarrow> \<exists>x \<in> set xs. f x = Some y"
  by (induction xs) (auto split: option.splits)

subsection \<open>First error of a loop\<close>

text \<open>A loop over a slice that returns the first error it meets; \<open>None\<close> is \<open>nil\<close>.\<close>

fun first_error :: "('a \<Rightarrow> 'e option) \<Rightarrow> 'a list \<Rightarrow> 'e option" where
  "first_error f [] = None"
| "first_error f (x # xs) = (case f x of Some e \<Rightarrow> Some e | None \<Rightarrow> first_error f xs)"

lemma first_error_None [simp]: "first_error f xs = None \<longleftrightarrow> (\<forall>x \<in> set xs. f x = None)"
  by (induction xs) (auto split: option.splits)

lemma first_error_Some:
  "first_error f xs = Some e \<Longrightarrow> \<exists>x \<in> set xs. f x = Some e"
  by (induction xs) (auto split: option.splits)

fun first_error_from :: "nat \<Rightarrow> (nat \<Rightarrow> 'a \<Rightarrow> 'e option) \<Rightarrow> 'a list \<Rightarrow> 'e option" where
  "first_error_from i f [] = None"
| "first_error_from i f (x # xs) =
     (case f i x of Some e \<Rightarrow> Some e | None \<Rightarrow> first_error_from (Suc i) f xs)"

lemma first_error_from_None:
  "first_error_from i f xs = None \<longleftrightarrow> (\<forall>j < length xs. f (i + j) (xs ! j) = None)"
proof (induction xs arbitrary: i)
  case Nil
  then show ?case by simp
next
  case (Cons x xs)
  show ?case
    by (auto simp: Cons nth_Cons less_Suc_eq_0_disj split: option.splits nat.splits)
qed

text \<open>Finite tables: an evaluated check over ranges of indices.\<close>

lemma upto_check1: "list_all P [0..<n] \<Longrightarrow> x < n \<Longrightarrow> P x"
  by (auto simp: list_all_iff)

lemma upto_check2:
  "list_all (\<lambda>x. list_all (\<lambda>y. P x y) [0..<n]) [0..<m] \<Longrightarrow> x < m \<Longrightarrow> y < n \<Longrightarrow> P x y"
  by (auto simp: list_all_iff)

lemma upto_check3:
  "list_all (\<lambda>x. list_all (\<lambda>y. list_all (\<lambda>z. P x y z) [0..<k]) [0..<n]) [0..<m] \<Longrightarrow>
     x < m \<Longrightarrow> y < n \<Longrightarrow> z < k \<Longrightarrow> P x y z"
  by (auto simp: list_all_iff)

end
