(* ===== verification/TraceCtx.thy ===== *)
theory TraceCtx
  imports Prelude
begin

text \<open>
  \<open>internal/tracectx\<close>: W3C trace context.  \<open>FromHeader\<close> resolves the position of a request in a
  trace from an inbound \<open>traceparent\<close>, \<open>Header\<close> renders it for the next hop.  The random ids of
  \<open>RandomHex\<close> come from an entropy source: what \<open>crypto/rand.Read\<close> returns for a request of n
  bytes (\<open>None\<close> when it fails) and what the clock reads in each turn of the fallback loop.
\<close>

record trace_context =
  tc_TraceID :: string
  tc_SpanID :: string
  tc_ParentSpanID :: string
  tc_Sampled :: bool
  tc_Route :: string
  tc_Inherited :: bool

record entropy =
  ent_read :: "nat \<Rightarrow> nat list option"
  ent_nanos :: "nat \<Rightarrow> int"

definition TraceHeader :: string where
  "TraceHeader = ''traceparent''"

subsection \<open>Hexadecimal\<close>

definition hex_digit :: "nat \<Rightarrow> char" where
  "hex_digit d = (if d < 10 then char_of (48 + d) else char_of (87 + d))"

definition encode_hex :: "nat list \<Rightarrow> string" where
  "encode_hex bs = concat (map (\<lambda>b. [hex_digit (b div 16 mod 16), hex_digit (b mod 16)]) bs)"

definition is_hex_char :: "char \<Rightarrow> bool" where
  "is_hex_char c \<longleftrightarrow> is_digit c \<or> (97 \<le> byte c \<and> byte c \<le> 102) \<or> (65 \<le> byte c \<and> byte c \<le> 70)"

definition isHex :: "string \<Rightarrow> nat \<Rightarrow> bool" where
  "isHex s n \<longleftrightarrow> length s = n \<and> list_all is_hex_char s"

definition hex_val :: "char \<Rightarrow> nat" where
  "hex_val c = (if is_digit c then byte c - 48
                else if 97 \<le> byte c then byte c - 87 else byte c - 55)"

definition parse_hex :: "string \<Rightarrow> nat" where
  "parse_hex s = foldl (\<lambda>acc c. 16 * acc + hex_val c) 0 s"

definition RandomHex :: "entropy \<Rightarrow> nat \<Rightarrow> string" where
  "RandomHex e n =
     encode_hex (case ent_read e n of
         Some bs \<Rightarrow> bs
       | None \<Rightarrow> map (\<lambda>i. nat (ent_nanos e i div 2 ^ (i mod 8 * 8) mod 256)) [0..<n])"

subsection \<open>Reading and writing the header\<close>

definition Header :: "trace_context \<Rightarrow> string" where
  "Header c = (let flags = (if tc_Sampled c then ''01'' else ''00'')
     in ''00-'' @ tc_TraceID c @ ''-'' @ tc_SpanID c @ ''-'' @ flags)"

definition FromHeader :: "entropy \<Rightarrow> string \<Rightarrow> trace_context" where
  "FromHeader e raw =
     (let c = \<lparr>tc_TraceID = [], tc_SpanID = RandomHex e 8, tc_ParentSpanID = [],
               tc_Sampled = False, tc_Route = [], tc_Inherited = False\<rparr>;
          root = c\<lparr>tc_TraceID := RandomHex e 16\<rparr>
      in case split_on (CHR ''-'') (trim_space raw) of
           [version, tid, pid, flags] \<Rightarrow>
             if version \<noteq> ''00'' \<or> \<not> isHex tid 32 \<or> \<not> isHex pid 16 \<or> \<not> isHex flags 2
                \<or> tid = replicate 32 (CHR ''0'') \<or> pid = replicate 16 (CHR ''0'')
             then root
             else c\<lparr>tc_TraceID := tid, tc_ParentSpanID := pid,
                    tc_Sampled := odd (parse_hex flags), tc_Inherited := True\<rparr>
         | _ \<Rightarrow> root)"

definition Lookup :: "string gomap \<Rightarrow> string \<Rightarrow> string" where
  "Lookup headers name = (case lookup headers name of
       Some v \<Rightarrow> v
     | None \<Rightarrow> (case find (\<lambda>(k, v). equal_fold k name) headers of
           Some (k, v) \<Rightarrow> v
         | None \<Rightarrow> []))"

definition FromMap :: "entropy \<Rightarrow> string gomap \<Rightarrow> trace_context" where
  "FromMap e headers = FromHeader e (Lookup headers TraceHeader)"

text \<open>\<open>NewContext\<close> and \<open>FromContext\<close> carry the span on the request context, under a private key.\<close>

definition NewContext :: "trace_context option \<Rightarrow> trace_context \<Rightarrow> trace_context option" where
  "NewContext parent c = Some c"

definition FromContext :: "trace_context option \<Rightarrow> trace_context \<times> bool" where
  "FromContext ctx = (case ctx of
       None \<Rightarrow> (\<lparr>tc_TraceID = [], tc_SpanID = [], tc_ParentSpanID = [],
                 tc_Sampled = False, tc_Route = [], tc_Inherited = False\<rparr>, False)
     | Some c \<Rightarrow> (c, True))"

subsection \<open>Well-formed ids\<close>

definition good_entropy :: "entropy \<Rightarrow> bool" where
  "good_entropy e \<longleftrightarrow> (\<forall>n. case ent_read e n of None \<Rightarrow> True | Some bs \<Rightarrow> length bs = n)"

definition usable_id :: "string \<Rightarrow> nat \<Rightarrow> bool" where
  "usable_id s n \<longleftrightarrow> isHex s n \<and> s \<noteq> replicate n (CHR ''0'')"

lemma is_hex_hex_digit [simp]: "d < 16 \<Longrightarrow> is_hex_char (hex_digit d)"
  by (auto simp: is_hex_char_def hex_digit_def is_digit_def)

lemma length_encode_hex [simp]: "length (encode_hex bs) = 2 * length bs"
  by (induction bs) (auto simp: encode_hex_def)

lemma hex_encode_hex [simp]: "list_all is_hex_char (encode_hex bs)"
  by (induction bs) (auto simp: encode_hex_def)

lemma isHex_RandomHex: "good_entropy e \<Longrightarrow> isHex (RandomHex e n) (2 * n)"
  by (auto simp: isHex_def RandomHex_def good_entropy_def split: option.splits dest: spec [of _ n])

lemma hex_char_no_sep: "is_hex_char c \<Longrightarrow> c \<noteq> CHR ''-'' \<and> \<not> is_space c"
  by (auto simp: is_hex_char_def is_digit_def is_space_def)

lemma isHex_no_dash: "isHex s n \<Longrightarrow> CHR ''-'' \<notin> set s"
  by (auto simp: isHex_def list_all_iff dest: hex_char_no_sep)

lemma split_header:
  assumes "isHex (tc_TraceID c) m" and "isHex (tc_SpanID c) n"
  shows "split_on (CHR ''-'') (Header c) =
    [''00'', tc_TraceID c, tc_SpanID c, if tc_Sampled c then ''01'' else ''00'']"
  using isHex_no_dash [OF assms(1)] isHex_no_dash [OF assms(2)]
  by (simp add: Header_def Let_def split_on_append_sep)

lemma trim_header: "trim_space (Header c) = Header c"
  unfolding trim_space_def
  by (rule trim_ends) (simp add: Header_def Let_def is_space_def)

lemma FromHeader_Header:
  assumes "usable_id (tc_TraceID c) 32" and "usable_id (tc_SpanID c) 16"
  shows "FromHeader e (Header c) =
    \<lparr>tc_TraceID = tc_TraceID c, tc_SpanID = RandomHex e 8, tc_ParentSpanID = tc_SpanID c,
     tc_Sampled = tc_Sampled c, tc_Route = [], tc_Inherited = True\<rparr>"
  using assms split_header [of c 32 16]
  by (auto simp: FromHeader_def trim_header usable_id_def isHex_def is_hex_char_def is_digit_def
      parse_hex_def hex_val_def Let_def)

lemma FromHeader_cases:
  obtains (inherited) tid pid flags where
      "split_on (CHR ''-'') (trim_space raw) = [''00'', tid, pid, flags]"
      "usable_id tid 32" "usable_id pid 16" "isHex flags 2"
      "FromHeader e raw = \<lparr>tc_TraceID = tid, tc_SpanID = RandomHex e 8, tc_ParentSpanID = pid,
         tc_Sampled = odd (parse_hex flags), tc_Route = [], tc_Inherited = True\<rparr>"
  | (root) "FromHeader e raw = \<lparr>tc_TraceID = RandomHex e 16, tc_SpanID = RandomHex e 8,
         tc_ParentSpanID = [], tc_Sampled = False, tc_Route = [], tc_Inherited = False\<rparr>"
proof (cases "\<exists>tid pid flags. split_on (CHR ''-'') (trim_space raw) = [''00'', tid, pid, flags]
      \<and> usable_id tid 32 \<and> usable_id pid 16 \<and> isHex flags 2")
  case True
  then obtain tid pid flags where "split_on (CHR ''-'') (trim_space raw) = [''00'', tid, pid, flags]"
      "usable_id tid 32" "usable_id pid 16" "isHex flags 2"
    by blast
  then show ?thesis
    by (intro inherited) (auto simp: FromHeader_def usable_id_def Let_def)
next
  case False
  then have "FromHeader e raw = \<lparr>tc_TraceID = RandomHex e 16, tc_SpanID = RandomHex e 8,
      tc_ParentSpanID = [], tc_Sampled = False, tc_Route = [], tc_Inherited = False\<rparr>"
    by (auto simp: FromHeader_def usable_id_def Let_def split: list.splits)
  then show ?thesis by (rule root)
qed

text \<open>
  C39. Propagation keeps the tree: the header a hop forwards is accepted by the next hop, which
  joins the same trace, records this hop's span as its parent, keeps the sampling decision and
  draws a span id of its own.
\<close>

theorem header_roundtrip:
  assumes "usable_id (tc_TraceID c) 32" and "usable_id (tc_SpanID c) 16"
  shows "let d = FromHeader e (Header c) in
      tc_TraceID d = tc_TraceID c \<and> tc_ParentSpanID d = tc_SpanID c \<and>
      tc_Sampled d = tc_Sampled c \<and> tc_SpanID d = RandomHex e 8 \<and> tc_Inherited d"
  using assms by (simp add: FromHeader_Header Let_def)

definition sample_entropy :: entropy where
  "sample_entropy = \<lparr>ent_read = (\<lambda>n. Some (replicate n 171)), ent_nanos = (\<lambda>_. 0)\<rparr>"

definition sample_context :: trace_context where
  "sample_context = \<lparr>tc_TraceID = replicate 32 (CHR ''a''), tc_SpanID = replicate 16 (CHR ''7''),
     tc_ParentSpanID = [], tc_Sampled = True, tc_Route = [], tc_Inherited = False\<rparr>"

theorem header_roundtrip_witness:
  "let d = FromHeader sample_entropy (Header sample_context) in
      tc_TraceID d = replicate 32 (CHR ''a'') \<and> tc_ParentSpanID d = replicate 16 (CHR ''7'') \<and>
      tc_Sampled d \<and> tc_Inherited d"
proof -
  have "usable_id (tc_TraceID sample_context) 32" "usable_id (tc_SpanID sample_context) 16"
    by code_simp+
  from header_roundtrip [OF this, of sample_entropy] show ?thesis
    by (simp add: Let_def sample_context_def)
qed



end
