(* ===== verification/Telcap.thy ===== *)
theory Telcap
  imports Prelude
begin

text \<open>
  \<open>internal/telcap\<close>: the two mechanics of every per-request telemetry stream, a counter per key
  with bounded memory and a truncation that never splits a UTF-8 sequence.  The mutex of the
  counter makes each \<open>Allow\<close> one step; interleaved requests are sequences of such steps.
\<close>

definition DefaultMaxTrackedKeys :: int where
  "DefaultMaxTrackedKeys = 4096"

record counter =
  cnt_cur :: "int gomap"
  cnt_prev :: "int gomap"
  cnt_maxKeys :: int

definition NewCounter :: "int \<Rightarrow> counter" where
  "NewCounter maxKeys =
     \<lparr>cnt_cur = [], cnt_prev = [],
      cnt_maxKeys = (if maxKeys \<le> 0 then DefaultMaxTrackedKeys else maxKeys)\<rparr>"

definition Allow :: "counter \<Rightarrow> string \<Rightarrow> int \<Rightarrow> counter \<times> bool" where
  "Allow c key mx =
     (if mx \<le> 0 then (c, True)
      else
        let ok = (lookup (cnt_cur c) key \<noteq> None);
            n = (case lookup (cnt_cur c) key of
                   Some m \<Rightarrow> m
                 | None \<Rightarrow> (case lookup (cnt_prev c) key of Some p \<Rightarrow> p | None \<Rightarrow> 0))
        in if n \<ge> mx then (c, False)
           else
             let c1 = (if int (length (cnt_cur c)) \<ge> cnt_maxKeys c \<and> \<not> ok
                       then c\<lparr>cnt_prev := cnt_cur c, cnt_cur := []\<rparr> else c)
             in (c1\<lparr>cnt_cur := store key (n + 1) (cnt_cur c1)\<rparr>, True))"

definition rune_start :: "char \<Rightarrow> bool" where
  "rune_start b \<longleftrightarrow> byte b div 64 \<noteq> 2"

fun cut_back :: "string \<Rightarrow> nat \<Rightarrow> nat" where
  "cut_back s 0 = 0"
| "cut_back s (Suc n) = (if rune_start (s ! Suc n) then Suc n else cut_back s n)"

definition TruncateUTF8 :: "string \<Rightarrow> int \<Rightarrow> string" where
  "TruncateUTF8 s mx =
     (if mx \<le> 0 \<or> int (length s) \<le> mx then s else take (cut_back s (nat mx)) s)"

subsection \<open>The contract of a per-key cap\<close>

text \<open>
  What the two governors rely on: a key that has used its cap is refused and nothing changes,
  any other request is admitted and counted, and a cap of zero or less means no cap.  The count
  of another key may be forgotten by a step, never raised.
\<close>

locale key_cap =
  fixes allow :: "'s \<Rightarrow> string \<Rightarrow> int \<Rightarrow> 's \<times> bool"
    and used :: "'s \<Rightarrow> string \<Rightarrow> int"
    and inv :: "'s \<Rightarrow> bool"
  assumes allow_unlimited: "m \<le> 0 \<Longrightarrow> allow s k m = (s, True)"
    and allow_refused: "0 < m \<Longrightarrow> m \<le> used s k \<Longrightarrow> allow s k m = (s, False)"
    and allow_counted: "inv s \<Longrightarrow> 0 < m \<Longrightarrow> used s k < m \<Longrightarrow>
      \<exists>s'. allow s k m = (s', True) \<and> used s' k = used s k + 1 \<and>
           (\<forall>j. j \<noteq> k \<longrightarrow> used s' j \<le> used s j)"
    and allow_inv: "inv s \<Longrightarrow> inv (fst (allow s k m))"
    and used_nonneg: "inv s \<Longrightarrow> 0 \<le> used s k"
begin

lemma admitted_iff: "inv s \<Longrightarrow> snd (allow s k m) \<longleftrightarrow> m \<le> 0 \<or> used s k < m"
  using allow_unlimited allow_refused allow_counted
  by (metis linorder_not_le snd_conv)

lemma used_after: "inv s \<Longrightarrow> 0 < m \<Longrightarrow>
    used (fst (allow s k m)) k = (if used s k < m then used s k + 1 else used s k)"
  using allow_refused allow_counted by (metis fst_conv linorder_not_le)

lemma used_le_cap: "inv s \<Longrightarrow> 0 < m \<Longrightarrow> used s k \<le> m \<Longrightarrow> used (fst (allow s k m)) k \<le> m"
  by (simp add: used_after)

fun burst :: "'s \<Rightarrow> string \<Rightarrow> int \<Rightarrow> nat \<Rightarrow> 's \<times> nat" where
  "burst s k m 0 = (s, 0)"
| "burst s k m (Suc n) =
     (let (s', ok) = allow s k m; (s'', a) = burst s' k m n
      in (s'', if ok then Suc a else a))"

lemma burst_exact:
  "inv s \<Longrightarrow> 0 < m \<Longrightarrow> int (snd (burst s k m n)) = min (int n) (max 0 (m - used s k))"
proof (induction n arbitrary: s)
  case 0
  then show ?case by simp
next
  case (Suc n)
  show ?case
  proof (cases "used s k < m")
    case True
    then obtain s' where s': "allow s k m = (s', True)" "used s' k = used s k + 1"
      using allow_counted Suc.prems by blast
    then have "inv s'"
      using allow_inv [OF Suc.prems(1), of k m] by simp
    with Suc.IH [of s'] Suc.prems s' True show ?thesis
      by (auto split: prod.splits)
  next
    case False
    then have "allow s k m = (s, False)"
      using allow_refused Suc.prems by simp
    with Suc.IH [of s] Suc.prems False show ?thesis
      by (auto split: prod.splits)
  qed
qed

end

subsection \<open>The counter keeps the contract\<close>

definition counter_used :: "counter \<Rightarrow> string \<Rightarrow> int" where
  "counter_used c key = (case lookup (cnt_cur c) key of
       Some m \<Rightarrow> m
     | None \<Rightarrow> (case lookup (cnt_prev c) key of Some p \<Rightarrow> p | None \<Rightarrow> 0))"

definition generation :: "int \<Rightarrow> int gomap \<Rightarrow> bool" where
  "generation n m \<longleftrightarrow> distinct (keys m) \<and> int (length m) \<le> n \<and> (\<forall>kv \<in> set m. 0 < snd kv)"

definition counter_inv :: "counter \<Rightarrow> bool" where
  "counter_inv c \<longleftrightarrow> 0 < cnt_maxKeys c \<and>
     generation (cnt_maxKeys c) (cnt_cur c) \<and> generation (cnt_maxKeys c) (cnt_prev c)"

lemma length_store: "length (store k v m) = (if lookup m k = None then Suc (length m) else length m)"
  by (induction m) (auto simp: store_def)

lemma set_store: "kv \<in> set (store k v m) \<Longrightarrow> kv = (k, v) \<or> kv \<in> set m"
  by (induction m) (auto simp: store_def split: if_splits)

lemma generation_Nil [simp]: "generation n [] \<longleftrightarrow> 0 \<le> n"
  by (simp add: generation_def)

lemma generation_store:
  "generation n m \<Longrightarrow> 0 < v \<Longrightarrow> lookup m k \<noteq> None \<or> int (length m) < n \<Longrightarrow>
   generation n (store k v m)"
  unfolding generation_def by (auto simp: length_store dest!: set_store)

lemma generation_lookup: "generation n m \<Longrightarrow> lookup m k = Some v \<Longrightarrow> 0 < v"
  unfolding generation_def by (auto dest: map_of_SomeD)

lemma counter_used_nonneg: "counter_inv c \<Longrightarrow> 0 \<le> counter_used c k"
  unfolding counter_inv_def counter_used_def
  by (auto split: option.splits intro: less_imp_le dest: generation_lookup)

lemma NewCounter_inv: "counter_inv (NewCounter n)"
  by (simp add: counter_inv_def NewCounter_def DefaultMaxTrackedKeys_def)

lemma Allow_unfold:
  "Allow c k m =
     (if m \<le> 0 then (c, True) else if m \<le> counter_used c k then (c, False)
      else let c1 = (if cnt_maxKeys c \<le> int (length (cnt_cur c)) \<and> lookup (cnt_cur c) k = None
                     then c\<lparr>cnt_prev := cnt_cur c, cnt_cur := []\<rparr> else c)
           in (c1\<lparr>cnt_cur := store k (counter_used c k + 1) (cnt_cur c1)\<rparr>, True))"
  by (simp add: Allow_def counter_used_def Let_def)

lemma Allow_inv: "counter_inv c \<Longrightarrow> counter_inv (fst (Allow c k m))"
  using counter_used_nonneg [of c k]
  unfolding Allow_unfold counter_inv_def by (auto simp: Let_def intro!: generation_store)

lemma Allow_maxKeys [simp]: "cnt_maxKeys (fst (Allow c k m)) = cnt_maxKeys c"
  by (simp add: Allow_unfold Let_def)

interpretation telcap: key_cap Allow counter_used counter_inv
proof unfold_locales
  fix s k and m :: int
  assume "counter_inv s" and m: "0 < m" and used: "counter_used s k < m"
  define c1 where "c1 = (if cnt_maxKeys s \<le> int (length (cnt_cur s)) \<and> lookup (cnt_cur s) k = None
      then s\<lparr>cnt_prev := cnt_cur s, cnt_cur := []\<rparr> else s)"
  define s' where "s' = c1\<lparr>cnt_cur := store k (counter_used s k + 1) (cnt_cur c1)\<rparr>"
  have "Allow s k m = (s', True)"
    using m used by (simp add: Allow_unfold s'_def c1_def Let_def)
  moreover have "counter_used s' k = counter_used s k + 1"
    by (simp add: counter_used_def s'_def)
  moreover have "counter_used s' j \<le> counter_used s j" if "j \<noteq> k" for j
    using that counter_used_nonneg [OF \<open>counter_inv s\<close>, of j]
      generation_lookup [of "cnt_maxKeys s" "cnt_prev s" j] \<open>counter_inv s\<close>
    by (auto simp: counter_used_def s'_def c1_def counter_inv_def split: option.splits)
  ultimately show "\<exists>s'. Allow s k m = (s', True) \<and> counter_used s' k = counter_used s k + 1 \<and>
      (\<forall>j. j \<noteq> k \<longrightarrow> counter_used s' j \<le> counter_used s j)"
    by blast
qed (erule Allow_inv counter_used_nonneg | simp add: Allow_unfold)+

subsection \<open>Interleaved requests\<close>

fun allow_run :: "counter \<Rightarrow> int \<Rightarrow> string list \<Rightarrow> counter \<times> string list" where
  "allow_run c m [] = (c, [])"
| "allow_run c m (k # ks) =
     (let (c', ok) = Allow c k m; (c'', admitted) = allow_run c' m ks
      in (c'', if ok then k # admitted else admitted))"

lemma allow_run_inv: "counter_inv c \<Longrightarrow> counter_inv (fst (allow_run c m ks))"
proof (induction ks arbitrary: c)
  case (Cons k ks)
  then have "counter_inv (fst (Allow c k m))"
    by (simp add: Allow_inv)
  with Cons.IH show ?case
    by (auto split: prod.splits) (metis fst_conv)
qed simp

lemma allow_run_maxKeys [simp]: "cnt_maxKeys (fst (allow_run c m ks)) = cnt_maxKeys c"
proof (induction ks arbitrary: c)
  case (Cons k ks)
  then show ?case
    by (auto split: prod.splits) (metis Allow_maxKeys fst_conv)
qed simp

text \<open>While every key fits in the current generation, a step forgets nothing.\<close>

lemma Allow_in_generation:
  assumes inv: "counter_inv c" and m: "0 < m" and prev: "cnt_prev c = []"
    and fits: "card (insert k (fst ` set (cnt_cur c))) \<le> nat (cnt_maxKeys c)"
    and step: "Allow c k m = (c', ok)"
  shows "cnt_prev c' = []" and "fst ` set (cnt_cur c') \<subseteq> insert k (fst ` set (cnt_cur c))"
    and "ok \<longleftrightarrow> counter_used c k < m"
    and "counter_used c' j = (if j = k \<and> ok then counter_used c j + 1 else counter_used c j)"
proof -
  have room: "lookup (cnt_cur c) k \<noteq> None \<or> int (length (cnt_cur c)) < cnt_maxKeys c"
  proof (cases "lookup (cnt_cur c) k")
    case None
    have "length (cnt_cur c) = card (fst ` set (cnt_cur c))"
      using inv distinct_card [of "keys (cnt_cur c)"]
      by (simp add: counter_inv_def generation_def)
    with None fits inv show ?thesis
      by (auto simp: map_of_eq_None_iff counter_inv_def)
  qed simp
  then have c': "c' = (if counter_used c k < m
        then c\<lparr>cnt_cur := store k (counter_used c k + 1) (cnt_cur c)\<rparr> else c)"
    and ok: "ok \<longleftrightarrow> counter_used c k < m"
    using step m by (auto simp: Allow_unfold Let_def split: if_splits)
  show "cnt_prev c' = []" and "ok \<longleftrightarrow> counter_used c k < m"
    using c' prev ok by simp_all
  show "fst ` set (cnt_cur c') \<subseteq> insert k (fst ` set (cnt_cur c))"
    using c' by (auto simp: keys_store)
  show "counter_used c' j = (if j = k \<and> ok then counter_used c j + 1 else counter_used c j)"
    using ok prev unfolding c' by (auto simp: counter_used_def split: option.split)
qed

lemma allow_run_exact:
  assumes "counter_inv c" and "0 < m" and "cnt_prev c = []"
    and "card (fst ` set (cnt_cur c) \<union> set ks) \<le> nat (cnt_maxKeys c)"
  shows "int (count_list (snd (allow_run c m ks)) k) =
     min (int (count_list ks k)) (max 0 (m - counter_used c k))"
  using assms
proof (induction ks arbitrary: c)
  case Nil
  then show ?case by simp
next
  case (Cons x ks)
  obtain c' ok where step: "Allow c x m = (c', ok)"
    by fastforce
  have "card (insert x (fst ` set (cnt_cur c))) \<le> nat (cnt_maxKeys c)"
    using Cons.prems(4) by (rule order_trans [rotated]) (auto intro!: card_mono)
  note facts = Allow_in_generation [OF Cons.prems(1,2,3) this step]
  have "counter_inv c'" and max: "cnt_maxKeys c' = cnt_maxKeys c"
    using Allow_inv [OF Cons.prems(1), of x m] Allow_maxKeys [of c x m] step by simp_all
  moreover have "card (fst ` set (cnt_cur c') \<union> set ks) \<le> nat (cnt_maxKeys c')"
    using Cons.prems(4) facts(2) unfolding max
    by (elim order_trans [rotated]) (auto intro!: card_mono)
  ultimately have "int (count_list (snd (allow_run c' m ks)) k) =
      min (int (count_list ks k)) (max 0 (m - counter_used c' k))"
    using Cons.IH Cons.prems(2) facts(1) by blast
  with facts(3) facts(4) [of k] step show ?case
    by (cases "x = k") (auto split: prod.splits)
qed

text \<open>
  C31. The counter is exact for recent keys: however the calls of different requests interleave,
  as long as they name no more distinct keys than one generation holds, each key is admitted
  exactly as often as it asks, up to the cap.
\<close>

theorem counter_exact:
  assumes "0 < n" and "0 < m" and "card (set ks) \<le> nat n"
  shows "int (count_list (snd (allow_run (NewCounter n) m ks)) k) = min (int (count_list ks k)) m"
  using allow_run_exact [OF NewCounter_inv [of n], of m ks k] assms
  by (simp add: NewCounter_def counter_used_def)

theorem counter_exact_witness:
  "int (count_list (snd (allow_run (NewCounter 2) 2 [''a'', ''b'', ''a'', ''a'', ''b''])) ''a'') = 2"
  using counter_exact [of 2 2 "[''a'', ''b'', ''a'', ''a'', ''b'']" "''a''"] by (simp add: card_insert_if)

text \<open>
  Memory is bounded whatever the traffic: after any sequence of calls the two generations
  together hold at most twice the configured number of keys.
\<close>

theorem counter_memory_bounded:
  "let c = fst (allow_run (NewCounter n) m ks) in
     int (length (cnt_cur c) + length (cnt_prev c)) \<le>
       2 * (if n \<le> 0 then DefaultMaxTrackedKeys else n)"
  using allow_run_inv [OF NewCounter_inv [of n], of m ks]
    allow_run_maxKeys [of "NewCounter n" m ks]
  by (auto simp: counter_inv_def generation_def NewCounter_def Let_def)

subsection \<open>Truncation\<close>

text \<open>
  The shape of a UTF-8 string: a leading byte followed by the continuation bytes it announces.
\<close>

definition rune_width :: "char \<Rightarrow> nat" where
  "rune_width b = (if byte b < 128 then 1 else if byte b < 192 then 0
                   else if byte b < 224 then 2 else if byte b < 240 then 3
                   else if byte b < 248 then 4 else 0)"

fun utf8_ok :: "string \<Rightarrow> bool" where
  "utf8_ok [] = True"
| "utf8_ok (c # s) =
     (let n = rune_width c - 1
      in 0 < rune_width c \<and> n \<le> length s \<and> list_all (\<lambda>b. \<not> rune_start b) (take n s)
         \<and> utf8_ok (drop n s))"

lemma cut_back_le: "cut_back s n \<le> n"
  by (induction n) auto

lemma cut_back_start: "cut_back s n = 0 \<or> rune_start (s ! cut_back s n)"
  by (induction n) auto

lemma cut_back_skips: "cut_back s n < i \<Longrightarrow> i \<le> n \<Longrightarrow> \<not> rune_start (s ! i)"
  by (induction n) (auto simp: le_Suc_eq split: if_splits)

lemma utf8_ok_take:
  "utf8_ok s \<Longrightarrow> k < length s \<Longrightarrow> k = 0 \<or> rune_start (s ! k) \<Longrightarrow> utf8_ok (take k s)"
proof (induction s arbitrary: k rule: utf8_ok.induct)
  case 1
  then show ?case by simp
next
  case (2 c s)
  define n where "n = rune_width c - 1"
  show ?case
  proof (cases k)
    case (Suc j)
    have cont: "\<not> rune_start (s ! i)" if "i < n" for i
      using 2(2) that by (auto simp: n_def Let_def list_all_length)
    then have "n \<le> j"
      using 2(4) Suc not_less by auto
    moreover have "utf8_ok (take (j - n) (drop n s))"
      using 2(1) [of n "j - n"] 2(2-4) Suc \<open>n \<le> j\<close> by (auto simp: n_def Let_def)
    ultimately show ?thesis
      using 2(2,3) Suc by (auto simp: n_def Let_def drop_take min_def)
  qed simp
qed

lemma utf8_ok_short_runs:
  "utf8_ok s \<Longrightarrow> k + 3 < length s \<Longrightarrow> \<exists>i \<in> {k..k+3}. rune_start (s ! i)"
proof (induction s arbitrary: k rule: utf8_ok.induct)
  case 1
  then show ?case by simp
next
  case (2 c s)
  define n where "n = rune_width c - 1"
  have start: "rune_start c"
    using 2(2) by (auto simp: rune_start_def rune_width_def Let_def split: if_splits)
  have small: "n \<le> 3"
    by (auto simp: n_def rune_width_def)
  have rest: "utf8_ok (drop n s)" "n \<le> length s"
    using 2(2) by (auto simp: n_def Let_def)
  have head: "rune_start (s ! n)" if "n < length s"
  proof -
    have "drop n s = s ! n # drop (Suc n) s"
      using that by (simp add: Cons_nth_drop_Suc)
    with rest(1) show ?thesis
      by (auto simp: rune_start_def rune_width_def Let_def split: if_splits)
  qed
  consider "k = 0" | "0 < k" "k \<le> n" | "n < k"
    by linarith
  then show ?case
  proof cases
    case 1
    with start show ?thesis by (intro bexI [of _ 0]) auto
  next
    case 2
    with small head "2.prems" show ?thesis by (intro bexI [of _ "Suc n"]) auto
  next
    case 3
    then have "k - Suc n + 3 < length (drop n s)"
      using "2.prems"(2) by simp
    then obtain i where "i \<in> {k - Suc n..k - Suc n + 3}" "rune_start (drop n s ! i)"
      using "2.IH" [OF n_def rest(1)] by blast
    with 3 rest "2.prems" show ?thesis
      by (intro bexI [of _ "Suc (n + i)"]) auto
  qed
qed

lemma TruncateUTF8_length: "0 < mx \<Longrightarrow> int (length (TruncateUTF8 s mx)) \<le> mx"
  using cut_back_le [of s "nat mx"] by (auto simp: TruncateUTF8_def)

text \<open>
  Truncation respects the limit and the encoding: the result is a prefix of at most
  \<open>max\<close> bytes, it is well-formed UTF-8 when the input is, and at most three bytes
  of the budget are given up to reach a boundary.
\<close>

theorem truncate_utf8_correct:
  assumes "0 < mx" and "utf8_ok s"
  shows "let t = TruncateUTF8 s mx in
      int (length t) \<le> mx \<and> t = take (length t) s \<and> utf8_ok t \<and>
      (t = s \<or> mx < int (length t) + 4)"
proof (cases "int (length s) \<le> mx")
  case True
  with assms show ?thesis by (simp add: TruncateUTF8_def)
next
  case False
  define k where "k = cut_back s (nat mx)"
  have t: "TruncateUTF8 s mx = take k s"
    using False assms(1) by (simp add: TruncateUTF8_def k_def)
  have le: "k \<le> nat mx" and start: "k = 0 \<or> rune_start (s ! k)"
    unfolding k_def by (rule cut_back_le, rule cut_back_start)
  then have len: "k < length s"
    using False assms(1) by linarith
  have "nat mx < k + 4"
  proof (rule ccontr)
    assume far: "\<not> nat mx < k + 4"
    then obtain i where "i \<in> {Suc k..Suc k + 3}" "rune_start (s ! i)"
      using utf8_ok_short_runs [OF assms(2), of "Suc k"] False by fastforce
    with far cut_back_skips [of s "nat mx" i] show False
      by (auto simp: k_def)
  qed
  with le len assms t start utf8_ok_take [OF assms(2) len] show ?thesis
    by (auto simp: Let_def)
qed

theorem truncate_utf8_correct_witness:
  "utf8_ok (TruncateUTF8 [CHR ''a'', CHR 0xC3, CHR 0xA9, CHR ''b''] 2)"
proof -
  have "utf8_ok [CHR ''a'', CHR 0xC3, CHR 0xA9, CHR ''b'']"
    by code_simp
  from truncate_utf8_correct [OF _ this, of 2] show ?thesis
    by (simp add: Let_def)
qed

end
