(* ===== verification/Glob.thy ===== *)
theory Glob
  imports Prelude
begin

text \<open>
  Path globs: \<open>path.Match\<close> on one segment, the segment matcher of \<open>internal/engine\<close>
  (\<open>splitPath\<close>, \<open>matchSegments\<close>) and the route normaliser \<open>NormalizeRoute\<close>.  A segment pattern
  is read into tokens first; a pattern \<open>path.Match\<close> rejects with \<open>ErrBadPattern\<close> reads as \<open>None\<close>.
\<close>

subsection \<open>Package path: Match\<close>

datatype glob_tok = GStar | GAny | GClass bool "(char \<times> char) list" | GLit char

fun get_esc :: "string \<Rightarrow> (char \<times> string) option" where
  "get_esc [] = None"
| "get_esc (c # cs) =
     (if c = CHR ''-'' \<or> c = CHR '']'' then None
      else if c = CHR 0x5C then
        (case cs of [] \<Rightarrow> None | d # ds \<Rightarrow> if ds = [] then None else Some (d, ds))
      else if cs = [] then None else Some (c, cs))"

lemma get_esc_length: "get_esc s = Some (c, t) \<Longrightarrow> length t < length s"
  by (cases s) (auto split: if_splits list.splits)

function parse_ranges :: "bool \<Rightarrow> string \<Rightarrow> ((char \<times> char) list \<times> string) option" where
  "parse_ranges some s =
     (if some \<and> s \<noteq> [] \<and> hd s = CHR '']'' then Some ([], tl s)
      else case get_esc s of
          None \<Rightarrow> None
        | Some (lo, t) \<Rightarrow>
            if hd t = CHR ''-'' then
              (case get_esc (tl t) of
                 None \<Rightarrow> None
               | Some (hi, u) \<Rightarrow>
                   (case parse_ranges True u of None \<Rightarrow> None
                    | Some (rs, v) \<Rightarrow> Some ((lo, hi) # rs, v)))
            else (case parse_ranges True t of None \<Rightarrow> None
                  | Some (rs, v) \<Rightarrow> Some ((lo, lo) # rs, v)))"
  by pat_completeness auto
termination
proof (relation "measure (\<lambda>(_, s). length s)", goal_cases)
  case (2 some s x2 lo t x2' hi u)
  have "length t < length s" "length u < length (tl t)"
    using 2 by (auto dest: get_esc_length)
  then show ?case by simp
next
  case (3 some s x2 lo t)
  then show ?case by (auto dest: get_esc_length)
qed simp

declare parse_ranges.simps [simp del]

lemma parse_ranges_length: "parse_ranges b s = Some (rs, t) \<Longrightarrow> length t \<le> length s"
proof (induction b s arbitrary: rs t rule: parse_ranges.induct)
  case (1 b s)
  show ?case
  proof (cases "b \<and> s \<noteq> [] \<and> hd s = CHR '']''")
    case True
    with 1(3) show ?thesis by (subst (asm) parse_ranges.simps) auto
  next
    case False
    with 1(3) obtain lo u where u: "get_esc s = Some (lo, u)"
      by (subst (asm) parse_ranges.simps) (auto split: option.splits)
    note len = get_esc_length [OF u]
    show ?thesis
    proof (cases "hd u = CHR ''-''")
      case True
      with 1(3) False u obtain hi w rs' where w: "get_esc (tl u) = Some (hi, w)"
          "parse_ranges True w = Some (rs', t)"
        by (subst (asm) parse_ranges.simps) (auto split: option.splits)
      have "length t \<le> length w"
        using 1(1) [OF False u _ True w(1) _ w(2)] by simp
      with get_esc_length [OF w(1)] len show ?thesis
        by (simp add: less_le_trans)
    next
      case no: False
      with 1(3) False u obtain rs' where "parse_ranges True u = Some (rs', t)"
        by (subst (asm) parse_ranges.simps) (auto split: option.splits)
      with 1(2) [OF False u _ no] len show ?thesis by fastforce
    qed
  qed
qed

function parse_glob :: "string \<Rightarrow> glob_tok list option" where
  "parse_glob [] = Some []"
| "parse_glob (c # cs) =
     (if c = CHR ''*'' then map_option ((#) GStar) (parse_glob cs)
      else if c = CHR ''?'' then map_option ((#) GAny) (parse_glob cs)
      else if c = CHR ''['' then
        (let neg = (cs \<noteq> [] \<and> hd cs = CHR ''^'')
         in case parse_ranges False (if neg then tl cs else cs) of
              None \<Rightarrow> None
            | Some (rs, rest) \<Rightarrow> map_option ((#) (GClass neg rs)) (parse_glob rest))
      else if c = CHR 0x5C then
        (case cs of [] \<Rightarrow> None | d # ds \<Rightarrow> map_option ((#) (GLit d)) (parse_glob ds))
      else map_option ((#) (GLit c)) (parse_glob cs))"
  by pat_completeness auto
termination
proof (relation "measure length", goal_cases)
  case (4 c cs neg x2 rs rest)
  have "length rest \<le> length (if neg then tl cs else cs)"
    using 4 by (auto dest: parse_ranges_length)
  then show ?case by (auto simp: le_imp_less_Suc split: if_splits)
qed auto

fun in_ranges :: "char \<Rightarrow> (char \<times> char) list \<Rightarrow> bool" where
  "in_ranges c [] = False"
| "in_ranges c ((lo, hi) # rs) = ((byte lo \<le> byte c \<and> byte c \<le> byte hi) \<or> in_ranges c rs)"

fun match_toks :: "glob_tok list \<Rightarrow> string \<Rightarrow> bool" where
  "match_toks [] s = (s = [])"
| "match_toks (GStar # ts) [] = match_toks ts []"
| "match_toks (GStar # ts) (c # cs) =
     (match_toks ts (c # cs) \<or> (c \<noteq> CHR ''/'' \<and> match_toks (GStar # ts) cs))"
| "match_toks (GAny # ts) s =
     (case s of [] \<Rightarrow> False | c # cs \<Rightarrow> c \<noteq> CHR ''/'' \<and> match_toks ts cs)"
| "match_toks (GClass neg rs # ts) s =
     (case s of [] \<Rightarrow> False | c # cs \<Rightarrow> in_ranges c rs \<noteq> neg \<and> match_toks ts cs)"
| "match_toks (GLit d # ts) s =
     (case s of [] \<Rightarrow> False | c # cs \<Rightarrow> c = d \<and> match_toks ts cs)"

definition path_Match :: "string \<Rightarrow> string \<Rightarrow> bool option" where
  "path_Match pat name = map_option (\<lambda>ts. match_toks ts name) (parse_glob pat)"

subsection \<open>Segments\<close>

definition splitPath :: "string \<Rightarrow> string list" where
  "splitPath s = (let t = trim (\<lambda>c. c = CHR ''/'') s
     in if t = [] then [] else split_on (CHR ''/'') t)"

fun matchSegments :: "string list \<Rightarrow> string list \<Rightarrow> bool" where
  "matchSegments [] segs = (segs = [])"
| "matchSegments (p # ps) segs =
     (if p = ''**'' then
        (if ps = [] then True
         else list_ex (\<lambda>i. matchSegments ps (drop i segs)) [0..<Suc (length segs)])
      else (case segs of
              [] \<Rightarrow> False
            | s # ss \<Rightarrow> path_Match p s = Some True \<and> matchSegments ps ss))"

definition is_num :: "string \<Rightarrow> bool" where
  "is_num s \<longleftrightarrow> s \<noteq> [] \<and> list_all is_digit s"

definition is_hex_digit :: "char \<Rightarrow> bool" where
  "is_hex_digit c \<longleftrightarrow> is_digit c \<or> (97 \<le> byte c \<and> byte c \<le> 102) \<or> (65 \<le> byte c \<and> byte c \<le> 70)"

definition is_uuid :: "string \<Rightarrow> bool" where
  "is_uuid s \<longleftrightarrow> (let gs = split_on (CHR ''-'') s
     in map length gs = [8, 4, 4, 4, 12] \<and> list_all (list_all is_hex_digit) gs)"

definition is_long_hex :: "string \<Rightarrow> bool" where
  "is_long_hex s \<longleftrightarrow> 16 \<le> length s \<and> list_all is_hex_digit s"

definition NormalizeRoute :: "string \<Rightarrow> string" where
  "NormalizeRoute urlPath =
     (let segs = map (\<lambda>s. if is_num s \<or> is_uuid s \<or> is_long_hex s then '':id'' else s)
                   (splitPath urlPath)
      in ''/'' @ join ''/'' segs)"

subsection \<open>The matcher and its specification\<close>

text \<open>\<open>**\<close> stands for zero or more segments, any other pattern for exactly one.\<close>

inductive covers :: "string list \<Rightarrow> string list \<Rightarrow> bool" where
  none: "covers [] []"
| one: "p \<noteq> ''**'' \<Longrightarrow> path_Match p s = Some True \<Longrightarrow> covers ps ss \<Longrightarrow> covers (p # ps) (s # ss)"
| skip: "covers ps ss \<Longrightarrow> covers (''**'' # ps) ss"
| more: "covers (''**'' # ps) ss \<Longrightarrow> covers (''**'' # ps) (s # ss)"

inductive_cases covers_NilE: "covers [] ss"
inductive_cases covers_ConsE: "covers (p # ps) ss"
inductive_simps covers_Nil_iff [simp]: "covers [] ss"

lemma covers_more: "covers ps (drop i ss) \<Longrightarrow> covers (''**'' # ps) ss"
proof (induction i arbitrary: ss)
  case 0
  then show ?case by (simp add: covers.skip)
next
  case (Suc i)
  then show ?case
    by (cases ss) (auto intro: covers.skip covers.more)
qed

lemma covers_star_iff: "covers (''**'' # ps) ss \<longleftrightarrow> (\<exists>i \<le> length ss. covers ps (drop i ss))"
proof
  have "covers qs ss \<Longrightarrow> qs = ''**'' # ps \<Longrightarrow> \<exists>i \<le> length ss. covers ps (drop i ss)" for qs
  proof (induction rule: covers.induct)
    case (skip ps' ss)
    then show ?case by (intro exI [of _ 0]) auto
  next
    case (more ps' ss s)
    then obtain i where "i \<le> length ss" "covers ps (drop i ss)" by auto
    then show ?case by (intro exI [of _ "Suc i"]) auto
  qed auto
  then show "covers (''**'' # ps) ss \<Longrightarrow> \<exists>i \<le> length ss. covers ps (drop i ss)"
    by blast
qed (auto intro: covers_more)

lemma covers_all: "covers [''**''] ss"
  using covers_star_iff [of "[]" ss] by auto

text \<open>
  C30. The recursive matcher with its loop over suffixes decides exactly the documented
  meaning of a route glob.
\<close>

theorem matchSegments_correct: "matchSegments ps ss \<longleftrightarrow> covers ps ss"
proof (induction ps ss rule: matchSegments.induct)
  case (1 segs)
  then show ?case by simp
next
  case (2 p ps segs)
  show ?case
  proof (cases "p = ''**''")
    case True
    show ?thesis
    proof (cases "ps = []")
      case False
      have "matchSegments (p # ps) segs \<longleftrightarrow>
          list_ex (\<lambda>i. matchSegments ps (drop i segs)) [0..<Suc (length segs)]"
        using True False by (simp del: upt_Suc)
      also have "\<dots> \<longleftrightarrow> list_ex (\<lambda>i. covers ps (drop i segs)) [0..<Suc (length segs)]"
        using 2(1) [OF True False] by (intro list_ex_cong) auto
      also have "\<dots> \<longleftrightarrow> covers (p # ps) segs"
        unfolding True covers_star_iff list_ex_upto ..
      finally show ?thesis .
    qed (simp add: True covers_all)
  next
    case False
    show ?thesis
    proof (cases segs)
      case (Cons s ss)
      then show ?thesis
        using 2(2) [OF False Cons] False by (auto intro: covers.one elim: covers_ConsE)
    qed (use False in \<open>auto elim: covers_ConsE\<close>)
  qed
qed

lemma matchSegments_star_append:
  "matchSegments ps ss \<Longrightarrow> matchSegments (''**'' # ps) (xs @ ss)"
  unfolding matchSegments_correct by (rule covers_more [of _ "length xs"]) simp

subsection \<open>Literal patterns\<close>

definition plain_char :: "char \<Rightarrow> bool" where
  "plain_char c \<longleftrightarrow> c \<notin> {CHR ''*'', CHR ''?'', CHR ''['', CHR 0x5C}"

lemma parse_glob_plain: "list_all plain_char s \<Longrightarrow> parse_glob s = Some (map GLit s)"
  by (induction s) (auto simp: plain_char_def)

lemma match_toks_lits: "match_toks (map GLit s) t \<longleftrightarrow> t = s"
  by (induction s arbitrary: t) (auto split: list.splits)

lemma path_Match_plain: "list_all plain_char p \<Longrightarrow> path_Match p s = Some (s = p)"
  by (simp add: path_Match_def parse_glob_plain match_toks_lits)

lemma path_Match_star:
  "CHR ''/'' \<notin> set s \<Longrightarrow> path_Match ''*'' s = Some True"
  by (induction s) (auto simp: path_Match_def)

lemma matchSegments_plain:
  "\<forall>p \<in> set ps. list_all plain_char p \<Longrightarrow> matchSegments ps ss \<longleftrightarrow> ss = ps"
proof (induction ps arbitrary: ss)
  case (Cons p ps)
  then have "p \<noteq> ''**''"
    by (auto simp: plain_char_def)
  with Cons show ?case
    by (auto simp: path_Match_plain split: list.splits)
qed simp

subsection \<open>Routes\<close>

lemma splitPath_no_slash: "s \<in> set (splitPath p) \<Longrightarrow> CHR ''/'' \<notin> set s"
  by (auto simp: splitPath_def Let_def dest: split_on_elem split: if_splits)

lemma hd_split_on: "s \<noteq> [] \<Longrightarrow> hd s \<noteq> sep \<Longrightarrow> hd (split_on sep s) \<noteq> []"
  by (cases s) (auto split: list.splits)

lemma last_split_on: "s \<noteq> [] \<Longrightarrow> last s \<noteq> sep \<Longrightarrow> last (split_on sep s) \<noteq> []"
  by (induction s) (auto split: list.splits if_splits)

lemma splitPath_ends:
  "splitPath p \<noteq> [] \<Longrightarrow> hd (splitPath p) \<noteq> [] \<and> last (splitPath p) \<noteq> []"
  using trim_cases [of "\<lambda>c. c = CHR ''/''" p]
  by (auto simp: splitPath_def Let_def dest: hd_split_on last_split_on split: if_splits)

lemma join_last:
  "xs \<noteq> [] \<Longrightarrow> last xs \<noteq> [] \<Longrightarrow> join sep xs \<noteq> [] \<and> last (join sep xs) = last (last xs)"
  by (induction xs) (auto simp: join_Cons)

lemma join_hd: "xs \<noteq> [] \<Longrightarrow> hd xs \<noteq> [] \<Longrightarrow> hd (join sep xs) = hd (hd xs)"
  by (cases xs) (auto simp: join_Cons)

lemma splitPath_join:
  assumes "\<forall>x \<in> set xs. CHR ''/'' \<notin> set x"
    and "xs = [] \<or> (hd xs \<noteq> [] \<and> last xs \<noteq> [])"
  shows "splitPath (''/'' @ join ''/'' xs) = xs"
proof (cases "xs = []")
  case True
  then show ?thesis by (simp add: splitPath_def trim_def trim_left_def trim_right_def)
next
  case False
  let ?j = "join ''/'' xs"
  have ends: "?j \<noteq> []" "hd ?j = hd (hd xs)" "last ?j = last (last xs)"
    using join_last [of xs "''/''"] join_hd [of xs "''/''"] False assms(2) by auto
  have "hd (hd xs) \<noteq> CHR ''/''" "last (last xs) \<noteq> CHR ''/''"
    using assms False by (metis hd_in_set last_in_set)+
  then have "trim (\<lambda>c. c = CHR ''/'') ?j = ?j"
    using ends by (intro trim_ends) auto
  then have "trim (\<lambda>c. c = CHR ''/'') (''/'' @ ?j) = ?j"
    by (simp add: trim_def trim_left_def)
  with ends(1) split_on_join [OF False assms(1)] show ?thesis
    by (simp add: splitPath_def Let_def)
qed

definition id_like :: "string \<Rightarrow> bool" where
  "id_like s \<longleftrightarrow> is_num s \<or> is_uuid s \<or> is_long_hex s"

lemma not_id_like_placeholder: "\<not> id_like '':id''"
  by (simp add: id_like_def is_num_def is_uuid_def is_long_hex_def is_digit_def)

lemma splitPath_NormalizeRoute:
  "splitPath (NormalizeRoute p) = map (\<lambda>s. if id_like s then '':id'' else s) (splitPath p)"
  unfolding NormalizeRoute_def Let_def id_like_def [symmetric]
proof (rule splitPath_join)
  show "\<forall>x \<in> set (map (\<lambda>s. if id_like s then '':id'' else s) (splitPath p)). CHR ''/'' \<notin> set x"
    by (auto dest: splitPath_no_slash)
  show "map (\<lambda>s. if id_like s then '':id'' else s) (splitPath p) = [] \<or>
      (hd (map (\<lambda>s. if id_like s then '':id'' else s) (splitPath p)) \<noteq> [] \<and>
       last (map (\<lambda>s. if id_like s then '':id'' else s) (splitPath p)) \<noteq> [])"
    using splitPath_ends [of p] by (auto simp: hd_map last_map split: if_splits)
qed

text \<open>
  Metric cardinality is bounded by the routes, not by the traffic: normalising a path keeps
  its shape, replaces exactly the identifier-like segments, leaves none of them, and doing it
  again changes nothing.
\<close>

theorem NormalizeRoute_correct:
  "length (splitPath (NormalizeRoute p)) = length (splitPath p) \<and>
   (\<forall>i < length (splitPath p). splitPath (NormalizeRoute p) ! i =
      (if id_like (splitPath p ! i) then '':id'' else splitPath p ! i)) \<and>
   (\<forall>s \<in> set (splitPath (NormalizeRoute p)). \<not> id_like s) \<and>
   NormalizeRoute (NormalizeRoute p) = NormalizeRoute p"
proof -
  have segs: "splitPath (NormalizeRoute p) = map (\<lambda>s. if id_like s then '':id'' else s) (splitPath p)"
    by (rule splitPath_NormalizeRoute)
  have none: "\<forall>s \<in> set (splitPath (NormalizeRoute p)). \<not> id_like s"
    using segs not_id_like_placeholder by auto
  have idem: "NormalizeRoute (NormalizeRoute p) = NormalizeRoute p"
  proof -
    have "map (\<lambda>s. if id_like s then '':id'' else s) (splitPath (NormalizeRoute p)) =
        splitPath (NormalizeRoute p)"
      using none by (intro map_idI) auto
    then have "NormalizeRoute (NormalizeRoute p) = ''/'' @ join ''/'' (splitPath (NormalizeRoute p))"
      by (simp add: NormalizeRoute_def [of "NormalizeRoute p"] Let_def id_like_def [symmetric])
    also have "\<dots> = NormalizeRoute p"
      unfolding segs by (simp add: NormalizeRoute_def Let_def id_like_def)
    finally show ?thesis .
  qed
  show ?thesis
    by (intro conjI none idem) (simp_all add: segs)
qed

theorem NormalizeRoute_correct_witness:
  "splitPath ''/users/42'' ! 1 = ''42'' \<and> splitPath (NormalizeRoute ''/users/42'') ! 1 = '':id''"
proof -
  have "splitPath ''/users/42'' = [''users'', ''42'']"
    by code_simp
  moreover have "id_like ''42''"
    by code_simp
  moreover note NormalizeRoute_correct [of "''/users/42''", THEN conjunct2, THEN conjunct1,
      THEN spec [of _ "1 :: nat"]]
  ultimately show ?thesis by simp
qed

end
