(* ===== verification/GoRegex.thy ===== *)
theory GoRegex
  imports Prelude
begin

text \<open>
  Package \<open>regexp\<close>: the matching semantics of compiled expressions.  An expression is its
  syntax tree; \<open>matches\<close> lists the ways it can match from a position in order of preference
  (leftmost-first, greedy repetition before lazy), so the head of the list is the match Go
  reports.  Reading the concrete syntax is \<open>regexp.Compile\<close>; where a pattern comes from a
  configuration, the compiler is a parameter of the definitions that use it, and the patterns
  that are constants of the program are written as trees.
\<close>

datatype rx =
    REps
  | RBegin
  | REnd
  | RWordB
  | RClass bool "(char \<times> char) list"
  | RSeq rx rx
  | RAlt rx rx
  | RRep rx nat "nat option"
  | RGroup rx

type_synonym caps = "(nat \<times> nat) list"
type_synonym rstate = "nat \<times> caps"

definition is_word_char :: "char \<Rightarrow> bool" where
  "is_word_char c \<longleftrightarrow> is_alpha c \<or> is_digit c \<or> c = CHR ''_''"

definition word_at :: "string \<Rightarrow> nat \<Rightarrow> bool" where
  "word_at s i \<longleftrightarrow> i < length s \<and> is_word_char (s ! i)"

definition at_boundary :: "string \<Rightarrow> nat \<Rightarrow> bool" where
  "at_boundary s i \<longleftrightarrow> (0 < i \<and> word_at s (i - 1)) \<noteq> word_at s i"

fun in_class :: "char \<Rightarrow> (char \<times> char) list \<Rightarrow> bool" where
  "in_class c [] = False"
| "in_class c ((lo, hi) # rs) = ((byte lo \<le> byte c \<and> byte c \<le> byte hi) \<or> in_class c rs)"

fun exactly :: "(rstate \<Rightarrow> rstate list) \<Rightarrow> nat \<Rightarrow> rstate \<Rightarrow> rstate list" where
  "exactly f 0 st = [st]"
| "exactly f (Suc n) st = concat (map (exactly f n) (f st))"

text \<open>Optional further rounds; a round that consumes nothing ends the repetition.\<close>

fun at_most :: "(rstate \<Rightarrow> rstate list) \<Rightarrow> nat \<Rightarrow> rstate \<Rightarrow> rstate list" where
  "at_most f 0 st = [st]"
| "at_most f (Suc n) st =
     concat (map (at_most f n) (filter (\<lambda>st'. fst st < fst st') (f st))) @ [st]"

fun matches :: "rx \<Rightarrow> string \<Rightarrow> rstate \<Rightarrow> rstate list" where
  "matches REps s st = [st]"
| "matches RBegin s st = (if fst st = 0 then [st] else [])"
| "matches REnd s st = (if fst st = length s then [st] else [])"
| "matches RWordB s st = (if at_boundary s (fst st) then [st] else [])"
| "matches (RClass neg rs) s st =
     (if fst st < length s \<and> in_class (s ! fst st) rs \<noteq> neg then [(Suc (fst st), snd st)] else [])"
| "matches (RSeq a b) s st = concat (map (matches b s) (matches a s st))"
| "matches (RAlt a b) s st = matches a s st @ matches b s st"
| "matches (RRep a lo hi) s st =
     concat (map (\<lambda>st'. at_most (matches a s)
                     (case hi of None \<Rightarrow> length s - fst st' | Some h \<Rightarrow> h - lo) st')
                 (exactly (matches a s) lo st))"
| "matches (RGroup a) s st =
     map (\<lambda>st'. (fst st', (fst st, fst st') # snd st')) (matches a s st)"

definition match_from :: "rx \<Rightarrow> string \<Rightarrow> nat \<Rightarrow> rstate option" where
  "match_from r s i = (case matches r s (i, []) of [] \<Rightarrow> None | st # _ \<Rightarrow> Some st)"

text \<open>The leftmost match at or after a position: its start and its end state.\<close>

fun find_upto :: "rx \<Rightarrow> string \<Rightarrow> nat \<Rightarrow> nat \<Rightarrow> (nat \<times> rstate) option" where
  "find_upto r s i 0 = (case match_from r s i of None \<Rightarrow> None | Some st \<Rightarrow> Some (i, st))"
| "find_upto r s i (Suc n) =
     (case match_from r s i of None \<Rightarrow> find_upto r s (Suc i) n | Some st \<Rightarrow> Some (i, st))"

definition find_from :: "rx \<Rightarrow> string \<Rightarrow> nat \<Rightarrow> (nat \<times> rstate) option" where
  "find_from r s i = (if i \<le> length s then find_upto r s i (length s - i) else None)"

definition slice :: "string \<Rightarrow> nat \<Rightarrow> nat \<Rightarrow> string" where
  "slice s i j = take (j - i) (drop i s)"

definition MatchString :: "rx \<Rightarrow> string \<Rightarrow> bool" where
  "MatchString r s \<longleftrightarrow> find_from r s 0 \<noteq> None"

text \<open>The first capture group of the leftmost match, as \<open>FindStringSubmatch\<close> reports it.\<close>

definition first_group :: "rx \<Rightarrow> string \<Rightarrow> string option" where
  "first_group r s = (case find_from r s 0 of
       None \<Rightarrow> None
     | Some (_, _, cs) \<Rightarrow> Some (case rev cs of [] \<Rightarrow> [] | (i, j) # _ \<Rightarrow> slice s i j))"

fun NumSubexp :: "rx \<Rightarrow> nat" where
  "NumSubexp (RSeq a b) = NumSubexp a + NumSubexp b"
| "NumSubexp (RAlt a b) = NumSubexp a + NumSubexp b"
| "NumSubexp (RRep a _ _) = NumSubexp a"
| "NumSubexp (RGroup a) = Suc (NumSubexp a)"
| "NumSubexp _ = 0"

text \<open>\<open>FindAllString(s, n)\<close>: successive matches, no empty match right after the previous one.\<close>

function find_all :: "rx \<Rightarrow> string \<Rightarrow> nat \<Rightarrow> nat option \<Rightarrow> nat \<Rightarrow> string list" where
  "find_all r s pos prev 0 = []"
| "find_all r s pos prev (Suc n) =
     (case find_from r s pos of
        None \<Rightarrow> []
      | Some (i, j, _) \<Rightarrow>
          if j \<le> pos then
            (if Some i = prev then find_all r s (Suc pos) (Some j) (Suc n)
             else slice s i j # find_all r s (Suc pos) (Some j) n)
          else slice s i j # find_all r s j (Some j) n)"
  by pat_completeness auto
termination
  by (relation "measures [\<lambda>(r, s, pos, prev, n). n, \<lambda>(r, s, pos, prev, n). Suc (length s) - pos]")
     (auto simp: find_from_def split: if_splits)

definition FindAllString :: "rx \<Rightarrow> string \<Rightarrow> nat \<Rightarrow> string list" where
  "FindAllString r s n = find_all r s 0 None n"

text \<open>\<open>ReplaceAllString\<close> with a replacement that holds no \<open>$\<close> template.\<close>

function replace_from :: "rx \<Rightarrow> string \<Rightarrow> string \<Rightarrow> nat \<Rightarrow> nat \<Rightarrow> string" where
  "replace_from r repl s search last_end =
     (case find_from r s search of
        None \<Rightarrow> drop last_end s
      | Some (i, j, _) \<Rightarrow>
          slice s last_end i @ (if last_end < j \<or> i = 0 then repl else [])
          @ replace_from r repl s (if j \<le> search then Suc search else j) j)"
  by pat_completeness auto
termination
  by (relation "measure (\<lambda>(r, repl, s, search, last_end). Suc (length s) - search)")
     (auto simp: find_from_def split: if_splits)

declare replace_from.simps [simp del]

definition ReplaceAllString :: "rx \<Rightarrow> string \<Rightarrow> string \<Rightarrow> string" where
  "ReplaceAllString r s repl = replace_from r repl s 0 0"

subsection \<open>Literals\<close>

definition rlit :: "string \<Rightarrow> rx" where
  "rlit w = foldr (\<lambda>c r. RSeq (RClass False [(c, c)]) r) w REps"

lemma rlit_simps [simp]:
  "rlit [] = REps" "rlit (c # w) = RSeq (RClass False [(c, c)]) (rlit w)"
  by (simp_all add: rlit_def)

lemma in_class_single [simp]: "in_class c [(d, d)] \<longleftrightarrow> c = d"
  using of_char_eq_iff [of c d, where 'a = nat] by (metis in_class.simps nle_le)

lemma matches_rlit:
  "matches (rlit w) s (i, cs) =
     (if i + length w \<le> length s \<and> take (length w) (drop i s) = w \<or> w = []
      then [(i + length w, cs)] else [])"
proof (induction w arbitrary: i)
  case Nil
  then show ?case by simp
next
  case (Cons c w)
  show ?case
  proof (cases "i < length s")
    case True
    then have "drop i s = s ! i # drop (Suc i) s"
      by (simp add: Cons_nth_drop_Suc)
    with True Cons show ?thesis by auto
  qed auto
qed

lemma match_from_rlit:
  "w \<noteq> [] \<Longrightarrow> match_from (rlit w) s i =
     (if has_prefix (drop i s) w then Some (i + length w, []) else None)"
  by (auto simp: match_from_def matches_rlit has_prefix_def)

lemma find_upto_None: "find_upto r s i n = None \<longleftrightarrow> (\<forall>k \<le> n. match_from r s (i + k) = None)"
proof (induction n arbitrary: i)
  case 0
  then show ?case by (simp split: option.splits)
next
  case (Suc n)
  have "(\<forall>k \<le> Suc n. match_from r s (i + k) = None) \<longleftrightarrow>
      match_from r s i = None \<and> (\<forall>k \<le> n. match_from r s (Suc i + k) = None)"
    by (auto simp: All_less_Suc2 simp flip: less_Suc_eq_le)
  with Suc show ?case by (simp split: option.splits)
qed

lemma find_upto_Some:
  "find_upto r s i n = Some (j, st) \<Longrightarrow>
     i \<le> j \<and> j \<le> i + n \<and> match_from r s j = Some st \<and> (\<forall>k. i \<le> k \<and> k < j \<longrightarrow> match_from r s k = None)"
proof (induction n arbitrary: i)
  case 0
  then show ?case by (auto split: option.splits)
next
  case (Suc n)
  show ?case
  proof (cases "match_from r s i")
    case None
    with Suc.prems Suc.IH [of "Suc i"] have
      "Suc i \<le> j \<and> j \<le> Suc i + n \<and> match_from r s j = Some st \<and>
       (\<forall>k. Suc i \<le> k \<and> k < j \<longrightarrow> match_from r s k = None)"
      by simp
    with None show ?thesis
      by (metis Suc_leD Suc_leI add_Suc_shift le_neq_implies_less)
  qed (use Suc.prems in auto)
qed

lemma find_from_None:
  "i \<le> length s \<Longrightarrow> find_from r s i = None \<longleftrightarrow> (\<forall>k. i \<le> k \<and> k \<le> length s \<longrightarrow> match_from r s k = None)"
  unfolding find_from_def
  by (auto simp: find_upto_None) (metis add_diff_cancel_left' diff_le_mono le_add_diff_inverse)

lemma find_from_Some:
  "find_from r s i = Some (j, st) \<Longrightarrow>
     i \<le> j \<and> j \<le> length s \<and> match_from r s j = Some st \<and>
     (\<forall>k. i \<le> k \<and> k < j \<longrightarrow> match_from r s k = None)"
  unfolding find_from_def by (auto dest!: find_upto_Some split: if_splits)

lemma MatchString_rlit: "w \<noteq> [] \<Longrightarrow> MatchString (rlit w) s \<longleftrightarrow> contains s w"
proof -
  assume w: "w \<noteq> []"
  have "MatchString (rlit w) s \<longleftrightarrow> (\<exists>k \<le> length s. has_prefix (drop k s) w)"
    unfolding MatchString_def using w by (auto simp: find_from_None match_from_rlit)
  also have "\<dots> \<longleftrightarrow> contains s w"
    unfolding contains_iff
    by (metis append_take_drop_id append_eq_conv_conj has_prefix_append has_prefixE length_take
        min.cobounded1 nat_le_linear drop_all take_all)
  finally show ?thesis .
qed

text \<open>A match never leaves the text, and never moves backwards.\<close>

definition forward :: "nat \<Rightarrow> rstate \<Rightarrow> rstate \<Rightarrow> bool" where
  "forward n st st' \<longleftrightarrow> fst st \<le> fst st' \<and> (fst st' = fst st \<or> fst st' \<le> n)"

lemma forward_refl: "forward n st st"
  by (simp add: forward_def)

lemma forward_trans: "forward n a b \<Longrightarrow> forward n b c \<Longrightarrow> forward n a c"
  by (auto simp: forward_def)

lemma exactly_forward:
  assumes "\<And>st st'. st' \<in> set (f st) \<Longrightarrow> forward n st st'"
  shows "st' \<in> set (exactly f k st) \<Longrightarrow> forward n st st'"
proof (induction k arbitrary: st)
  case 0
  then show ?case by (simp add: forward_refl)
next
  case (Suc k)
  then obtain m where "m \<in> set (f st)" "st' \<in> set (exactly f k m)"
    by auto
  with Suc.IH assms show ?case by (blast intro: forward_trans)
qed

lemma at_most_forward:
  assumes "\<And>st st'. st' \<in> set (f st) \<Longrightarrow> forward n st st'"
  shows "st' \<in> set (at_most f k st) \<Longrightarrow> forward n st st'"
proof (induction k arbitrary: st)
  case 0
  then show ?case by (simp add: forward_refl)
next
  case (Suc k)
  then have "st' = st \<or> (\<exists>m \<in> set (f st). st' \<in> set (at_most f k m))"
    by auto
  with Suc.IH assms show ?case
    by (blast intro: forward_refl forward_trans)
qed

lemma matches_forward: "st' \<in> set (matches r s st) \<Longrightarrow> forward (length s) st st'"
proof (induction r arbitrary: st st')
  case (RSeq a b)
  then obtain m where "m \<in> set (matches a s st)" "st' \<in> set (matches b s m)"
    by auto
  with RSeq.IH show ?case by (blast intro: forward_trans)
next
  case (RAlt a b)
  then have "st' \<in> set (matches a s st) \<or> st' \<in> set (matches b s st)"
    by simp
  with RAlt.IH show ?case by blast
next
  case (RRep a lo hi)
  from RRep.prems obtain m where m: "m \<in> set (exactly (matches a s) lo st)"
    and "st' \<in> set (at_most (matches a s)
           (case hi of None \<Rightarrow> length s - fst m | Some h \<Rightarrow> h - lo) m)"
    unfolding matches.simps set_concat set_map by blast
  then obtain k where k: "st' \<in> set (at_most (matches a s) k m)"
    by blast
  have "forward (length s) st m"
    by (rule exactly_forward [OF _ m]) (rule RRep.IH)
  moreover have "forward (length s) m st'"
    by (rule at_most_forward [OF _ k]) (rule RRep.IH)
  ultimately show ?case by (rule forward_trans)
next
  case (RGroup a)
  from RGroup.prems obtain m where m: "m \<in> set (matches a s st)" and eq: "fst st' = fst m"
    by auto
  from RGroup.IH [OF m] show ?case by (simp add: forward_def eq)
qed (simp_all add: forward_def split: if_splits)

lemma match_from_bounds:
  "match_from r s i = Some (j, cs) \<Longrightarrow> i \<le> length s \<Longrightarrow> i \<le> j \<and> j \<le> length s"
  unfolding match_from_def
  using matches_forward [of "(j, cs)" r s "(i, [])"]
  by (auto simp: forward_def split: list.splits)

lemma find_from_bounds: "find_from r s p = Some (i, j, cs) \<Longrightarrow> p \<le> i \<and> i \<le> j \<and> j \<le> length s"
  using find_from_Some [of r s p i "(j, cs)"] match_from_bounds [of r s i j cs] by auto

lemma ReplaceAllString_no_match: "\<not> MatchString r s \<Longrightarrow> ReplaceAllString r s repl = s"
  by (simp add: ReplaceAllString_def MatchString_def replace_from.simps [of r repl s 0 0]
      split: option.split)

end
