(* ===== verification/Json.thy ===== *)
theory Json
  imports Complex_Main Prelude
begin

text \<open>
  Parsed JSON documents (the \<open>any\<close> of \<open>encoding/json\<close>) and the path walkers of
  \<open>internal/engine/redact.go\<close>: \<open>redactPath\<close>, \<open>sumNumeric\<close> and \<open>FirstString\<close>.  An object is the
  list of its members in the order a \<open>range\<close> loop visits them.  A number is the decimal value it
  denotes; the rounding of \<open>float64\<close> is not modelled.
\<close>

datatype json =
    JNull
  | JBool bool
  | JNum rat
  | JStr string
  | JArr "json list"
  | JObj "(string \<times> json) list"

definition RedactedPlaceholder :: string where
  "RedactedPlaceholder = ''[REDACTED]''"

definition SplitJSONPath :: "string \<Rightarrow> string list" where
  "SplitJSONPath p = split_on (CHR ''.'') (trim_prefix p ''$.'')"

fun members :: "json \<Rightarrow> (string \<times> json) list" where
  "members (JObj kvs) = kvs"
| "members _ = []"

definition list_max :: "nat list \<Rightarrow> nat" where
  "list_max ns = foldr max ns 0"

lemma list_max_le: "list_max ns \<le> b \<longleftrightarrow> (\<forall>n \<in> set ns. n \<le> b)"
  unfolding list_max_def by (induction ns) auto

lemma list_max_ge: "n \<in> set ns \<Longrightarrow> n \<le> list_max ns"
  using list_max_le [of ns "list_max ns"] by simp

lemma list_max_map_ge: "x \<in> set xs \<Longrightarrow> f x \<le> list_max (map f xs)"
  by (simp add: list_max_ge)

fun jdepth :: "json \<Rightarrow> nat" where
  "jdepth (JArr xs) = Suc (list_max (map jdepth xs))"
| "jdepth (JObj kvs) = Suc (list_max (map (\<lambda>kv. jdepth (snd kv)) kvs))"
| "jdepth _ = 0"

lemma jdepth_elem: "x \<in> set xs \<Longrightarrow> jdepth x < jdepth (JArr xs)"
  by (simp add: less_Suc_eq_le list_max_ge)

lemma jdepth_member: "(k, c) \<in> set kvs \<Longrightarrow> jdepth c < jdepth (JObj kvs)"
  by (force simp: less_Suc_eq_le intro: list_max_ge)

lemma jdepth_lookup: "map_of kvs k = Some c \<Longrightarrow> jdepth c < jdepth (JObj kvs)"
  by (rule jdepth_member) (rule map_of_SomeD)

subsection \<open>Masking\<close>

function redactPath :: "json \<Rightarrow> string list \<Rightarrow> json" where
  "redactPath node [] = node"
| "redactPath (JObj kvs) (seg # rest) =
     (if seg = ''**'' then
        JObj (map (\<lambda>(key, child). (key, redactPath child (seg # rest)))
               (members (if rest \<noteq> [] then redactPath (JObj kvs) rest else JObj kvs)))
      else if seg = ''*'' then
        JObj (map (\<lambda>(key, child).
               (key, if rest = [] then JStr RedactedPlaceholder else redactPath child rest)) kvs)
      else
        JObj (map (\<lambda>(key, child).
               (key, if key = seg
                     then if rest = [] then JStr RedactedPlaceholder else redactPath child rest
                     else child)) kvs))"
| "redactPath (JArr xs) (seg # rest) = JArr (map (\<lambda>child. redactPath child (seg # rest)) xs)"
| "redactPath JNull (seg # rest) = JNull"
| "redactPath (JBool b) (seg # rest) = JBool b"
| "redactPath (JNum n) (seg # rest) = JNum n"
| "redactPath (JStr s) (seg # rest) = JStr s"
  by pat_completeness auto

lemma redactPath_depth:
  "redactPath_dom (node, path) \<Longrightarrow> jdepth (redactPath node path) \<le> jdepth node"
proof (induction node path rule: redactPath.pinduct)
  case (2 kvs seg rest)
  have kids: "jdepth c \<le> list_max (map (\<lambda>kv. jdepth (snd kv)) kvs)" if "(k, c) \<in> set kvs" for k c
    using that by (force intro: list_max_ge)
  let ?v = "if rest \<noteq> [] then redactPath (JObj kvs) rest else JObj kvs"
  have v: "jdepth c \<le> list_max (map (\<lambda>kv. jdepth (snd kv)) kvs)"
    if "seg = ''**''" "(k, c) \<in> set (members ?v)" for k c
  proof -
    have "jdepth ?v \<le> jdepth (JObj kvs)"
      using 2(2) that(1) by (cases "rest = []") auto
    moreover have "jdepth c < jdepth ?v"
      using that(2) by (cases ?v) (auto dest: jdepth_member)
    ultimately show ?thesis by simp
  qed
  show ?case
    using 2(1) v kids 2(3-5)
    by (auto simp: redactPath.psimps list_max_le split: if_splits) (fastforce intro: order_trans)+
next
  case (3 xs seg rest)
  then show ?case
    by (auto simp: redactPath.psimps list_max_le intro: order_trans [OF _ list_max_map_ge])
qed (auto simp: redactPath.psimps)

termination redactPath
proof (relation "measures [\<lambda>(node, path). jdepth node, \<lambda>(node, path). length path]", goal_cases)
  case (3 kvs seg rest kv key child)
  let ?v = "if rest \<noteq> [] then redactPath (JObj kvs) rest else JObj kvs"
  have "jdepth ?v \<le> jdepth (JObj kvs)"
    using 3 redactPath_depth [of "JObj kvs" rest] by (cases "rest = []") auto
  moreover have "jdepth child < jdepth ?v"
    using 3 by (cases ?v) (auto dest: jdepth_member)
  ultimately show ?case by simp
qed (auto dest: jdepth_member jdepth_elem)


declare redactPath.simps [simp del]

lemmas redactPath_scalar [simp] = redactPath.simps(1) redactPath.simps(4-7)

lemma redactPath_obj:
  "redactPath (JObj kvs) (seg # rest) =
     (if seg = ''**'' then
        JObj (map (\<lambda>(key, child). (key, redactPath child (seg # rest)))
               (members (redactPath (JObj kvs) rest)))
      else
        JObj (map (\<lambda>(key, child).
               (key, if seg = ''*'' \<or> key = seg
                     then if rest = [] then JStr RedactedPlaceholder else redactPath child rest
                     else child)) kvs))"
  by (auto simp: redactPath.simps(2) redactPath.simps(1))

lemma redactPath_arr: "redactPath (JArr xs) p = JArr (map (\<lambda>x. redactPath x p) xs)"
  by (cases p) (simp_all add: redactPath.simps)

lemma redactPath_str [simp]: "redactPath (JStr s) p = JStr s"
  by (cases p) simp_all

lemma redactPath_keeps_keys:
  "\<exists>kvs'. redactPath (JObj kvs) p = JObj kvs' \<and> keys kvs' = keys kvs"
proof (induction p)
  case (Cons seg rest)
  then obtain kvs' where "redactPath (JObj kvs) rest = JObj kvs'" "keys kvs' = keys kvs"
    by blast
  then show ?case
    by (auto simp: redactPath_obj split_def comp_def)
qed simp

subsection \<open>Where a document keeps a field\<close>

text \<open>
  The values a reader finds under a dotted field name; arrays are transparent, as everywhere in
  the product.
\<close>

fun values_at :: "json \<Rightarrow> string list \<Rightarrow> json list" where
  "values_at v [] = [v]"
| "values_at (JObj kvs) (k # ks) =
     concat (map (\<lambda>(key, child). if key = k then values_at child ks else []) kvs)"
| "values_at (JArr xs) (k # ks) = concat (map (\<lambda>x. values_at x (k # ks)) xs)"
| "values_at _ (k # ks) = []"

definition masked_at :: "json \<Rightarrow> string list \<Rightarrow> bool" where
  "masked_at v ks \<longleftrightarrow> (\<forall>x \<in> set (values_at v ks). x = JStr RedactedPlaceholder)"

lemma masked_at_obj:
  "masked_at (JObj kvs) (k # ks) \<longleftrightarrow> (\<forall>(key, child) \<in> set kvs. key = k \<longrightarrow> masked_at child ks)"
  unfolding masked_at_def by (auto split: if_splits)

lemma masked_at_arr:
  "masked_at (JArr xs) (k # ks) \<longleftrightarrow> (\<forall>x \<in> set xs. masked_at x (k # ks))"
  unfolding masked_at_def by auto

lemma masked_at_placeholder [simp]: "masked_at (JStr RedactedPlaceholder) ks"
  by (cases ks) (simp_all add: masked_at_def)

lemma masked_at_Nil: "masked_at v [] \<longleftrightarrow> v = JStr RedactedPlaceholder"
  by (simp add: masked_at_def)

text \<open>Masking more never uncovers what is masked.\<close>

lemma redactPath_keeps_masked: "masked_at node ks \<Longrightarrow> masked_at (redactPath node path) ks"
proof (induction node path arbitrary: ks rule: redactPath.induct)
  case (2 kvs seg rest)
  show ?case
  proof (cases ks)
    case (Cons k ks')
    have kids: "masked_at c ks'" if "(k, c) \<in> set kvs" for c
      using "2.prems" that by (auto simp: Cons masked_at_obj)
    show ?thesis
    proof (cases "seg = ''**''")
      case True
      define v where "v = redactPath (JObj kvs) rest"
      obtain kvs' where v: "v = JObj kvs'"
        unfolding v_def using redactPath_keeps_keys by blast
      have "masked_at v ks"
        using "2.IH"(1) [OF True] "2.prems" by (cases "rest = []") (auto simp: v_def)
      then have "masked_at c ks'" if "(k, c) \<in> set kvs'" for c
        using that by (auto simp: v Cons masked_at_obj)
      moreover have "members (if rest \<noteq> [] then redactPath (JObj kvs) rest else JObj kvs) = kvs'"
        using v by (cases "rest = []") (auto simp: v_def)
      ultimately have "masked_at (redactPath c (seg # rest)) ks'" if "(k, c) \<in> set kvs'" for c
        using that "2.IH"(2) [OF True, of "(k, c)"] by simp
      then show ?thesis
        using True v by (auto simp: redactPath_obj Cons masked_at_obj v_def [symmetric])
    next
      case False
      then show ?thesis
        using kids "2.IH"(3,4)
        by (cases "seg = ''*''") (auto simp: redactPath_obj Cons masked_at_obj)
    qed
  qed (use "2.prems" in \<open>simp add: masked_at_Nil\<close>)
next
  case (3 xs seg rest)
  then show ?case
    by (cases ks) (auto simp: redactPath_arr masked_at_arr masked_at_Nil)
qed simp_all


subsection \<open>Path patterns\<close>

text \<open>\<open>internal/suggest.pathCovers\<close>: does a redaction path cover a dotted field path?\<close>

fun pathCovers :: "string list \<Rightarrow> string list \<Rightarrow> bool" where
  "pathCovers [] segs = (segs = [])"
| "pathCovers (p # ps) segs =
     (if p = ''**'' then
        (if ps = [] then True
         else list_ex (\<lambda>i. pathCovers ps (drop i segs)) [0..<Suc (length segs)])
      else if p = ''*'' then (case segs of [] \<Rightarrow> False | _ # ss \<Rightarrow> pathCovers ps ss)
      else (case segs of [] \<Rightarrow> False | s # ss \<Rightarrow> p = s \<and> pathCovers ps ss))"

lemma pathCovers_star:
  "ps \<noteq> [] \<Longrightarrow> pathCovers (''**'' # ps) segs \<longleftrightarrow> (\<exists>i \<le> length segs. pathCovers ps (drop i segs))"
  by (simp add: list_ex_upto del: upt_Suc)

lemma pathCovers_star_Cons:
  "ps \<noteq> [] \<Longrightarrow>
   pathCovers (''**'' # ps) (s # ss) \<longleftrightarrow> pathCovers ps (s # ss) \<or> pathCovers (''**'' # ps) ss"
  by (simp only: pathCovers_star not_False_eq_True ex_drop_Cons)

lemma pathCovers_Cons:
  "p \<noteq> ''**'' \<Longrightarrow> pathCovers (p # ps) (s # ss) \<longleftrightarrow> (p = ''*'' \<or> p = s) \<and> pathCovers ps ss"
  by auto

lemma pathCovers_Nil_right:
  "pathCovers ps [] \<Longrightarrow> ps \<noteq> [] \<Longrightarrow> last ps = ''**''"
  by (induction ps) (auto split: if_splits simp: list_ex_iff)

declare pathCovers.simps(2) [simp del]

text \<open>
  A field that a redaction path covers reads as the placeholder wherever it occurs, provided the
  path does not end in \<open>**\<close>.
\<close>

lemma redactPath_masks:
  "pathCovers path ks \<Longrightarrow> path \<noteq> [] \<Longrightarrow> last path \<noteq> ''**'' \<Longrightarrow> masked_at (redactPath node path) ks"
proof (induction node path arbitrary: ks rule: redactPath.induct)
  case (2 kvs seg rest)
  from pathCovers_Nil_right "2.prems" obtain k ks' where ks: "ks = k # ks'"
    by (metis list.exhaust)
  show ?case
  proof (cases "seg = ''**''")
    case True
    then have rest: "rest \<noteq> []" "last rest \<noteq> ''**''"
      using "2.prems" by (auto split: if_splits)
    obtain kvs' where v: "redactPath (JObj kvs) rest = JObj kvs'"
      using redactPath_keeps_keys by blast
    then have mem: "members (if rest \<noteq> [] then redactPath (JObj kvs) rest else JObj kvs) = kvs'"
      using rest by simp
    have "masked_at (redactPath c (seg # rest)) ks'" if c: "(k, c) \<in> set kvs'" for c
    proof (cases "pathCovers rest (k # ks')")
      case here: True
      then have "masked_at (JObj kvs') (k # ks')"
        using "2.IH"(1) [OF True _ _ rest] v rest by simp
      then show ?thesis
        using c by (auto simp: masked_at_obj intro: redactPath_keeps_masked)
    next
      case False
      with "2.prems"(1) have "pathCovers (seg # rest) ks'"
        by (simp add: ks True pathCovers_star_Cons [OF rest(1)])
      with "2.IH"(2) [OF True, of "(k, c)"] mem c "2.prems"(2,3) show ?thesis
        by simp
    qed
    then show ?thesis
      using True v by (auto simp: redactPath_obj ks masked_at_obj)
  next
    case False
    then have k: "seg = ''*'' \<or> seg = k" and covers: "pathCovers rest ks'"
      using "2.prems"(1) by (auto simp: ks pathCovers_Cons)
    have "masked_at (redactPath c rest) ks'" if "rest \<noteq> []" "(k, c) \<in> set kvs" for c
      using "2.IH"(3,4) [OF False] that k covers "2.prems"(3) by (cases "seg = ''*''") auto
    then show ?thesis
      using False k by (cases "rest = []") (auto simp: redactPath_obj ks masked_at_obj)
  qed
next
  case (3 xs seg rest)
  then show ?case
    by (cases ks) (auto simp: redactPath_arr masked_at_arr dest: pathCovers_Nil_right)
next
  case (1 node)
  then show ?case by simp
qed (metis list.exhaust masked_at_def pathCovers_Nil_right redactPath_scalar values_at.simps(4-7)
      empty_iff list.set(1))+

text \<open>The gap: a path that ends in \<open>**\<close> covers everything and masks nothing.\<close>

lemma redactPath_trailing_star:
  "path \<noteq> [] \<Longrightarrow> last path = ''**'' \<Longrightarrow> redactPath node path = node"
proof (induction node path rule: redactPath.induct)
  case (2 kvs seg rest)
  have inner: "members (redactPath (JObj kvs) rest) = kvs" if "seg = ''**''"
    using "2.IH"(1) [OF that] "2.prems" by (cases "rest = []") auto
  have kids: "redactPath c (seg # rest) = c" if "seg = ''**''" "(k, c) \<in> set kvs" for k c
    using "2.IH"(2) [OF that(1), of "(k, c)"] inner [OF that(1)] that "2.prems"
    by (cases "rest = []") auto
  have "redactPath c rest = c" if "seg \<noteq> ''**''" "seg = ''*'' \<or> seg = k" "(k, c) \<in> set kvs" for k c
    using "2.IH"(3,4) [OF that(1)] that "2.prems" by (cases "seg = ''*''") (auto split: if_splits)
  with kids inner "2.prems" show ?case
    by (cases "seg = ''**''"; cases "seg = ''*''")
       (auto simp: redactPath_obj intro!: map_idI split: if_splits)
next
  case (3 xs seg rest)
  then show ?case by (auto simp: redactPath_arr intro!: map_idI)
qed simp_all


text \<open>Masking is confined to what the path names: a field none of whose ancestors is covered keeps
  its scalar values.\<close>

fun is_scalar :: "json \<Rightarrow> bool" where
  "is_scalar (JArr xs) = False"
| "is_scalar (JObj kvs) = False"
| "is_scalar _ = True"

definition scalars_at :: "json \<Rightarrow> string list \<Rightarrow> json list" where
  "scalars_at v ks = filter is_scalar (values_at v ks)"

lemma scalars_at_obj:
  "scalars_at (JObj kvs) (k # ks) =
     concat (map (\<lambda>(key, child). if key = k then scalars_at child ks else []) kvs)"
  by (auto simp: scalars_at_def filter_concat comp_def intro!: arg_cong [where f = concat])

lemma scalars_at_arr:
  "scalars_at (JArr xs) (k # ks) = concat (map (\<lambda>x. scalars_at x (k # ks)) xs)"
  by (auto simp: scalars_at_def filter_concat comp_def)

definition untouched :: "string list \<Rightarrow> string list \<Rightarrow> bool" where
  "untouched path ks \<longleftrightarrow> (\<forall>i. 0 < i \<and> i \<le> length ks \<longrightarrow> \<not> pathCovers path (take i ks))"

lemma untouched_tail:
  "untouched (p # ps) (k # ks) \<Longrightarrow> p = ''*'' \<or> p = k \<Longrightarrow> p \<noteq> ''**'' \<Longrightarrow> untouched ps ks \<and> ps \<noteq> []"
  unfolding untouched_def
proof (intro conjI allI impI)
  assume u: "\<forall>i. 0 < i \<and> i \<le> length (k # ks) \<longrightarrow> \<not> pathCovers (p # ps) (take i (k # ks))"
    and p: "p = ''*'' \<or> p = k" "p \<noteq> ''**''"
  show "\<not> pathCovers ps (take i ks)" if "0 < i \<and> i \<le> length ks" for i
    using u [rule_format, of "Suc i"] that p by (auto simp: pathCovers_Cons)
  show "ps \<noteq> []"
    using u [rule_format, of 1] p by (auto simp: pathCovers_Cons)
qed

lemma untouched_star:
  assumes "untouched (''**'' # ps) (k # ks)"
  shows "ps \<noteq> []" and "untouched ps (k # ks)" and "untouched (''**'' # ps) ks"
proof -
  show ps: "ps \<noteq> []"
    using assms by (auto simp: untouched_def pathCovers.simps(2) dest: spec [of _ 1])
  show "untouched ps (k # ks)"
    unfolding untouched_def
  proof (intro allI impI)
    fix i assume i: "0 < i \<and> i \<le> length (k # ks)"
    with assms have "\<not> pathCovers (''**'' # ps) (take i (k # ks))"
      by (simp only: untouched_def) blast
    with i show "\<not> pathCovers ps (take i (k # ks))"
      by (cases i) (simp_all add: pathCovers_star_Cons [OF ps])
  qed
  show "untouched (''**'' # ps) ks"
    unfolding untouched_def
  proof (intro allI impI)
    fix i assume "0 < i \<and> i \<le> length ks"
    with assms have "\<not> pathCovers (''**'' # ps) (take (Suc i) (k # ks))"
      by (simp only: untouched_def) (metis Suc_le_mono length_Cons zero_less_Suc)
    then show "\<not> pathCovers (''**'' # ps) (take i ks)"
      by (simp add: pathCovers_star_Cons [OF ps])
  qed
qed

lemma is_scalar_redactPath: "is_scalar (redactPath v p) = is_scalar v"
proof (cases v)
  case (JObj kvs)
  then show ?thesis using redactPath_keeps_keys [of kvs p] by auto
qed (cases p; simp add: redactPath_arr)+

lemma redactPath_scalar_id: "is_scalar v \<Longrightarrow> redactPath v p = v"
  by (cases v; cases p) simp_all

lemma redactPath_frame:
  "untouched path ks \<Longrightarrow> scalars_at (redactPath node path) ks = scalars_at node ks"
proof (induction node path arbitrary: ks rule: redactPath.induct)
  case (2 kvs seg rest)
  show ?case
  proof (cases ks)
    case Nil
    then show ?thesis
      using is_scalar_redactPath [of "JObj kvs" "seg # rest"] by (simp add: scalars_at_def)
  next
    case (Cons k ks')
    show ?thesis
    proof (cases "seg = ''**''")
      case True
      note u = untouched_star [of rest k ks', folded True Cons, OF "2.prems"]
      obtain kvs' where v: "redactPath (JObj kvs) rest = JObj kvs'"
        using redactPath_keeps_keys by blast
      have "scalars_at (redactPath c (seg # rest)) ks' = scalars_at c ks'" if "(key, c) \<in> set kvs'" for key c
        using "2.IH"(2) [OF True, of "(key, c)"] that u(1,3) v by simp
      then have "scalars_at (redactPath (JObj kvs) (seg # rest)) ks = scalars_at (JObj kvs') ks"
        using True v by (auto simp: redactPath_obj Cons scalars_at_obj comp_def
            intro!: arg_cong [where f = concat] map_cong)
      also have "\<dots> = scalars_at (JObj kvs) ks"
        using "2.IH"(1) [OF True u(1)] u(2) v by simp
      finally show ?thesis .
    next
      case False
      note u = untouched_tail [of seg rest k ks']
      have "scalars_at (redactPath c rest) ks' = scalars_at c ks'"
        if "(k, c) \<in> set kvs" "seg = ''*'' \<or> seg = k" for c
        using "2.IH"(3,4) [OF False] u "2.prems" that False by (cases "seg = ''*''"; auto simp: Cons)
      moreover have "seg \<noteq> ''*'' \<and> seg \<noteq> k" if "rest = []"
        using u "2.prems" that False by (auto simp: Cons)
      ultimately show ?thesis using False
        by (cases "seg = ''*''") (auto simp: redactPath_obj Cons scalars_at_obj comp_def
            intro!: arg_cong [where f = concat] map_cong)
    qed
  qed
next
  case (3 xs seg rest)
  then show ?case
    by (cases ks) (auto simp: redactPath_arr scalars_at_arr scalars_at_def [of _ "[]"] comp_def
        intro!: arg_cong [where f = concat] map_cong)
qed (simp_all add: redactPath_scalar_id)

end
