(* ===== verification/JsonRead.thy ===== *)
theory JsonRead
  imports Json
begin

text \<open>
  Reading a parsed body by path, as labels, body criteria and meters do: \<open>FirstString\<close> and
  \<open>sumNumeric\<close> of \<open>internal/engine/redact.go\<close>, with the relation \<open>addressed\<close> that says which
  values a path names.
\<close>

subsection \<open>Rendering a scalar\<close>

fun frac_digits :: "nat \<Rightarrow> rat \<Rightarrow> string" where
  "frac_digits 0 q = []"
| "frac_digits (Suc n) q =
     (if q = 0 then []
      else let d = \<lfloor>10 * q\<rfloor> in digit_char (nat d) # frac_digits n (10 * q - of_int d))"

text \<open>\<open>strconv.FormatFloat(v, 'f', -1, 64)\<close> on a decimal value; 17 digits identify a float64.\<close>

definition format_float :: "rat \<Rightarrow> string" where
  "format_float q =
     (let a = \<bar>q\<bar>; w = \<lfloor>a\<rfloor>; f = a - of_int w
      in (if q < 0 then ''-'' else []) @ nat_digits (nat w) @
         (if f = 0 then [] else CHR ''.'' # frac_digits 17 f))"

definition float_string :: "rat \<Rightarrow> string" where
  "float_string v =
     (if of_int \<lfloor>v\<rfloor> = v \<and> \<bar>v\<bar> < 10 ^ 15 then itoa \<lfloor>v\<rfloor> else format_float v)"

fun scalar_string :: "json \<Rightarrow> string option" where
  "scalar_string (JStr s) = Some s"
| "scalar_string (JNum v) = Some (float_string v)"
| "scalar_string (JBool b) = Some (if b then ''true'' else ''false'')"
| "scalar_string _ = None"

subsection \<open>The first string at a path\<close>

function FirstString :: "json \<Rightarrow> string list \<Rightarrow> string option" where
  "FirstString node [] = scalar_string node"
| "FirstString (JObj kvs) (seg # rest) =
     (if seg = ''**'' then
        (case (if rest \<noteq> [] then FirstString (JObj kvs) rest else None) of
           Some s \<Rightarrow> Some s
         | None \<Rightarrow> first_some (\<lambda>(_, child). FirstString child (seg # rest)) kvs)
      else if seg = ''*'' then first_some (\<lambda>(_, child). FirstString child rest) kvs
      else (case map_of kvs seg of
              None \<Rightarrow> None
            | Some child \<Rightarrow> FirstString child rest))"
| "FirstString (JArr xs) (seg # rest) = first_some (\<lambda>child. FirstString child (seg # rest)) xs"
| "FirstString JNull (seg # rest) = None"
| "FirstString (JBool b) (seg # rest) = None"
| "FirstString (JNum n) (seg # rest) = None"
| "FirstString (JStr s) (seg # rest) = None"
  by pat_completeness auto
termination
  by (relation "measures [\<lambda>(node, path). jdepth node, \<lambda>(node, path). length path]")
     (auto dest: jdepth_member jdepth_elem jdepth_lookup)

definition ValueAtJSONPath :: "(string \<Rightarrow> json option) \<Rightarrow> string \<Rightarrow> string list \<Rightarrow> string option" where
  "ValueAtJSONPath unmarshal body path =
     (if body = [] then None
      else case unmarshal body of None \<Rightarrow> None | Some doc \<Rightarrow> FirstString doc path)"

subsection \<open>The numbers at a path\<close>

function sumNumeric :: "json \<Rightarrow> string list \<Rightarrow> rat \<times> bool \<Rightarrow> rat \<times> bool" where
  "sumNumeric node [] acc = (case node of JNum n \<Rightarrow> (fst acc + n, True) | _ \<Rightarrow> acc)"
| "sumNumeric (JObj kvs) (seg # rest) acc =
     (if seg = ''**'' then
        fold (\<lambda>(_, child). sumNumeric child (seg # rest)) kvs
          (if rest \<noteq> [] then sumNumeric (JObj kvs) rest acc else acc)
      else if seg = ''*'' then fold (\<lambda>(_, child). sumNumeric child rest) kvs acc
      else (case map_of kvs seg of
              None \<Rightarrow> acc
            | Some child \<Rightarrow> sumNumeric child rest acc))"
| "sumNumeric (JArr xs) (seg # rest) acc = fold (\<lambda>child. sumNumeric child (seg # rest)) xs acc"
| "sumNumeric JNull (seg # rest) acc = acc"
| "sumNumeric (JBool b) (seg # rest) acc = acc"
| "sumNumeric (JNum n) (seg # rest) acc = acc"
| "sumNumeric (JStr s) (seg # rest) acc = acc"
  by pat_completeness auto
termination
  by (relation "measures [\<lambda>(node, path, acc). jdepth node, \<lambda>(node, path, acc). length path]")
     (auto dest: jdepth_member jdepth_elem jdepth_lookup)

declare FirstString.simps(2) [simp del] sumNumeric.simps(2) [simp del]

subsection \<open>What a path names\<close>

inductive addressed :: "string list \<Rightarrow> json \<Rightarrow> json \<Rightarrow> bool" where
  here: "addressed [] v v"
| field: "p \<noteq> ''*'' \<Longrightarrow> p \<noteq> ''**'' \<Longrightarrow> map_of kvs p = Some c \<Longrightarrow> addressed ps c v \<Longrightarrow>
     addressed (p # ps) (JObj kvs) v"
| any_field: "(k, c) \<in> set kvs \<Longrightarrow> addressed ps c v \<Longrightarrow> addressed (''*'' # ps) (JObj kvs) v"
| this_level: "ps \<noteq> [] \<Longrightarrow> addressed ps (JObj kvs) v \<Longrightarrow> addressed (''**'' # ps) (JObj kvs) v"
| deeper: "(k, c) \<in> set kvs \<Longrightarrow> addressed (''**'' # ps) c v \<Longrightarrow> addressed (''**'' # ps) (JObj kvs) v"
| elem: "x \<in> set xs \<Longrightarrow> addressed (p # ps) x v \<Longrightarrow> addressed (p # ps) (JArr xs) v"

inductive_cases addressed_ConsE: "addressed (p # ps) node v"
inductive_simps addressed_Nil [simp]: "addressed [] node v"
inductive_simps addressed_scalar [simp]:
  "addressed (p # ps) JNull v" "addressed (p # ps) (JBool b) v"
  "addressed (p # ps) (JNum n) v" "addressed (p # ps) (JStr s) v"
inductive_simps addressed_arr: "addressed (p # ps) (JArr xs) v"
inductive_simps addressed_obj: "addressed (p # ps) (JObj kvs) v"

lemma FirstString_addressed:
  "FirstString node path = Some s \<Longrightarrow> \<exists>v. addressed path node v \<and> scalar_string v = Some s"
proof (induction node path arbitrary: s rule: FirstString.induct)
  case (2 kvs seg rest)
  show ?case
  proof (cases "seg = ''**''")
    case True
    from "2.prems" consider "rest \<noteq> []" "FirstString (JObj kvs) rest = Some s"
      | "(if rest \<noteq> [] then FirstString (JObj kvs) rest else None) = None"
        "first_some (\<lambda>(_, child). FirstString child (seg # rest)) kvs = Some s"
      using True by (auto simp: FirstString.simps(2) split: option.splits if_splits)
    then show ?thesis
    proof cases
      case 1
      with "2.IH"(1) True show ?thesis by (blast intro: this_level)
    next
      case 2
      then obtain k c where c: "(k, c) \<in> set kvs" "FirstString c (seg # rest) = Some s"
        by (auto dest: first_some_Some)
      with "2.IH"(2) [OF True 2(1) c(1) refl c(2)] True show ?thesis
        by (blast intro: deeper)
    qed
  next
    case False
    show ?thesis
    proof (cases "seg = ''*''")
      case True
      with "2.prems" obtain k c where c: "(k, c) \<in> set kvs" "FirstString c rest = Some s"
        by (auto simp: FirstString.simps(2) dest: first_some_Some)
      from "2.IH"(3) [OF False True c(1) refl c(2)] True c(1) show ?thesis
        by (blast intro: any_field)
    next
      case no: False
      with False "2.prems" obtain c where c: "map_of kvs seg = Some c" "FirstString c rest = Some s"
        by (auto simp: FirstString.simps(2) split: option.splits)
      from "2.IH"(4) [OF False no c] False no c(1) show ?thesis by (blast intro: field)
    qed
  qed
next
  case (3 xs seg rest)
  then obtain x where "x \<in> set xs" "FirstString x (seg # rest) = Some s"
    by (auto dest: first_some_Some)
  with 3 show ?case by (blast intro: elem)
qed auto

lemma first_some_member:
  "(k, c) \<in> set kvs \<Longrightarrow> f c \<noteq> None \<Longrightarrow> first_some (\<lambda>(_, child). f child) kvs \<noteq> None"
  by (simp only: first_some_None) fastforce

lemma addressed_FirstString:
  "addressed path node v \<Longrightarrow> scalar_string v \<noteq> None \<Longrightarrow> FirstString node path \<noteq> None"
proof (induction rule: addressed.induct)
  case (deeper k c kvs ps v)
  then have "first_some (\<lambda>(_, c). FirstString c (''**'' # ps)) kvs \<noteq> None"
    by (intro first_some_member)
  then show ?case
    by (cases "ps = []")
       (simp_all del: first_some_None not_None_eq add: FirstString.simps(2) split: option.split)
next
  case (any_field k c kvs ps v)
  then have "first_some (\<lambda>(_, c). FirstString c ps) kvs \<noteq> None"
    by (intro first_some_member)
  then show ?case by (simp del: first_some_None not_None_eq add: FirstString.simps(2))
qed (auto simp: FirstString.simps(2) split: option.splits)

text \<open>
  \<open>FirstString\<close> finds a value exactly when the path names a scalar somewhere in the document,
  and what it returns is the rendering of a scalar the path names, whatever order the members of
  an object are visited in.
\<close>

theorem FirstString_correct:
  "(case FirstString node path of
      Some s \<Rightarrow> \<exists>v. addressed path node v \<and> scalar_string v = Some s
    | None \<Rightarrow> \<not> (\<exists>v. addressed path node v \<and> scalar_string v \<noteq> None))"
  using FirstString_addressed [of node path] addressed_FirstString [of path node]
  by (cases "FirstString node path") (simp_all only: option.case, blast+)

lemma addressed_values_at:
  "addressed path node v \<Longrightarrow>
   \<exists>ks. pathCovers path ks \<and> (path \<noteq> [] \<longrightarrow> ks \<noteq> []) \<and> v \<in> set (values_at node ks)"
proof (induction rule: addressed.induct)
  case (here v)
  then show ?case by (intro exI [of _ "[]"]) simp
next
  case (field p kvs c ps v)
  then obtain ks where "pathCovers ps ks" "v \<in> set (values_at c ks)" by blast
  with field show ?case
    by (intro exI [of _ "p # ks"]) (force simp: pathCovers_Cons dest: map_of_SomeD)
next
  case (any_field k c kvs ps v)
  then obtain ks where "pathCovers ps ks" "v \<in> set (values_at c ks)" by blast
  with any_field show ?case
    by (intro exI [of _ "k # ks"]) (force simp: pathCovers_Cons)
next
  case (this_level ps kvs v)
  then obtain k ks where "pathCovers ps (k # ks)" "v \<in> set (values_at (JObj kvs) (k # ks))"
    by (metis list.exhaust)
  with this_level show ?case
    by (intro exI [of _ "k # ks"]) (simp add: pathCovers_star_Cons)
next
  case (deeper k c kvs ps v)
  then obtain ks where ks: "pathCovers (''**'' # ps) ks" "v \<in> set (values_at c ks)" by blast
  have "ps \<noteq> []"
  proof
    assume "ps = []"
    have "addressed q n w \<Longrightarrow> q = [''**''] \<Longrightarrow> False" for q n w
      by (induction rule: addressed.induct) auto
    with deeper(2) \<open>ps = []\<close> show False by blast
  qed
  with deeper ks show ?case
    by (intro exI [of _ "k # ks"]) (force simp: pathCovers_star_Cons)
next
  case (elem x xs p ps v)
  then obtain k ks where "pathCovers (p # ps) (k # ks)" "v \<in> set (values_at x (k # ks))"
    by (metis list.discI list.exhaust)
  with elem show ?case
    by (intro exI [of _ "k # ks"]) auto
qed

lemma addressed_after_redaction:
  assumes "path \<noteq> []" and "last path \<noteq> ''**''" and "addressed path (redactPath node path) v"
  shows "v = JStr RedactedPlaceholder"
proof -
  from addressed_values_at [OF assms(3)] obtain ks where
    "pathCovers path ks" "v \<in> set (values_at (redactPath node path) ks)" by blast
  with redactPath_masks [OF _ assms(1,2)] show ?thesis
    by (auto simp: masked_at_def)
qed

subsection \<open>Sums\<close>

lemma fold_found:
  "(\<And>x a. x \<in> set xs \<Longrightarrow> snd (f x a) \<longleftrightarrow> snd a \<or> P x) \<Longrightarrow>
   snd (fold f xs a) \<longleftrightarrow> snd a \<or> (\<exists>x \<in> set xs. P x)"
  by (induction xs arbitrary: a) auto

lemma sumNumeric_found:
  "snd (sumNumeric node path acc) \<longleftrightarrow> snd acc \<or> (\<exists>n. addressed path node (JNum n))"
proof (induction node path acc rule: sumNumeric.induct)
  case (1 node acc)
  then show ?case by (cases node) auto
next
  case (2 kvs seg rest acc)
  have fold: "snd (fold (\<lambda>(_, c). sumNumeric c p) kvs a) \<longleftrightarrow>
      snd a \<or> (\<exists>k c n. (k, c) \<in> set kvs \<and> addressed p c (JNum n))"
    if "\<And>k c b. (k, c) \<in> set kvs \<Longrightarrow> snd (sumNumeric c p b) \<longleftrightarrow> snd b \<or> (\<exists>n. addressed p c (JNum n))"
    for p a
    using fold_found [of kvs "\<lambda>(_, c). sumNumeric c p" "\<lambda>(_, c). \<exists>n. addressed p c (JNum n)" a] that
    by fastforce
  show ?case
  proof (cases "seg = ''**''")
    case True
    have "snd (sumNumeric (JObj kvs) (seg # rest) acc) \<longleftrightarrow>
        snd (if rest \<noteq> [] then sumNumeric (JObj kvs) rest acc else acc)
        \<or> (\<exists>k c n. (k, c) \<in> set kvs \<and> addressed (seg # rest) c (JNum n))"
      using True fold [of "seg # rest"] "2.IH"(2) [OF True] by (simp add: sumNumeric.simps(2))
    then show ?thesis
      using True "2.IH"(1) [OF True] by (auto simp: addressed_obj)
  next
    case False
    then show ?thesis
    proof (cases "seg = ''*''")
      case True
      then show ?thesis
        using "2.IH"(3) [OF False True] by (auto simp: sumNumeric.simps(2) fold addressed_obj)
    next
      case no: False
      then show ?thesis
        using False "2.IH"(4) [OF False no]
        by (auto simp: sumNumeric.simps(2) addressed_obj split: option.splits)
    qed
  qed
next
  case (3 xs seg rest acc)
  have "snd (fold (\<lambda>c. sumNumeric c (seg # rest)) xs acc) \<longleftrightarrow>
      snd acc \<or> (\<exists>c \<in> set xs. \<exists>n. addressed (seg # rest) c (JNum n))"
    by (rule fold_found) (use 3 in auto)
  then show ?case by (auto simp: addressed_arr)
qed auto

end
