(* ===== verification/Url.thy ===== *)
theory Url
  imports Prelude
begin

text \<open>
  What the code uses of \<open>net/url\<close> and of header maps: query parsing and escaping, canonical
  header names, and the accessors \<open>Get\<close> and \<open>Set\<close>.  A \<open>url.Values\<close> and an \<open>http.Header\<close> are maps
  to lists of strings.
\<close>

type_synonym url_values = "string list gomap"

definition values_Get :: "url_values \<Rightarrow> string \<Rightarrow> string" where
  "values_Get m k = (case lookup m k of Some (v # _) \<Rightarrow> v | _ \<Rightarrow> [])"

definition add_value :: "string \<Rightarrow> string \<Rightarrow> url_values \<Rightarrow> url_values" where
  "add_value k v m = store k ((case lookup m k of None \<Rightarrow> [] | Some vs \<Rightarrow> vs) @ [v]) m"

subsection \<open>Escaping\<close>

definition hex_upper :: "nat \<Rightarrow> char" where
  "hex_upper d = (if d < 10 then char_of (48 + d) else char_of (55 + d))"

definition unhex :: "char \<Rightarrow> nat option" where
  "unhex c = (if is_digit c then Some (byte c - 48)
     else if 97 \<le> byte c \<and> byte c \<le> 102 then Some (byte c - 87)
     else if 65 \<le> byte c \<and> byte c \<le> 70 then Some (byte c - 55)
     else None)"

definition unreserved :: "char \<Rightarrow> bool" where
  "unreserved c \<longleftrightarrow> is_alpha c \<or> is_digit c \<or> c \<in> {CHR ''-'', CHR ''_'', CHR ''.'', CHR ''~''}"

definition escape_char :: "char \<Rightarrow> string" where
  "escape_char c = (if unreserved c then [c]
     else if c = CHR '' '' then ''+''
     else [CHR ''%'', hex_upper (byte c div 16), hex_upper (byte c mod 16)])"

definition QueryEscape :: "string \<Rightarrow> string" where
  "QueryEscape s = concat (map escape_char s)"

fun QueryUnescape :: "string \<Rightarrow> string option" where
  "QueryUnescape [] = Some []"
| "QueryUnescape (c # s) =
     (if c = CHR ''%'' then
        (case s of
           a # b # t \<Rightarrow> (case (unhex a, unhex b) of
               (Some h, Some l) \<Rightarrow> map_option ((#) (char_of (16 * h + l))) (QueryUnescape t)
             | _ \<Rightarrow> None)
         | _ \<Rightarrow> None)
      else if c = CHR ''+'' then map_option ((#) (CHR '' '')) (QueryUnescape s)
      else map_option ((#) c) (QueryUnescape s))"

lemma unhex_hex_upper [simp]: "d < 16 \<Longrightarrow> unhex (hex_upper d) = Some d"
  by (auto simp: unhex_def hex_upper_def is_digit_def)

lemma byte_div_16 [simp]: "byte c div 16 < 16"
proof -
  have "byte c < 256" by simp
  then show ?thesis by linarith
qed

lemma unreserved_plain: "unreserved c \<Longrightarrow> c \<notin> {CHR ''%'', CHR ''+'', CHR ''&'', CHR ''='', CHR '';''}"
  by (auto simp: unreserved_def is_alpha_def is_lower_def is_upper_def is_digit_def)

lemma QueryUnescape_escape_char:
  "QueryUnescape (escape_char c @ s) = map_option ((#) c) (QueryUnescape s)"
  using unreserved_plain [of c]
  by (auto simp: escape_char_def mult.commute)

lemma QueryUnescape_Escape [go_string, simp]: "QueryUnescape (QueryEscape s) = Some s"
  by (induction s) (simp_all add: QueryEscape_def QueryUnescape_escape_char)

lemma hex_upper_alnum: "d < 16 \<Longrightarrow> is_digit (hex_upper d) \<or> is_upper (hex_upper d)"
  by (auto simp: hex_upper_def is_digit_def is_upper_def)

lemma hex_upper_plain:
  "d < 16 \<Longrightarrow> hex_upper d \<notin> {CHR ''&'', CHR ''='', CHR '';'', CHR ''%'', CHR ''+''}"
  using hex_upper_alnum [of d] by (auto simp: is_digit_def is_upper_def)

lemma escape_char_plain: "x \<in> set (escape_char c) \<Longrightarrow> x \<notin> {CHR ''&'', CHR ''='', CHR '';''}"
  using unreserved_plain [of c] hex_upper_plain [of "byte c div 16"] hex_upper_plain [of "byte c mod 16"]
  by (auto simp: escape_char_def split: if_splits)

lemma QueryEscape_plain:
  "CHR ''&'' \<notin> set (QueryEscape s)" "CHR ''='' \<notin> set (QueryEscape s)" "CHR '';'' \<notin> set (QueryEscape s)"
  using escape_char_plain unfolding QueryEscape_def by fastforce+

subsection \<open>Parsing a query\<close>

text \<open>The values read so far and whether some pair was malformed.\<close>

definition parse_pair :: "string \<Rightarrow> url_values \<times> bool \<Rightarrow> url_values \<times> bool" where
  "parse_pair pair acc = (case acc of (m, err) \<Rightarrow>
     if CHR '';'' \<in> set pair then (m, True)
     else if pair = [] then (m, err)
     else let (k, v, _) = cut_on (CHR ''='') pair
       in case QueryUnescape k of
            None \<Rightarrow> (m, True)
          | Some k' \<Rightarrow> (case QueryUnescape v of
                None \<Rightarrow> (m, True)
              | Some v' \<Rightarrow> (add_value k' v' m, err)))"

definition ParseQuery :: "string \<Rightarrow> url_values \<times> bool" where
  "ParseQuery query = fold parse_pair (split_on (CHR ''&'') query) ([], False)"

lemma parse_pair_escaped:
  assumes "CHR '';'' \<notin> set v" and "QueryUnescape v = Some v'"
  shows "parse_pair (QueryEscape k @ CHR ''='' # v) (m, err) = (add_value k v' m, err)"
  using assms cut_on_append [OF QueryEscape_plain(2), of k v] QueryEscape_plain(3) [of k]
  by (simp add: parse_pair_def)

text \<open>Writing pairs one after another and parsing the result reads them back.\<close>

definition write_pairs :: "(string \<times> string) list \<Rightarrow> string" where
  "write_pairs ps = fold (\<lambda>(k, v) b. b @ (if b \<noteq> [] then ''&'' else []) @ k @ ''='' @ v) ps []"

lemma fold_write:
  "fold (\<lambda>(k, v) b. b @ (if b \<noteq> [] then ''&'' else []) @ k @ ''='' @ v) ps b =
     (if ps = [] then b
      else b @ (if b \<noteq> [] then ''&'' else []) @ join ''&'' (map (\<lambda>(k, v). k @ ''='' @ v) ps))"
proof (induction ps arbitrary: b)
  case (Cons p ps)
  obtain k v where "p = (k, v)" by fastforce
  with Cons show ?case by (auto simp: join_Cons)
qed simp

lemma write_pairs_join: "write_pairs ps = join ''&'' (map (\<lambda>(k, v). k @ ''='' @ v) ps)"
  using fold_write [of ps "[]"] by (simp add: write_pairs_def)

lemma ParseQuery_write_pairs:
  assumes "\<forall>(k, v) \<in> set ps. CHR ''&'' \<notin> set v \<and> CHR '';'' \<notin> set v \<and> QueryUnescape v \<noteq> None"
  shows "ParseQuery (write_pairs (map (\<lambda>(k, v). (QueryEscape k, v)) ps)) =
     (fold (\<lambda>(k, v). add_value k (the (QueryUnescape v))) ps [], False)"
proof (cases "ps = []")
  case True
  then show ?thesis by (simp add: write_pairs_def ParseQuery_def parse_pair_def)
next
  case False
  let ?piece = "\<lambda>(k, v). QueryEscape k @ CHR ''='' # v"
  have "split_on (CHR ''&'') (join ''&'' (map ?piece ps)) = map ?piece ps"
    using False assms QueryEscape_plain(1) by (intro split_on_join) fastforce+
  moreover have "fold parse_pair (map ?piece ps) (m, False) =
      (fold (\<lambda>(k, v). add_value k (the (QueryUnescape v))) ps m, False)" for m
    using assms by (induction ps arbitrary: m) (auto simp: parse_pair_escaped)
  ultimately show ?thesis
    by (simp add: ParseQuery_def write_pairs_join comp_def split_def)
qed

subsection \<open>Header names\<close>

definition is_token_char :: "char \<Rightarrow> bool" where
  "is_token_char c \<longleftrightarrow> is_alpha c \<or> is_digit c \<or> c \<in> set ''!#$%&*+-.^_|~'' \<or> byte c = 39 \<or> byte c = 96"

fun canonical_chars :: "bool \<Rightarrow> string \<Rightarrow> string" where
  "canonical_chars up [] = []"
| "canonical_chars up (c # s) =
     (let c' = (if up then upper_char c else lower_char c) in c' # canonical_chars (c' = CHR ''-'') s)"

definition CanonicalHeaderKey :: "string \<Rightarrow> string" where
  "CanonicalHeaderKey s = (if list_all is_token_char s then canonical_chars True s else s)"

type_synonym header = url_values

definition header_Get :: "header \<Rightarrow> string \<Rightarrow> string" where
  "header_Get h name = values_Get h (CanonicalHeaderKey name)"

definition header_Set :: "string \<Rightarrow> string \<Rightarrow> header \<Rightarrow> header" where
  "header_Set name v h = store (CanonicalHeaderKey name) [v] h"

lemma upper_lower [simp]: "upper_char (lower_char c) = upper_char c"
proof -
  have "byte (upper_char (lower_char c)) = byte (upper_char c)"
    by (auto simp: byte_upper_char byte_lower_char is_lower_def is_upper_def split: if_splits)
  then show ?thesis by simp
qed

lemma lower_upper [simp]: "lower_char (upper_char c) = lower_char c"
proof -
  have "byte (lower_char (upper_char c)) = byte (lower_char c)"
    by (auto simp: byte_upper_char byte_lower_char is_lower_def is_upper_def split: if_splits)
  then show ?thesis by simp
qed

lemma to_upper_lower: "to_upper (to_lower s) = to_upper s"
  by (simp add: to_upper_def to_lower_def)

lemma to_lower_upper: "to_lower (to_upper s) = to_lower s"
  by (simp add: to_upper_def to_lower_def)

lemma canonical_chars_to_lower: "canonical_chars up (to_lower s) = canonical_chars up s"
  by (induction up s rule: canonical_chars.induct) (auto simp: to_lower_def Let_def)

lemma canonical_chars_idem: "canonical_chars up (canonical_chars up s) = canonical_chars up s"
  by (induction up s rule: canonical_chars.induct) (auto simp: Let_def)

lemma is_token_upper [simp]: "is_token_char (upper_char c) \<longleftrightarrow> is_token_char c"
  by (auto simp: upper_char_def is_token_char_def is_alpha_def is_lower_def is_upper_def)

lemma is_token_lower [simp]: "is_token_char (lower_char c) \<longleftrightarrow> is_token_char c"
  by (auto simp: lower_char_def is_token_char_def is_alpha_def is_lower_def is_upper_def)

lemma token_canonical_chars: "list_all is_token_char (canonical_chars up s) \<longleftrightarrow> list_all is_token_char s"
  by (induction up s rule: canonical_chars.induct) (auto simp: Let_def)

lemma CanonicalHeaderKey_idem [simp]:
  "CanonicalHeaderKey (CanonicalHeaderKey s) = CanonicalHeaderKey s"
  by (simp add: CanonicalHeaderKey_def token_canonical_chars canonical_chars_idem)

text \<open>Header names are matched without regard to case.\<close>

lemma CanonicalHeaderKey_fold:
  "list_all is_token_char s \<Longrightarrow> equal_fold s t \<Longrightarrow> CanonicalHeaderKey s = CanonicalHeaderKey t"
proof -
  assume tok: "list_all is_token_char s" and fold: "equal_fold s t"
  have "list_all is_token_char (to_lower u) \<longleftrightarrow> list_all is_token_char u" for u
    by (simp add: to_lower_def list_all_iff)
  then have "list_all is_token_char t"
    using tok fold by (metis equal_fold_def)
  with tok fold show ?thesis
    by (simp add: CanonicalHeaderKey_def) (metis canonical_chars_to_lower equal_fold_def)
qed

lemma header_Get_Set [simp]:
  "header_Get (header_Set name v h) name' =
     (if CanonicalHeaderKey name' = CanonicalHeaderKey name then v else header_Get h name')"
  by (simp add: header_Get_def header_Set_def values_Get_def)

end
