(* ===== verification/LabelSource.thy ===== *)
theory LabelSource
  imports GoRegex JsonRead Url
begin

text \<open>
  Label sources of \<open>internal/config\<close>: the grammar \<open>kind:key|regex\<close>, its parser
  \<open>ParseLabelSource\<close> and the evaluation of a parsed source against a request or a governed body.
  \<open>regexp.Compile\<close> is the parameter \<open>rcomp\<close>.
\<close>

record http_request =
  req_Method :: string
  req_Path :: string
  req_RawQuery :: string
  req_Header :: header
  req_RemoteAddr :: string
  req_ContentLength :: int

record label_source =
  ls_Kind :: string
  ls_Key :: string
  ls_Seg :: int
  ls_JSONPath :: "string list"
  ls_Extract :: "rx option"

datatype label_error =
    NoColon | NeedsName | NeedsValue | NeedsJSONPath | BadSegment | UnknownKind
  | StaticRegex | BadRegex | WrongGroupCount nat

definition label_apply :: "label_source \<Rightarrow> string \<Rightarrow> string" where
  "label_apply s raw =
     (case ls_Extract s of
        None \<Rightarrow> raw
      | Some re \<Rightarrow> if raw = [] then raw
                   else if NumSubexp re < 1 then []
                   else (case first_group re raw of None \<Rightarrow> [] | Some g \<Rightarrow> g))"

definition pathSegments :: "string \<Rightarrow> string list" where
  "pathSegments p =
     filter (\<lambda>seg. seg \<noteq> []) (split_on (CHR ''/'') (trim (\<lambda>c. c = CHR ''/'') p))"

definition label_Value :: "label_source \<Rightarrow> http_request \<Rightarrow> string" where
  "label_Value s r =
     (if ls_Kind s = ''header'' then label_apply s (header_Get (req_Header r) (ls_Key s))
      else if ls_Kind s = ''query'' then
        label_apply s (values_Get (fst (ParseQuery (req_RawQuery r))) (ls_Key s))
      else if ls_Kind s = ''path'' then
        (let segs = pathSegments (req_Path r)
         in label_apply s (if 1 \<le> ls_Seg s \<and> ls_Seg s \<le> int (length segs)
                           then segs ! nat (ls_Seg s - 1) else []))
      else if ls_Kind s = ''static'' then ls_Key s
      else if ls_Kind s = ''json'' \<or> ls_Kind s = ''json_response'' then []
      else label_apply s [])"

definition NeedsBody :: "label_source \<Rightarrow> bool" where
  "NeedsBody s \<longleftrightarrow> ls_Kind s = ''json'' \<or> ls_Kind s = ''json_response''"

definition label_NeedsResponseBody :: "label_source \<Rightarrow> bool" where
  "label_NeedsResponseBody s \<longleftrightarrow> ls_Kind s = ''json_response''"

text \<open>A missing document (\<open>nil\<close>) is \<open>JNull\<close>, which is also what JSON \<open>null\<close> decodes to.\<close>

definition ValueFromBody :: "label_source \<Rightarrow> json \<Rightarrow> string" where
  "ValueFromBody s doc =
     (if \<not> NeedsBody s \<or> doc = JNull then []
      else case FirstString doc (ls_JSONPath s) of
          None \<Rightarrow> []
        | Some raw \<Rightarrow> label_apply s raw)"

definition parse_label_expr :: "string \<Rightarrow> label_error + label_source" where
  "parse_label_expr expr =
     (let (kind, key, ok) = cut_on (CHR '':'') expr;
          ls = \<lparr>ls_Kind = kind, ls_Key = key, ls_Seg = 0, ls_JSONPath = [], ls_Extract = None\<rparr>
      in if \<not> ok then Inl NoColon
         else if kind = ''header'' \<or> kind = ''query'' then
           (if key = [] then Inl NeedsName else Inr ls)
         else if kind = ''static'' then
           (if key = [] then Inl NeedsValue else Inr ls)
         else if kind = ''json'' \<or> kind = ''json_response'' then
           (if \<not> has_prefix key ''$.'' \<or> length key \<le> 2 then Inl NeedsJSONPath
            else Inr (ls\<lparr>ls_JSONPath := split_on (CHR ''.'') (trim_prefix key ''$.'')\<rparr>))
         else if kind = ''path'' then
           (case atoi key of
              None \<Rightarrow> Inl BadSegment
            | Some n \<Rightarrow> if n < 1 then Inl BadSegment else Inr (ls\<lparr>ls_Seg := n\<rparr>))
         else Inl UnknownKind)"

definition ParseLabelSource ::
  "(string \<Rightarrow> rx option) \<Rightarrow> string \<Rightarrow> label_error + label_source" where
  "ParseLabelSource rcomp src =
     (let (expr, pattern, hasRegex) = cut_on (CHR ''|'') src
      in case parse_label_expr expr of
           Inl e \<Rightarrow> Inl e
         | Inr ls \<Rightarrow>
             if \<not> hasRegex then Inr ls
             else if ls_Kind ls = ''static'' then Inl StaticRegex
             else (case rcomp pattern of
                     None \<Rightarrow> Inl BadRegex
                   | Some re \<Rightarrow>
                       if NumSubexp re \<noteq> 1 then Inl (WrongGroupCount (NumSubexp re))
                       else Inr (ls\<lparr>ls_Extract := Some re\<rparr>)))"

subsection \<open>What the parser guarantees\<close>

definition label_source_ok :: "label_source \<Rightarrow> bool" where
  "label_source_ok s \<longleftrightarrow>
     ls_Kind s \<in> {''header'', ''query'', ''path'', ''static'', ''json'', ''json_response''} \<and>
     (ls_Kind s = ''path'' \<longrightarrow> 1 \<le> ls_Seg s) \<and>
     (ls_Kind s \<in> {''header'', ''query'', ''static''} \<longrightarrow> ls_Key s \<noteq> []) \<and>
     (NeedsBody s \<longrightarrow> ls_JSONPath s \<noteq> [] \<and> ls_JSONPath s = SplitJSONPath (ls_Key s)) \<and>
     (case ls_Extract s of None \<Rightarrow> True | Some re \<Rightarrow> NumSubexp re = 1 \<and> ls_Kind s \<noteq> ''static'')"

lemma parse_label_expr_ok:
  assumes "parse_label_expr expr = Inr s"
  shows "label_source_ok s \<and> ls_Extract s = None"
proof -
  obtain kind key ok where cut: "cut_on (CHR '':'') expr = (kind, key, ok)"
    by (cases "cut_on (CHR '':'') expr") auto
  note eq = assms [unfolded parse_label_expr_def cut Let_def prod.case]
  note ok = label_source_ok_def NeedsBody_def SplitJSONPath_def
  consider "kind = ''header'' \<or> kind = ''query''" | "kind = ''static''"
    | "kind = ''json'' \<or> kind = ''json_response''" | "kind = ''path''"
    using eq by (auto split: if_splits)
  then show ?thesis
  proof cases
    case 1
    with eq show ?thesis by (elim disjE) (simp_all add: ok split: if_splits, auto simp: ok)
  next
    case 2
    with eq show ?thesis by (simp add: ok split: if_splits) (auto simp: ok)
  next
    case 3
    with eq show ?thesis by (elim disjE) (simp_all add: ok split: if_splits, auto simp: ok)
  next
    case 4
    with eq show ?thesis by (simp add: ok split: if_splits option.splits) (auto simp: ok)
  qed
qed

lemma ParseLabelSource_ok:
  assumes "ParseLabelSource rcomp src = Inr s"
  shows "label_source_ok s"
proof -
  obtain expr pattern found where cut: "cut_on (CHR ''|'') src = (expr, pattern, found)"
    by (cases "cut_on (CHR ''|'') src") auto
  from assms obtain ls where ls: "parse_label_expr expr = Inr ls"
    by (auto simp: ParseLabelSource_def cut split: sum.splits)
  have "s = ls \<or> (\<exists>re. s = ls\<lparr>ls_Extract := Some re\<rparr> \<and> NumSubexp re = 1 \<and> ls_Kind ls \<noteq> ''static'')"
    using assms by (auto simp add: ParseLabelSource_def cut ls split: if_splits option.splits)
  moreover have "label_source_ok ls" "ls_Extract ls = None"
    using parse_label_expr_ok [OF ls] by auto
  moreover have "label_source_ok (ls\<lparr>ls_Extract := Some re\<rparr>)"
    if "label_source_ok ls" "NumSubexp re = 1" "ls_Kind ls \<noteq> ''static''" for re
    using that by (simp only: label_source_ok_def NeedsBody_def label_source.simps option.case)
      (simp add: SplitJSONPath_def)
  ultimately show ?thesis by blast
qed

text \<open>
  C40. A label source that parses is one the request path can evaluate: its kind is known, a path
  segment counts from 1, a body source carries the path it was written with, and an extraction
  has exactly one group, so that neither an index nor a group is ever out of range.
\<close>

theorem ParseLabelSource_wellformed:
  "ParseLabelSource rcomp src = Inr s \<Longrightarrow> label_source_ok s"
  by (rule ParseLabelSource_ok)

theorem ParseLabelSource_wellformed_witness:
  "label_source_ok \<lparr>ls_Kind = ''path'', ls_Key = ''4'', ls_Seg = 4, ls_JSONPath = [], ls_Extract = None\<rparr>"
proof -
  have "ParseLabelSource (\<lambda>_. None) ''path:4'' =
      Inr \<lparr>ls_Kind = ''path'', ls_Key = ''4'', ls_Seg = 4, ls_JSONPath = [], ls_Extract = None\<rparr>"
    by code_simp
  then show ?thesis by (rule ParseLabelSource_wellformed)
qed

text \<open>Reading back what a plain source prints as.\<close>

definition label_render :: "label_source \<Rightarrow> string" where
  "label_render s = ls_Kind s @ '':'' @ ls_Key s"

lemma ParseLabelSource_render:
  assumes "ls_Kind s \<in> {''header'', ''query'', ''static''}" and "ls_Key s \<noteq> []"
    and "CHR ''|'' \<notin> set (ls_Key s)" and "ls_Seg s = 0" and "ls_JSONPath s = []"
    and "ls_Extract s = None"
  shows "ParseLabelSource rcomp (label_render s) = Inr s"
proof -
  have kind: "CHR '':'' \<notin> set (ls_Kind s)" "CHR ''|'' \<notin> set (ls_Kind s)"
    using assms(1) by auto
  then have "cut_on (CHR ''|'') (label_render s) = (label_render s, [], False)"
    using assms(3) by (intro cut_on_not_found) (auto simp: label_render_def)
  moreover have "cut_on (CHR '':'') (label_render s) = (ls_Kind s, ls_Key s, True)"
    using cut_on_append [OF kind(1), of "ls_Key s"] by (simp add: label_render_def)
  ultimately show ?thesis
    using assms by (auto simp: ParseLabelSource_def parse_label_expr_def)
qed

text \<open>
  An extraction never invents a value: the label is the group of a match inside the raw
  value, and a value that does not match becomes the empty label.
\<close>

theorem label_apply_extracts:
  assumes "ls_Extract s = Some re"
  shows "(\<not> MatchString re raw \<longrightarrow> label_apply s raw = []) \<and>
    (\<exists>i j. label_apply s raw = slice raw i j)"
proof -
  have slice: "\<exists>i j. [] = slice raw i j"
    by (intro exI [of _ 0]) (simp add: slice_def)
  have "\<exists>i j. g = slice raw i j" if "first_group re raw = Some g" for g
  proof -
    from that slice have "g = [] \<or> (\<exists>i j. g = slice raw i j)"
      by (fastforce simp: first_group_def split: option.splits list.splits)
    with slice show ?thesis by metis
  qed
  with slice assms show ?thesis
    by (auto simp: label_apply_def MatchString_def first_group_def split: option.splits list.splits)
qed

theorem label_apply_extracts_witness:
  "label_apply \<lparr>ls_Kind = ''header'', ls_Key = ''X-Region'', ls_Seg = 0, ls_JSONPath = [],
     ls_Extract = Some (RSeq RBegin (RGroup (RRep (RClass False [(CHR ''a'', CHR ''z'')]) 2 (Some 2))))\<rparr>
   ''EU'' = []"
proof -
  let ?re = "RSeq RBegin (RGroup (RRep (RClass False [(CHR ''a'', CHR ''z'')]) 2 (Some 2)))"
  have "\<not> MatchString ?re ''EU''"
    by code_simp
  with label_apply_extracts [of "\<lparr>ls_Kind = ''header'', ls_Key = ''X-Region'', ls_Seg = 0,
      ls_JSONPath = [], ls_Extract = Some ?re\<rparr>" ?re "''EU''"]
  show ?thesis by simp
qed

text \<open>
  A label cannot route around a redaction: whatever the payload holds, a source that reads
  the path a rule masks yields an extraction of the placeholder, never of the masked value.
\<close>

theorem label_reads_masked:
  assumes "NeedsBody s" and "ls_JSONPath s \<noteq> []" and "last (ls_JSONPath s) \<noteq> ''**''"
  shows "ValueFromBody s (redactPath doc (ls_JSONPath s)) \<in> {[], label_apply s RedactedPlaceholder}"
proof (cases "FirstString (redactPath doc (ls_JSONPath s)) (ls_JSONPath s)")
  case None
  then show ?thesis by (simp add: ValueFromBody_def)
next
  case (Some raw)
  from FirstString_addressed [OF this] obtain v where
    v: "addressed (ls_JSONPath s) (redactPath doc (ls_JSONPath s)) v" "scalar_string v = Some raw"
    by blast
  from addressed_after_redaction [OF assms(2,3) v(1)] v(2) have "raw = RedactedPlaceholder"
    by simp
  with Some show ?thesis by (simp add: ValueFromBody_def)
qed

theorem label_reads_masked_witness:
  "ValueFromBody \<lparr>ls_Kind = ''json'', ls_Key = ''$.**.email'', ls_Seg = 0,
       ls_JSONPath = [''**'', ''email''], ls_Extract = None\<rparr>
     (redactPath (JObj [(''customer'', JObj [(''email'', JStr ''a@b.example'')])]) [''**'', ''email''])
   \<in> {[], ''[REDACTED]''}"
  using label_reads_masked [of "\<lparr>ls_Kind = ''json'', ls_Key = ''$.**.email'', ls_Seg = 0,
       ls_JSONPath = [''**'', ''email''], ls_Extract = None\<rparr>"]
  by (simp add: NeedsBody_def label_apply_def RedactedPlaceholder_def)

end
