(* ===== verification/ScanDetect.thy ===== *)
theory ScanDetect
  imports GoRegex Json
begin

text \<open>
  Detectors of \<open>internal/scan\<close> (\<open>detect.go\<close>, \<open>custom.go\<close>): the built-in patterns, the checksums
  that confirm a hit, the mask that makes a finding safe to print, and user-defined detectors.
  A verifier returns None where the Go code panics (a slice out of range).
\<close>

abbreviation SevCritical :: string where "SevCritical \<equiv> ''critical''"
abbreviation SevHigh :: string where "SevHigh \<equiv> ''high''"
abbreviation SevMedium :: string where "SevMedium \<equiv> ''medium''"

subsection \<open>Verifiers\<close>

definition digits_of :: "string \<Rightarrow> nat list" where
  "digits_of s = map digit_val (filter is_digit s)"

fun luhn_sum :: "bool \<Rightarrow> nat list \<Rightarrow> nat" where
  "luhn_sum dbl [] = 0"
| "luhn_sum dbl (d # ds) =
     (if dbl then (if d * 2 > 9 then d * 2 - 9 else d * 2) else d) + luhn_sum (\<not> dbl) ds"

definition luhnValid :: "string \<Rightarrow> bool" where
  "luhnValid s =
     (let digits = digits_of s
      in if length digits < 13 \<or> length digits > 19 then False
         else if list_all (\<lambda>d. d = hd digits) (tl digits) then False
         else luhn_sum False (rev digits) mod 10 = 0)"

definition iban_value :: "char \<Rightarrow> nat" where
  "iban_value c = (if is_digit c then digit_val c else byte c - 65 + 10)"

fun iban_rem :: "nat \<Rightarrow> string \<Rightarrow> nat option" where
  "iban_rem r [] = Some r"
| "iban_rem r (c # cs) =
     (if is_digit c then iban_rem ((r * 10 + iban_value c) mod 97) cs
      else if is_upper c then iban_rem ((r * 100 + iban_value c) mod 97) cs
      else None)"

definition ibanPlausible :: "string \<Rightarrow> bool" where
  "ibanPlausible s0 =
     (let s = to_upper (filter (\<lambda>c. c \<noteq> CHR '' '') s0)
      in if length s < 15 \<or> length s > 34 then False
         else iban_rem 0 (drop 4 s @ take 4 s) = Some 1)"

definition ssnPlausible :: "string \<Rightarrow> bool option" where
  "ssnPlausible s =
     (if length s < 11 then None
      else
        (let area = slice s 0 3; grp = slice s 4 6; serial = slice s 7 11
         in if area = ''000'' \<or> area = ''666'' \<or> area ! 0 = CHR ''9'' then Some False
            else if grp = ''00'' \<or> serial = ''0000'' then Some False
            else Some True))"

definition verhoeffD :: "nat list list" where
  "verhoeffD = [
     [0, 1, 2, 3, 4, 5, 6, 7, 8, 9],
     [1, 2, 3, 4, 0, 6, 7, 8, 9, 5],
     [2, 3, 4, 0, 1, 7, 8, 9, 5, 6],
     [3, 4, 0, 1, 2, 8, 9, 5, 6, 7],
     [4, 0, 1, 2, 3, 9, 5, 6, 7, 8],
     [5, 9, 8, 7, 6, 0, 4, 3, 2, 1],
     [6, 5, 9, 8, 7, 1, 0, 4, 3, 2],
     [7, 6, 5, 9, 8, 2, 1, 0, 4, 3],
     [8, 7, 6, 5, 9, 3, 2, 1, 0, 4],
     [9, 8, 7, 6, 5, 4, 3, 2, 1, 0]]"

definition verhoeffP :: "nat list list" where
  "verhoeffP = [
     [0, 1, 2, 3, 4, 5, 6, 7, 8, 9],
     [1, 5, 7, 6, 2, 8, 3, 0, 9, 4],
     [5, 8, 0, 3, 7, 9, 6, 1, 4, 2],
     [8, 9, 1, 6, 0, 4, 3, 5, 2, 7],
     [9, 4, 5, 3, 1, 2, 6, 8, 7, 0],
     [4, 2, 8, 6, 5, 7, 3, 9, 0, 1],
     [2, 7, 9, 3, 8, 0, 6, 4, 1, 5],
     [7, 0, 4, 6, 9, 1, 3, 2, 5, 8]]"

text \<open>The loop of \<open>verhoeffValid\<close>: position, accumulator, the digits from the right.\<close>

fun verhoeff_from :: "nat \<Rightarrow> nat \<Rightarrow> nat list \<Rightarrow> nat" where
  "verhoeff_from i c [] = c"
| "verhoeff_from i c (d # ds) =
     verhoeff_from (Suc i) (verhoeffD ! c ! (verhoeffP ! (i mod 8) ! d)) ds"

definition verhoeffValid :: "string \<Rightarrow> bool" where
  "verhoeffValid s =
     (if \<not> list_all (\<lambda>c. is_digit c \<or> c = CHR '' '' \<or> c = CHR ''-'') s then False
      else
        (let digits = digits_of s
         in if length digits < 2 then False else verhoeff_from 0 0 (rev digits) = 0))"

type_synonym verifier = "string \<Rightarrow> bool option"

definition Verifiers :: "(string \<times> verifier) list" where
  "Verifiers = [
     (''luhn'', \<lambda>s. Some (luhnValid s)),
     (''iban'', \<lambda>s. Some (ibanPlausible s)),
     (''us_ssn'', ssnPlausible),
     (''verhoeff'', \<lambda>s. Some (verhoeffValid s))]"

definition KnownVerifier :: "string \<Rightarrow> bool" where
  "KnownVerifier name \<longleftrightarrow> lookup Verifiers name \<noteq> None"

definition VerifierNames :: "string list" where
  "VerifierNames = sort (keys Verifiers)"

subsection \<open>Detectors\<close>

record detector =
  det_Kind :: string
  det_Severity :: string
  det_Why :: string
  det_re :: rx
  det_verify :: "verifier option"

abbreviation cls :: "(char \<times> char) list \<Rightarrow> rx" where
  "cls \<equiv> RClass False"

definition rx_seq :: "rx list \<Rightarrow> rx" where
  "rx_seq rs = foldr RSeq rs REps"

definition rx_alts :: "string list \<Rightarrow> rx" where
  "rx_alts ws = (case rev ws of [] \<Rightarrow> REps | w # vs \<Rightarrow> foldl (\<lambda>r v. RAlt (rlit v) r) (rlit w) vs)"

definition digit_cls :: "(char \<times> char) list" where
  "digit_cls = [(CHR ''0'', CHR ''9'')]"

definition upper_cls :: "(char \<times> char) list" where
  "upper_cls = [(CHR ''A'', CHR ''Z'')]"

definition alnum_cls :: "(char \<times> char) list" where
  "alnum_cls = [(CHR ''A'', CHR ''Z''), (CHR ''a'', CHR ''z''), (CHR ''0'', CHR ''9'')]"

definition one_of :: "string \<Rightarrow> (char \<times> char) list" where
  "one_of cs = map (\<lambda>c. (c, c)) cs"

definition em_dash :: string where
  "em_dash = [CHR 0xE2, CHR 0x80, CHR 0x94]"

definition Detectors :: "detector list" where
  "Detectors = [
     \<lparr>det_Kind = ''private-key'', det_Severity = SevCritical,
      det_Why = ''a PEM private key block was stored verbatim'',
      det_re = rx_seq [rlit ''-----BEGIN '',
        RRep (rx_alts [''RSA '', ''EC '', ''OPENSSH '', ''PGP '', ''DSA '']) 0 (Some 1),
        rlit ''PRIVATE KEY-----''],
      det_verify = None\<rparr>,
     \<lparr>det_Kind = ''aws-access-key-id'', det_Severity = SevCritical,
      det_Why = ''an AWS access key ID, usually paired with a secret nearby'',
      det_re = rx_seq [RWordB, rx_alts [''AKIA'', ''ASIA'', ''ABIA'', ''ACCA''],
        RRep (cls (digit_cls @ upper_cls)) 16 (Some 16), RWordB],
      det_verify = None\<rparr>,
     \<lparr>det_Kind = ''github-token'', det_Severity = SevCritical,
      det_Why = ''a GitHub personal access / app token'',
      det_re = rx_seq [RWordB, rlit ''gh'', cls (one_of ''pousr''), rlit ''_'',
        RRep (cls alnum_cls) 36 None, RWordB],
      det_verify = None\<rparr>,
     \<lparr>det_Kind = ''slack-token'', det_Severity = SevCritical,
      det_Why = ''a Slack API token'',
      det_re = rx_seq [RWordB, rlit ''xox'', cls (one_of ''baprs''), rlit ''-'',
        RRep (cls (alnum_cls @ one_of ''-'')) 10 None, RWordB],
      det_verify = None\<rparr>,
     \<lparr>det_Kind = ''stripe-secret-key'', det_Severity = SevCritical,
      det_Why = ''a live Stripe secret key'',
      det_re = rx_seq [RWordB, cls (one_of ''sr''), rlit ''k_live_'',
        RRep (cls alnum_cls) 16 None, RWordB],
      det_verify = None\<rparr>,
     \<lparr>det_Kind = ''google-api-key'', det_Severity = SevCritical,
      det_Why = ''a Google API key'',
      det_re = rx_seq [RWordB, rlit ''AIza'', RRep (cls (alnum_cls @ one_of ''_-'')) 35 (Some 35), RWordB],
      det_verify = None\<rparr>,
     \<lparr>det_Kind = ''jwt'', det_Severity = SevCritical,
      det_Why = ''a JSON Web Token '' @ em_dash @
        '' bearer credentials are replayable until they expire'',
      det_re = rx_seq [RWordB, rlit ''eyJ'', RRep (cls (alnum_cls @ one_of ''_-'')) 8 None,
        rlit ''.eyJ'', RRep (cls (alnum_cls @ one_of ''_-'')) 8 None,
        rlit ''.'', RRep (cls (alnum_cls @ one_of ''_-'')) 8 None, RWordB],
      det_verify = None\<rparr>,
     \<lparr>det_Kind = ''credit-card'', det_Severity = SevHigh,
      det_Why = ''a Luhn-valid card number '' @ em_dash @ '' PCI-DSS scope'',
      det_re = rx_seq [RWordB,
        RRep (RSeq (cls digit_cls) (RRep (cls (one_of '' -'')) 0 (Some 1))) 12 (Some 18),
        cls digit_cls, RWordB],
      det_verify = Some (\<lambda>s. Some (luhnValid s))\<rparr>,
     \<lparr>det_Kind = ''iban'', det_Severity = SevHigh,
      det_Why = ''an IBAN bank account number'',
      det_re = rx_seq [RWordB, RRep (cls upper_cls) 2 (Some 2), RRep (cls digit_cls) 2 (Some 2),
        RRep (cls (upper_cls @ digit_cls)) 11 (Some 30), RWordB],
      det_verify = Some (\<lambda>s. Some (ibanPlausible s))\<rparr>,
     \<lparr>det_Kind = ''us-ssn'', det_Severity = SevHigh,
      det_Why = ''a US Social Security Number'',
      det_re = rx_seq [RWordB, RRep (cls digit_cls) 3 (Some 3), rlit ''-'',
        RRep (cls digit_cls) 2 (Some 2), rlit ''-'', RRep (cls digit_cls) 4 (Some 4), RWordB],
      det_verify = Some ssnPlausible\<rparr>,
     \<lparr>det_Kind = ''email'', det_Severity = SevMedium,
      det_Why = ''an email address '' @ em_dash @ '' personal data under GDPR and similar regimes'',
      det_re = rx_seq [RWordB, RRep (cls (alnum_cls @ one_of ''._%+-'')) 1 None, rlit ''@'',
        RRep (cls (alnum_cls @ one_of ''.-'')) 1 None, rlit ''.'',
        RRep (cls [(CHR ''A'', CHR ''Z''), (CHR ''a'', CHR ''z'')]) 2 None, RWordB],
      det_verify = None\<rparr>]"

definition bullet :: string where
  "bullet = [CHR 0xE2, CHR 0x80, CHR 0xA2]"

definition bullets :: "nat \<Rightarrow> string" where
  "bullets n = concat (replicate n bullet)"

definition Mask :: "string \<Rightarrow> string" where
  "Mask v0 =
     (let v = trim_space v0
      in if length v \<le> 6 then bullets (length v)
         else (let w = (if length v > 40 then take 40 v else v)
               in take 2 w @ bullets (length w - 4) @ drop (length w - 2) w))"

record match =
  mt_Kind :: string
  mt_Severity :: string
  mt_Why :: string
  mt_Masked :: string

text \<open>The inner loop over the hits of one detector: the first hit the verifier accepts.\<close>

fun first_verified :: "verifier option \<Rightarrow> string list \<Rightarrow> string option option" where
  "first_verified ver [] = Some None"
| "first_verified ver (h # hs) =
     (case (case ver of None \<Rightarrow> Some True | Some f \<Rightarrow> f h) of
        None \<Rightarrow> None
      | Some False \<Rightarrow> first_verified ver hs
      | Some True \<Rightarrow> Some (Some h))"

fun find_each :: "detector list \<Rightarrow> string \<Rightarrow> match list option" where
  "find_each [] s = Some []"
| "find_each (d # ds) s =
     (case first_verified (det_verify d) (FindAllString (det_re d) s 4) of
        None \<Rightarrow> None
      | Some hit \<Rightarrow>
          (case find_each ds s of
             None \<Rightarrow> None
           | Some out \<Rightarrow>
               Some ((case hit of None \<Rightarrow> []
                      | Some h \<Rightarrow> [\<lparr>mt_Kind = det_Kind d, mt_Severity = det_Severity d,
                                   mt_Why = det_Why d, mt_Masked = Mask h\<rparr>]) @ out)))"

definition FindWith :: "detector list \<Rightarrow> string \<Rightarrow> match list option" where
  "FindWith dets s =
     (if s = [] \<or> (contains s RedactedPlaceholder \<and> length s < 24) then Some []
      else find_each dets s)"

definition Find :: "string \<Rightarrow> match list option" where
  "Find s = FindWith Detectors s"

datatype detector_error =
    KindRequired | KindWhitespace | SeverityRequired | SeverityUnknown | PatternRequired
  | PatternTooLong nat | PatternBad | PatternEmptyMatch | VerifierUnknown string

definition MaxPatternLength :: nat where
  "MaxPatternLength = 512"

definition NewDetector ::
  "(string \<Rightarrow> rx option) \<Rightarrow> string \<Rightarrow> string \<Rightarrow> string \<Rightarrow> string \<Rightarrow> string
     \<Rightarrow> detector_error + detector" where
  "NewDetector rcomp kind severity why pattern verify =
     (if kind = [] then Inl KindRequired
      else if list_ex (\<lambda>c. c = CHR '' '' \<or> c = CHR 0x09) kind then Inl KindWhitespace
      else if severity = [] then Inl SeverityRequired
      else if severity \<notin> {SevCritical, SevHigh, SevMedium} then Inl SeverityUnknown
      else if pattern = [] then Inl PatternRequired
      else if length pattern > MaxPatternLength then Inl (PatternTooLong (length pattern))
      else case rcomp pattern of
          None \<Rightarrow> Inl PatternBad
        | Some re \<Rightarrow>
            if MatchString re [] then Inl PatternEmptyMatch
            else
              (let why' = (if why = [] then ''matched the user-defined detector '' @ kind else why);
                   d = \<lparr>det_Kind = kind, det_Severity = severity, det_Why = why',
                        det_re = re, det_verify = None\<rparr>
               in if verify = [] then Inr d
                  else (case lookup Verifiers verify of
                          None \<Rightarrow> Inl (VerifierUnknown verify)
                        | Some f \<Rightarrow> Inr (d\<lparr>det_verify := Some f\<rparr>))))"

subsection \<open>The checksums\<close>

lemma digits_of_append [simp]: "digits_of (s @ t) = digits_of s @ digits_of t"
  by (simp add: digits_of_def)

lemma digits_of_Cons [simp]:
  "digits_of (c # s) = (if is_digit c then digit_val c # digits_of s else digits_of s)"
  by (simp add: digits_of_def)

lemma digits_of_less: "d \<in> set (digits_of s) \<Longrightarrow> d < 10"
  by (auto simp: digits_of_def digit_val_less)

lemma digit_val_inject: "is_digit c \<Longrightarrow> is_digit d \<Longrightarrow> digit_val c = digit_val d \<longleftrightarrow> c = d"
proof -
  assume "is_digit c" "is_digit d"
  then have "digit_val c = digit_val d \<longleftrightarrow> byte c = byte d"
    by (auto simp: is_digit_def digit_val_def simp del: of_char_eq_iff)
  then show ?thesis by simp
qed

lemma luhn_sum_append:
  "luhn_sum b (xs @ ys) = luhn_sum b xs + luhn_sum (b \<noteq> odd (length xs)) ys"
proof (induction xs arbitrary: b)
  case (Cons x xs)
  then show ?case by (cases b) simp_all
qed simp

definition luhn_double :: "nat \<Rightarrow> nat" where
  "luhn_double x = luhn_sum True [x] mod 10"

lemma luhn_double_inject:
  assumes "x < 10" "y < 10" and "luhn_double x = luhn_double y"
  shows "x = y"
proof -
  have "list_all (\<lambda>x. list_all (\<lambda>y. luhn_double x = luhn_double y \<longrightarrow> x = y) [0..<10]) [0..<10]"
    by code_simp
  from upto_check2 [OF this assms(1,2)] assms(3) show ?thesis by (rule mp)
qed

lemma luhn_step_inject:
  assumes "x < 10" "y < 10" and "luhn_sum b [x] mod 10 = luhn_sum b [y] mod 10"
  shows "x = y"
proof (cases b)
  case True
  then show ?thesis
    by (intro luhn_double_inject [OF assms(1,2)]) (use assms(3) True in \<open>simp only: luhn_double_def\<close>)
next
  case False
  with assms show ?thesis by simp
qed

lemma mod10_cancel: "(a + x) mod 10 = (a + y) mod (10::nat) \<Longrightarrow> x mod 10 = y mod 10"
  by (simp add: nat_mod_eq_iff add.assoc)

lemma luhn_sum_one_digit:
  assumes "x < 10" "y < 10" "x \<noteq> y" and "luhn_sum False (xs @ x # ys) mod 10 = 0"
  shows "luhn_sum False (xs @ y # ys) mod 10 \<noteq> 0"
proof
  let ?b = "False \<noteq> odd (length xs)"
  let ?rest = "luhn_sum False xs + luhn_sum (\<not> ?b) ys"
  have split: "luhn_sum False (xs @ z # ys) = ?rest + luhn_sum ?b [z]" for z
    by (simp add: luhn_sum_append)
  assume "luhn_sum False (xs @ y # ys) mod 10 = 0"
  with assms(4) have "(?rest + luhn_sum ?b [x]) mod 10 = (?rest + luhn_sum ?b [y]) mod 10"
    by (simp only: split)
  then have "luhn_sum ?b [x] mod 10 = luhn_sum ?b [y] mod 10"
    by (rule mod10_cancel)
  with luhn_step_inject assms(1-3) show False by blast
qed

text \<open>
  The Luhn check detects every misread digit: of two card numbers that differ in one digit
  at most one is accepted.
\<close>

theorem luhnValid_detects_digit:
  assumes "luhnValid (u @ c # v)" and "is_digit c" "is_digit d" "c \<noteq> d"
  shows "\<not> luhnValid (u @ d # v)"
proof -
  let ?digits = "\<lambda>z. digits_of u @ digit_val z # digits_of v"
  from assms(1,2) have "luhn_sum False (rev (digits_of v) @ digit_val c # rev (digits_of u)) mod 10 = 0"
    by (auto simp: luhnValid_def Let_def split: if_splits)
  then have "luhn_sum False (rev (digits_of v) @ digit_val d # rev (digits_of u)) mod 10 \<noteq> 0"
    by (rule luhn_sum_one_digit [rotated 3])
       (use assms digit_val_less digit_val_inject in auto)
  with assms(3) show ?thesis
    by (auto simp: luhnValid_def Let_def)
qed

theorem luhnValid_detects_digit_witness: "\<not> luhnValid ''4111-1111-1111-1119''"
proof -
  have "luhnValid (''4111-1111-1111-111'' @ CHR ''1'' # [])"
    by code_simp
  then have "\<not> luhnValid (''4111-1111-1111-111'' @ CHR ''9'' # [])"
    by (rule luhnValid_detects_digit) (simp_all add: is_digit_def)
  then show ?thesis by simp
qed

text \<open>The Verhoeff tables: multiplication is associative and cancels, a row of P is a permutation.\<close>

abbreviation vD :: "nat \<Rightarrow> nat \<Rightarrow> nat" where "vD c d \<equiv> verhoeffD ! c ! d"
abbreviation vP :: "nat \<Rightarrow> nat \<Rightarrow> nat" where "vP i d \<equiv> verhoeffP ! (i mod 8) ! d"

lemma verhoeffD_closed:
  assumes "a < 10" "b < 10"
  shows "vD a b < 10"
proof -
  have "list_all (\<lambda>a. list_all (\<lambda>b. vD a b < 10) [0..<10]) [0..<10]"
    by code_simp
  from upto_check2 [OF this assms] show ?thesis .
qed

lemma verhoeffD_length:
  assumes "a < 10"
  shows "length (verhoeffD ! a) = 10"
proof -
  have "list_all (\<lambda>a. length (verhoeffD ! a) = 10) [0..<10]"
    by code_simp
  from upto_check1 [OF this assms] show ?thesis .
qed

lemma verhoeffD_assoc:
  assumes "a < 10" "b < 10" "c < 10"
  shows "vD (vD a b) c = vD a (vD b c)"
proof -
  have "list_all (\<lambda>a. list_all (\<lambda>b. map (vD a) (verhoeffD ! b) = verhoeffD ! vD a b) [0..<10]) [0..<10]"
    by code_simp
  from upto_check2 [OF this assms(1,2)] have "map (vD a) (verhoeffD ! b) = verhoeffD ! vD a b" .
  with assms verhoeffD_length [OF assms(2)] show ?thesis
    by (metis nth_map)
qed

lemma verhoeffD_row:
  assumes "a < 10"
  shows "distinct (verhoeffD ! a) \<and> distinct (map (\<lambda>r. r ! a) verhoeffD)"
proof -
  have "list_all (\<lambda>a. distinct (verhoeffD ! a) \<and> distinct (map (\<lambda>r. r ! a) verhoeffD)) [0..<10]"
    by code_simp
  from upto_check1 [OF this assms] show ?thesis .
qed

lemma verhoeffD_cancel:
  assumes "a < 10" "b < 10" "c < 10"
  shows "(vD a b = vD a c \<longleftrightarrow> b = c) \<and> (vD b a = vD c a \<longleftrightarrow> b = c)"
proof -
  have len: "length verhoeffD = 10"
    by (simp add: verhoeffD_def)
  have "vD a b = vD a c \<longleftrightarrow> b = c"
    using verhoeffD_row [OF assms(1)] verhoeffD_length [OF assms(1)] assms(2,3)
    by (metis nth_eq_iff_index_eq)
  moreover have "vD b a = vD c a \<longleftrightarrow> b = c"
    using verhoeffD_row [OF assms(1)] len assms(2,3)
      nth_eq_iff_index_eq [of "map (\<lambda>r. r ! a) verhoeffD" b c] by (simp only: length_map nth_map)
  ultimately show ?thesis ..
qed

lemma verhoeffP_row:
  assumes "a < 10" "b < 10"
  shows "vP i a < 10 \<and> (vP i a = vP i b \<longleftrightarrow> a = b) \<and>
    (a \<noteq> b \<longrightarrow> vD (vP i a) (vP (Suc i) b) \<noteq> vD (vP i b) (vP (Suc i) a))"
proof -
  let ?ok = "\<lambda>j a b. verhoeffP ! j ! a < 10 \<and> (verhoeffP ! j ! a = verhoeffP ! j ! b \<longleftrightarrow> a = b) \<and>
      (a \<noteq> b \<longrightarrow> vD (verhoeffP ! j ! a) (verhoeffP ! (Suc j mod 8) ! b)
        \<noteq> vD (verhoeffP ! j ! b) (verhoeffP ! (Suc j mod 8) ! a))"
  have "list_all (\<lambda>j. list_all (\<lambda>a. list_all (\<lambda>b. ?ok j a b) [0..<10]) [0..<10]) [0..<8]"
    by code_simp
  from upto_check3 [OF this _ assms, of "i mod 8"] have "?ok (i mod 8) a b"
    by simp
  then show ?thesis unfolding mod_Suc_eq .
qed

lemma verhoeff_from_append:
  "verhoeff_from i c (xs @ ys) = verhoeff_from (i + length xs) (verhoeff_from i c xs) ys"
  by (induction xs arbitrary: i c) auto

lemma verhoeff_from_less:
  "c < 10 \<Longrightarrow> \<forall>d \<in> set ds. d < 10 \<Longrightarrow> verhoeff_from i c ds < 10"
  by (induction ds arbitrary: i c) (auto simp: verhoeffD_closed verhoeffP_row)

lemma verhoeff_from_inject:
  "a < 10 \<Longrightarrow> b < 10 \<Longrightarrow> \<forall>d \<in> set ds. d < 10 \<Longrightarrow>
     verhoeff_from i a ds = verhoeff_from i b ds \<Longrightarrow> a = b"
proof (induction ds arbitrary: i a b)
  case Nil
  then show ?case by simp
next
  case (Cons d ds)
  then have d: "vP i d < 10"
    using verhoeffP_row [of d d i] by simp
  have "vD a (vP i d) = vD b (vP i d)"
    by (rule Cons.IH [of _ _ "Suc i"]) (use Cons.prems d in \<open>auto simp: verhoeffD_closed\<close>)
  then show ?case
    using verhoeffD_cancel [OF d Cons.prems(1,2)] by simp
qed

lemma verhoeff_one_digit:
  assumes "\<forall>d \<in> set (xs @ x # y # ys). d < 10" and "x \<noteq> z" "z < 10"
  shows "verhoeff_from 0 0 (xs @ x # ys) \<noteq> verhoeff_from 0 0 (xs @ z # ys)"
proof
  let ?c = "verhoeff_from 0 0 xs" and ?i = "length xs"
  have c: "?c < 10"
    by (rule verhoeff_from_less) (use assms in auto)
  have P: "vP ?i x < 10" "vP ?i z < 10" "vP ?i x \<noteq> vP ?i z"
    using verhoeffP_row [of x z ?i] verhoeffP_row [of z x ?i] assms by auto
  assume "verhoeff_from 0 0 (xs @ x # ys) = verhoeff_from 0 0 (xs @ z # ys)"
  then have "vD ?c (vP ?i x) = vD ?c (vP ?i z)"
    using verhoeff_from_inject [of "vD ?c (vP ?i x)" "vD ?c (vP ?i z)" ys "Suc ?i"]
      assms c P by (simp add: verhoeff_from_append verhoeffD_closed)
  with verhoeffD_cancel [OF c P(1,2)] P(3) show False by simp
qed

lemma verhoeff_swap:
  assumes "\<forall>d \<in> set (xs @ x # y # ys). d < 10" and "x \<noteq> y"
  shows "verhoeff_from 0 0 (xs @ x # y # ys) \<noteq> verhoeff_from 0 0 (xs @ y # x # ys)"
proof
  let ?c = "verhoeff_from 0 0 xs" and ?i = "length xs"
  let ?l = "vD (vP ?i x) (vP (Suc ?i) y)" and ?r = "vD (vP ?i y) (vP (Suc ?i) x)"
  have xy: "x < 10" "y < 10" and c: "?c < 10"
    using assms verhoeff_from_less by auto
  have P: "vP ?i x < 10" "vP ?i y < 10" "vP (Suc ?i) x < 10" "vP (Suc ?i) y < 10" "?l \<noteq> ?r"
    using verhoeffP_row xy assms(2) by blast+
  then have lr: "?l < 10" "?r < 10"
    by (simp_all add: verhoeffD_closed)
  assume "verhoeff_from 0 0 (xs @ x # y # ys) = verhoeff_from 0 0 (xs @ y # x # ys)"
  then have "vD ?c ?l = vD ?c ?r"
    using verhoeff_from_inject [of "vD ?c ?l" "vD ?c ?r" ys "Suc (Suc ?i)"] assms(1) c P lr
    by (simp add: verhoeff_from_append verhoeffD_closed verhoeffD_assoc)
  with verhoeffD_cancel [OF c lr] P(5) show False by simp
qed

text \<open>
  The Verhoeff check detects every misread digit and every swap of two neighbouring digits,
  wherever separators stand.
\<close>

theorem verhoeffValid_detects_errors:
  assumes "is_digit c" "is_digit d" "c \<noteq> d"
  shows "(verhoeffValid (u @ c # v) \<longrightarrow> \<not> verhoeffValid (u @ d # v)) \<and>
    (verhoeffValid (u @ c # d # v) \<longrightarrow> \<not> verhoeffValid (u @ d # c # v))"
proof -
  let ?U = "rev (digits_of u)" and ?V = "rev (digits_of v)"
  let ?x = "digit_val c" and ?y = "digit_val d"
  have xy: "?x \<noteq> ?y" "?x < 10" "?y < 10"
    using assms digit_val_inject digit_val_less by auto
  have digits: "\<forall>e \<in> set (?V @ ?x # ?y # ?U). e < 10"
    using xy digits_of_less by auto
  have "verhoeff_from 0 0 (?V @ ?x # ?U) \<noteq> verhoeff_from 0 0 (?V @ ?y # ?U)"
    by (rule verhoeff_one_digit [of ?V ?x ?y]) (use xy digits in auto)
  moreover have "verhoeff_from 0 0 (?V @ ?y # ?x # ?U) \<noteq> verhoeff_from 0 0 (?V @ ?x # ?y # ?U)"
    using verhoeff_swap [OF digits] xy(1) by metis
  ultimately show ?thesis
    using assms by (auto simp: verhoeffValid_def Let_def split: if_splits)
qed

theorem verhoeffValid_detects_errors_witness:
  "verhoeffValid ''2363'' \<and> \<not> verhoeffValid ''2336''"
proof
  show v: "verhoeffValid ''2363''" by code_simp
  have "verhoeffValid (''23'' @ CHR ''6'' # CHR ''3'' # [])"
    using v by simp
  then have "\<not> verhoeffValid (''23'' @ CHR ''3'' # CHR ''6'' # [])"
    using verhoeffValid_detects_errors [of "CHR ''6''" "CHR ''3''" "''23''" "[]"]
    by (simp add: is_digit_def)
  then show "\<not> verhoeffValid ''2336''" by simp
qed

text \<open>The number an IBAN spells when letters stand for two digits, and ISO 7064.\<close>

fun iban_number :: "nat \<Rightarrow> string \<Rightarrow> nat" where
  "iban_number n [] = n"
| "iban_number n (c # cs) = iban_number (n * (if is_digit c then 10 else 100) + iban_value c) cs"

lemma iban_rem_number:
  "iban_rem (n mod 97) cs =
     (if list_all (\<lambda>c. is_digit c \<or> is_upper c) cs then Some (iban_number n cs mod 97) else None)"
proof (induction cs arbitrary: n)
  case Nil
  then show ?case by simp
next
  case (Cons c cs)
  have "(n mod 97 * k + v) mod 97 = (n * k + v) mod 97" for k v :: nat
    by (metis mod_add_left_eq mod_mult_left_eq)
  with Cons show ?case by simp
qed

lemma iban_rem_rotated:
  "iban_rem 0 (drop 4 s @ take 4 s) = Some 1 \<longleftrightarrow>
     list_all (\<lambda>c. is_digit c \<or> is_upper c) s \<and> iban_number 0 (drop 4 s @ take 4 s) mod 97 = 1"
proof -
  let ?p = "\<lambda>c. is_digit c \<or> is_upper c"
  have "list_all ?p (drop 4 s @ take 4 s) \<longleftrightarrow> list_all ?p s"
    using list_all_append [of ?p "take 4 s" "drop 4 s"] by (metis append_take_drop_id list_all_append)
  then show ?thesis
    using iban_rem_number [of 0 "drop 4 s @ take 4 s"] by (simp del: list_all_append)
qed

text \<open>
  The reduction digit by digit computes the ISO 7064 checksum of the whole number: an IBAN is
  accepted exactly when its 15 to 34 characters are letters and digits and the number they spell,
  check digits last, leaves remainder 1 modulo 97.
\<close>

theorem ibanPlausible_iso7064:
  "ibanPlausible s0 \<longleftrightarrow>
     (let s = to_upper (filter (\<lambda>c. c \<noteq> CHR '' '') s0)
      in 15 \<le> length s \<and> length s \<le> 34 \<and> list_all (\<lambda>c. is_digit c \<or> is_upper c) s \<and>
         iban_number 0 (drop 4 s @ take 4 s) mod 97 = 1)"
  unfolding ibanPlausible_def Let_def iban_rem_rotated by (simp add: not_less)

subsection \<open>The mask\<close>

text \<open>All that a masked value shows: its length up to 40, and two characters at either end.\<close>

definition mask_view :: "string \<Rightarrow> nat \<times> string \<times> string" where
  "mask_view v =
     (let w = take 40 (trim_space v)
      in if length w \<le> 6 then (length w, [], [])
         else (length w, take 2 w, drop (length w - 2) w))"

lemma Mask_view: "Mask v = (case mask_view v of (n, a, b) \<Rightarrow>
    if n \<le> 6 then bullets n else a @ bullets (n - 4) @ b)"
  by (auto simp: Mask_def mask_view_def Let_def min_def)

text \<open>
  A finding cannot leak the secret it reports: two values with the same length (up to 40) and
  the same two outer characters at either end are masked to the same text, and a value of six
  characters or fewer shows its length only.
\<close>

theorem Mask_hides:
  assumes "length v = length w" and "trim_space v = v" and "trim_space w = w"
    and "6 < length v \<Longrightarrow> take 2 v = take 2 w"
    and "6 < length v \<Longrightarrow> drop (length (take 40 v) - 2) (take 40 v) = drop (length (take 40 w) - 2) (take 40 w)"
  shows "Mask v = Mask w"
proof -
  have "mask_view v = mask_view w"
    using assms by (auto simp: mask_view_def Let_def take_take min_def)
  then show ?thesis by (simp add: Mask_view)
qed

theorem Mask_hides_witness: "Mask ''4111111111111111'' = Mask ''4199999999999911''"
  by (rule Mask_hides) (code_simp, code_simp, code_simp, simp_all)

subsection \<open>Findings\<close>

lemma first_verified_hit:
  "first_verified ver hs = Some (Some h) \<Longrightarrow>
     h \<in> set hs \<and> (case ver of None \<Rightarrow> True | Some f \<Rightarrow> f h = Some True)"
  by (induction hs) (auto split: option.splits bool.splits)

lemma find_all_slice: "h \<in> set (find_all r s pos prev n) \<Longrightarrow> \<exists>i j. h = slice s i j"
proof (induction r s pos prev n rule: find_all.induct)
  case (1 r s pos prev)
  then show ?case by simp
next
  case (2 r s pos prev n)
  from "2.prems" obtain i j cs where found: "find_from r s pos = Some (i, j, cs)"
    by (cases "find_from r s pos") auto
  note IH = "2.IH" [OF found refl refl]
  consider "h = slice s i j" | "h \<in> set (find_all r s (Suc pos) (Some j) (Suc n))" "j \<le> pos" "Some i = prev"
    | "h \<in> set (find_all r s (Suc pos) (Some j) n)" "j \<le> pos" "Some i \<noteq> prev"
    | "h \<in> set (find_all r s j (Some j) n)" "\<not> j \<le> pos"
    using "2.prems" unfolding find_all.simps(2) [of r s pos prev n] found
    by (auto simp del: find_all.simps split: if_splits)
  then show ?case using IH by cases blast+
qed

lemma find_each_sound:
  "find_each dets s = Some out \<Longrightarrow> m \<in> set out \<Longrightarrow>
     \<exists>d \<in> set dets. \<exists>i j. mt_Kind m = det_Kind d \<and> mt_Severity m = det_Severity d \<and>
       mt_Masked m = Mask (slice s i j) \<and>
       (case det_verify d of None \<Rightarrow> True | Some f \<Rightarrow> f (slice s i j) = Some True)"
proof (induction dets arbitrary: out)
  case Nil
  then show ?case by simp
next
  case (Cons d ds)
  then obtain hit rest where hit: "first_verified (det_verify d) (FindAllString (det_re d) s 4) = Some hit"
    and rest: "find_each ds s = Some rest"
    by (auto split: option.splits)
  show ?case
  proof (cases "m \<in> set rest")
    case True
    with Cons.IH [OF rest] show ?thesis by (meson list.set_intros(2))
  next
    case False
    with Cons.prems hit rest obtain h where h: "hit = Some h"
      and m: "m = \<lparr>mt_Kind = det_Kind d, mt_Severity = det_Severity d,
                  mt_Why = det_Why d, mt_Masked = Mask h\<rparr>"
      by (auto split: option.splits)
    from first_verified_hit [OF hit [unfolded h]] obtain i j where "h = slice s i j"
      and "case det_verify d of None \<Rightarrow> True | Some f \<Rightarrow> f h = Some True"
      unfolding FindAllString_def using find_all_slice by blast
    with m show ?thesis by (intro bexI [of _ d] exI [of _ i] exI [of _ j]) auto
  qed
qed

lemma find_each_length: "find_each dets s = Some out \<Longrightarrow> length out \<le> length dets"
  by (induction dets arbitrary: out) (fastforce split: option.splits)+

text \<open>
  A finding is backed by evidence and prints none of it: it names a detector of the set, the
  text it masks is a piece of the scanned value that the detector's checksum confirmed, and no
  detector reports a value twice.
\<close>

theorem FindWith_sound:
  assumes "FindWith dets s = Some out"
  shows "length out \<le> length dets \<and>
    (\<forall>m \<in> set out. \<exists>d \<in> set dets. \<exists>i j.
       mt_Kind m = det_Kind d \<and> mt_Severity m = det_Severity d \<and>
       mt_Masked m = Mask (slice s i j) \<and>
       (case det_verify d of None \<Rightarrow> True | Some f \<Rightarrow> f (slice s i j) = Some True))"
proof (cases "s = [] \<or> (contains s RedactedPlaceholder \<and> length s < 24)")
  case True
  with assms show ?thesis by (auto simp: FindWith_def)
next
  case False
  with assms have "find_each dets s = Some out"
    by (simp add: FindWith_def)
  with find_each_length find_each_sound show ?thesis by metis
qed

definition sample_detector :: detector where
  "sample_detector = \<lparr>det_Kind = ''employee-id'', det_Severity = ''high'', det_Why = ''internal'',
     det_re = rlit ''EMP-7'', det_verify = Some (\<lambda>h. Some (h \<noteq> []))\<rparr>"

theorem FindWith_sound_witness:
  "\<exists>i j. Mask (slice ''see EMP-7'' i j) = bullets 5"
proof -
  let ?m = "\<lparr>mt_Kind = ''employee-id'', mt_Severity = ''high'', mt_Why = ''internal'', mt_Masked = bullets 5\<rparr>"
  have "FindWith [sample_detector] ''see EMP-7'' = Some [?m]"
    by code_simp
  from FindWith_sound [OF this] show ?thesis
    by (auto intro: sym)
qed

text \<open>
  A user-defined detector that is accepted is usable: its kind and severity are reportable, its
  pattern is bounded and cannot match the empty text, and its checksum is a registered one.
\<close>

theorem NewDetector_ok:
  assumes "NewDetector rcomp kind severity why pattern verify = Inr d"
  shows "det_Kind d = kind \<and> kind \<noteq> [] \<and> CHR '' '' \<notin> set kind \<and>
    det_Severity d \<in> {SevCritical, SevHigh, SevMedium} \<and> length pattern \<le> MaxPatternLength \<and>
    rcomp pattern = Some (det_re d) \<and> \<not> MatchString (det_re d) [] \<and> det_Why d \<noteq> [] \<and>
    det_verify d = (if verify = [] then None else lookup Verifiers verify)"
proof -
  have kind: "kind \<noteq> []" "\<not> list_ex (\<lambda>c. c = CHR '' '' \<or> c = CHR 0x09) kind"
    and sev: "severity \<in> {SevCritical, SevHigh, SevMedium}"
    and len: "\<not> length pattern > MaxPatternLength"
    using assms by (simp_all add: NewDetector_def split: if_splits)
  from assms obtain re where re: "rcomp pattern = Some re" "\<not> MatchString re []"
    by (auto simp: NewDetector_def split: if_splits option.splits)
  have d: "det_Kind d = kind \<and> det_Severity d = severity \<and> det_re d = re \<and> det_Why d \<noteq> [] \<and>
      det_verify d = (if verify = [] then None else lookup Verifiers verify)"
    using assms re by (auto simp: NewDetector_def Let_def split: if_splits option.splits)
  have "CHR '' '' \<notin> set kind"
    using kind(2) by (auto simp: list_ex_iff)
  with d kind sev len re show ?thesis by (simp del: insert_iff) 
qed

theorem NewDetector_ok_witness:
  "\<not> MatchString (rlit ''EMP'') []"
proof -
  have empty: "\<not> MatchString (rlit ''EMP'') []"
    by code_simp
  have "NewDetector (\<lambda>_. Some (rlit ''EMP'')) ''employee-id'' ''high'' [] ''EMP'' [] =
      Inr \<lparr>det_Kind = ''employee-id'', det_Severity = ''high'',
           det_Why = ''matched the user-defined detector employee-id'',
           det_re = rlit ''EMP'', det_verify = None\<rparr>"
    using empty by (simp add: NewDetector_def MaxPatternLength_def)
  from NewDetector_ok [OF this] show ?thesis by simp
qed

text \<open>
  The SSN checksum slices eleven bytes without looking at the length: a user-defined detector
  for undashed numbers that borrows it is accepted, and the first value it matches makes the scan
  panic.
\<close>

theorem us_ssn_verifier_panics:
  "\<exists>rcomp d. NewDetector rcomp ''ssn-compact'' ''high'' [] ''[0-9]{9}'' ''us_ssn'' = Inr d \<and>
     rcomp ''[0-9]{9}'' = Some (RRep (cls digit_cls) 9 (Some 9)) \<and>
     FindWith [d] ''123456789'' = None"
proof -
  let ?re = "RRep (cls digit_cls) 9 (Some 9)"
  let ?d = "\<lparr>det_Kind = ''ssn-compact'', det_Severity = ''high'',
      det_Why = ''matched the user-defined detector ssn-compact'',
      det_re = ?re, det_verify = Some ssnPlausible\<rparr>"
  have empty: "\<not> MatchString ?re []"
    by code_simp
  have "NewDetector (\<lambda>_. Some ?re) ''ssn-compact'' ''high'' [] ''[0-9]{9}'' ''us_ssn'' = Inr ?d"
    using empty by (simp add: NewDetector_def MaxPatternLength_def Verifiers_def)
  moreover have "FindAllString ?re ''123456789'' 4 = [''123456789'']"
    by code_simp
  then have "FindWith [?d] ''123456789'' = None"
    by (simp add: FindWith_def RedactedPlaceholder_def ssnPlausible_def has_prefix_def)
  ultimately show ?thesis by blast
qed

end
