(* ===== verification/ConfigTypes.thy ===== *)
theory ConfigTypes
  imports LabelSource ScanDetect
begin

text \<open>
  The schema of \<open>internal/config\<close>: one record per struct of an \<open>optic.yaml\<close> document, its fields
  in the order of the source with the struct's initials in front.  A \<open>*bool\<close>, \<open>*int\<close> or
  pointer to a struct is an option.  \<open>sysenv\<close> collects what the loader asks of the host and of
  parsers of the standard library: regular expressions, URLs (scheme, host and path), durations
  (nanoseconds), the process environment, the file system, name resolution and the registry of
  linked-in extensions.
\<close>

record sysenv =
  sys_regexp :: "string \<Rightarrow> rx option"
  sys_url :: "string \<Rightarrow> (string \<times> string \<times> string) option"
  sys_duration :: "string \<Rightarrow> int option"
  sys_getenv :: "string \<Rightarrow> string"
  sys_stat :: "string \<Rightarrow> bool"
  sys_port :: "string \<Rightarrow> bool"
  sys_host :: "string \<Rightarrow> bool"
  sys_ip :: "string \<Rightarrow> bool option"
  sys_stores :: "string list"
  sys_exporters :: "string list"

type_synonym settings = "json gomap"

abbreviation FieldRequestBody :: string where "FieldRequestBody \<equiv> ''request_body''"
abbreviation FieldResponseBody :: string where "FieldResponseBody \<equiv> ''response_body''"
abbreviation FieldHeaders :: string where "FieldHeaders \<equiv> ''headers''"
abbreviation FieldQuery :: string where "FieldQuery \<equiv> ''query''"

record detector_cfg =
  dc_Kind :: string
  dc_Severity :: string
  dc_Why :: string
  dc_Pattern :: string
  dc_Verify :: string

record trace_cfg =
  trc_PropagateUpstream :: "bool option"
  trc_ResponseHeader :: string

record service_cfg =
  svc_Name :: string
  svc_Listen :: string
  svc_Upstream :: string
  svc_GraphQLPaths :: "string list"
  svc_Trace :: trace_cfg
  svc_HTTP2 :: bool

record capture_flags =
  cap_RequestBody :: "bool option"
  cap_ResponseBody :: "bool option"
  cap_Headers :: "bool option"
  cap_Query :: "bool option"

record defaults_cfg =
  def_Capture :: capture_flags
  def_CaptureLimitBytes :: int

record prices =
  pr_PerRequest :: rat
  pr_PerGB :: rat
  pr_PerMeterUnit :: "rat gomap"

record billing =
  bil_ConsumerLabel :: string
  bil_Currency :: string
  bil_Prices :: prices

record exporter_cfg =
  ex_Name :: string
  ex_Type :: string
  ex_Path :: string
  ex_MaxSizeMB :: int
  ex_URL :: string
  ex_Headers :: "string gomap"
  ex_Command :: "string list"
  ex_BatchSize :: int
  ex_FlushInterval :: string
  ex_QueueSize :: int
  ex_Settings :: settings

record metrics_cfg =
  met_Enabled :: "bool option"
  met_Buckets :: "rat list"
  met_MaxLabelValues :: "int option"

record store_cfg =
  st_Driver :: string
  st_DSN :: string
  st_QueueSize :: int
  st_RetentionMaxRows :: int
  st_RetentionMaxAge :: string
  st_Settings :: settings
  st_AnalysisMaxRows :: int

record text_redact =
  tr_Patterns :: "string list"
  tr_Fields :: "string list"

record applog_source =
  als_Type :: string
  als_Path :: string
  als_Service :: string
  als_Format :: string
  als_TraceField :: string
  als_SpanField :: string
  als_LevelField :: string
  als_MessageField :: string
  als_RouteField :: string
  als_SpanPattern :: string

record applogs_cfg =
  al_Enabled :: bool
  al_LevelMin :: string
  al_MaxLinesPerSpan :: int
  al_MaxMessageBytes :: int
  al_DropOrphans :: "bool option"
  al_RetentionMaxAge :: int
  al_Redact :: text_redact
  al_Sources :: "applog_source list"

record spans_cfg =
  sp_Enabled :: bool
  sp_MinDuration :: int
  sp_MaxPerRequest :: int
  sp_MaxAttrBytes :: int
  sp_DropOrphans :: "bool option"
  sp_RetentionMaxAge :: int
  sp_Redact :: text_redact

record admin_auth =
  au_Token :: string
  au_TokenEnv :: string
  au_AllowHealth :: "bool option"

record admin_tls =
  tls_CertFile :: string
  tls_KeyFile :: string

record telemetry =
  tel_AdminListen :: string
  tel_CORSOrigins :: "string list"
  tel_ConsoleLog :: "bool option"
  tel_Metrics :: metrics_cfg
  tel_Store :: store_cfg
  tel_Exporters :: "exporter_cfg list"
  tel_Billing :: "billing option"
  tel_AppLogs :: "applogs_cfg option"
  tel_Spans :: "spans_cfg option"
  tel_Auth :: "admin_auth option"
  tel_TLS :: "admin_tls option"

record rule_logs =
  rl_LevelMin :: string
  rl_MaxLinesPerSpan :: int
  rl_Redact :: text_redact
  rl_Drop :: bool

record rule_match =
  m_Path :: string
  m_Methods :: "string list"
  m_GraphQLOperation :: string
  m_Headers :: "string gomap"
  m_Query :: "string gomap"
  m_Body :: "string gomap"

record rule_redact =
  red_Headers :: "string list"
  red_JSONFields :: "string list"
  red_QueryParams :: "string list"

record rule =
  r_Name :: string
  r_Match :: rule_match
  r_Restrict :: "string list"
  r_Redact :: "rule_redact option"
  r_Labels :: "string gomap"
  r_Sample :: "rat option"
  r_KeepErrors :: "bool option"
  r_KeepSlowerThan :: string
  r_Meter :: "string gomap"
  r_Logs :: "rule_logs option"

record config =
  c_Version :: int
  c_Service :: service_cfg
  c_Defaults :: defaults_cfg
  c_Telemetry :: telemetry
  c_Scan :: "detector_cfg list"
  c_Rules :: "rule list"

end
