(* ===== verification/Config.thy ===== *)
theory Config
  imports ConfigTypes
begin

text \<open>
  Loading an \<open>optic.yaml\<close> (\<open>internal/config/config.go\<close>): the defaults \<open>Parse\<close> fills in after the
  YAML decoder, \<open>Validate\<close> with the checks of every section in the order of the source, and the
  accessors the runtime reads the configuration through.  \<open>validate\<close> methods that normalise in
  place return the new value; an error is a constructor of \<open>config_error\<close>, one per \<open>Errorf\<close>.
\<close>

datatype config_error =
    UnsupportedVersion int
  | BadUpstream
  | EmptyAddr string | NotHostPort string | MissingPort string | BadPort string | UnresolvedHost string
  | SpanPattern string | SpanAttrBytes | SpanMinDuration
  | LogPattern nat string | LogSource nat source_error | LogLevel string | LogLines | LogBytes | LogRetention
  | LogsWithoutAppLogs string
  | WildcardNeedsAuth | BadOrigin string
  | PostgresDSN | ClickhouseDSN | UnknownDriver string
  | AuthEmpty | AuthEnvUnset string | TLSIncomplete | TLSMissingFile string
  | AnalysisNegative | AnalysisTooLarge | RetentionBad | RetentionNotPositive
  | ExporterInvalid string exporter_error | ExporterDuplicate string
  | DetectorInvalid string detector_error | DetectorDuplicate string
  | LabelReadsRedacted string string | BodyReadsRedacted string string
  | RuleInvalid string rule_error
  | NeedListen | NeedUpstream
and source_error = StdoutPath | FileNoPath | SourceType | SourceFormat | SourcePattern | SourceGroups nat
and exporter_error =
    ExNoName | ExNoPath | ExBadURL | ExNoCommand | ExUnknownType string | ExFlushInterval
and rule_error =
    PathRequired | PathNotRooted | UnknownMethod nat string | UnknownRestrict string
  | RedactPathBad string | RuleLabelBad string label_error
  | BodyPatternBad string | BodyKeyBad string | HeaderPatternBad string | QueryPatternBad string
  | SampleRange | RuleLogLevel string | RuleLogLines | RuleLogPattern nat string
  | MeterPathBad string | SlowerBad | SlowerNotPositive

subsection \<open>Accessors\<close>

definition cfg_Bool :: "bool option \<Rightarrow> bool" where
  "cfg_Bool v = (case v of None \<Rightarrow> True | Some b \<Rightarrow> b)"

definition Propagate :: "trace_cfg option \<Rightarrow> bool" where
  "Propagate t =
     (case t of None \<Rightarrow> True
      | Some t' \<Rightarrow> (case trc_PropagateUpstream t' of None \<Rightarrow> True | Some b \<Rightarrow> b))"

definition HealthOpen :: "admin_auth option \<Rightarrow> bool" where
  "HealthOpen a =
     (case a of None \<Rightarrow> True
      | Some a' \<Rightarrow> (case au_AllowHealth a' of None \<Rightarrow> True | Some b \<Rightarrow> b))"

definition Resolve :: "sysenv \<Rightarrow> admin_auth option \<Rightarrow> string" where
  "Resolve env a =
     (case a of None \<Rightarrow> []
      | Some a' \<Rightarrow> if au_TokenEnv a' \<noteq> [] then sys_getenv env (au_TokenEnv a') else au_Token a')"

definition DropOrphanLines :: "applogs_cfg option \<Rightarrow> bool" where
  "DropOrphanLines a =
     (case a of None \<Rightarrow> True
      | Some a' \<Rightarrow> (case al_DropOrphans a' of None \<Rightarrow> True | Some b \<Rightarrow> b))"

definition DropOrphanSpans :: "spans_cfg option \<Rightarrow> bool" where
  "DropOrphanSpans s =
     (case s of None \<Rightarrow> True
      | Some s' \<Rightarrow> (case sp_DropOrphans s' of None \<Rightarrow> True | Some b \<Rightarrow> b))"

text \<open>\<open>d, _ := time.ParseDuration(s)\<close>: zero when it does not parse.\<close>

definition duration_or_zero :: "sysenv \<Rightarrow> string \<Rightarrow> int" where
  "duration_or_zero env s = (case sys_duration env s of None \<Rightarrow> 0 | Some d \<Rightarrow> d)"

definition SlowerThan :: "sysenv \<Rightarrow> rule \<Rightarrow> int" where
  "SlowerThan env r =
     (if r_KeepSlowerThan r = [] then 0 else duration_or_zero env (r_KeepSlowerThan r))"

definition MaxAge :: "sysenv \<Rightarrow> store_cfg \<Rightarrow> int" where
  "MaxAge env s = (if st_RetentionMaxAge s = [] then 0 else duration_or_zero env (st_RetentionMaxAge s))"

definition FlushEvery :: "sysenv \<Rightarrow> exporter_cfg \<Rightarrow> int" where
  "FlushEvery env e = duration_or_zero env (ex_FlushInterval e)"

definition LabelValueCap :: "metrics_cfg \<Rightarrow> int" where
  "LabelValueCap m =
     (case met_MaxLabelValues m of None \<Rightarrow> 500 | Some n \<Rightarrow> if n < 0 then 0 else n)"

definition LevelRankKnown :: "string \<Rightarrow> int" where
  "LevelRankKnown level =
     (let l = to_lower (trim_space level)
      in if l = ''trace'' then 0
         else if l = ''debug'' then 1
         else if l \<in> {''info'', ''information'', ''notice''} then 2
         else if l \<in> {''warn'', ''warning''} then 3
         else if l \<in> {''error'', ''err''} then 4
         else if l \<in> {''fatal'', ''critical'', ''crit'', ''panic''} then 5
         else - 1)"

subsection \<open>Addresses\<close>

text \<open>\<open>net.SplitHostPort\<close>: the last colon, one pair of brackets around an IPv6 host.\<close>

definition last_index :: "char \<Rightarrow> string \<Rightarrow> nat option" where
  "last_index c s =
     (if c \<in> set s then Some (length s - 1 - length (takeWhile (\<lambda>d. d \<noteq> c) (rev s))) else None)"

definition SplitHostPort :: "string \<Rightarrow> (string \<times> string) option" where
  "SplitHostPort hostport =
     (case last_index (CHR '':'') hostport of
        None \<Rightarrow> None
      | Some i \<Rightarrow>
          if hd hostport = CHR ''['' then
            (let end = length (takeWhile (\<lambda>d. d \<noteq> CHR '']'') hostport)
             in if length hostport \<le> end \<or> Suc end \<noteq> i then None
                else
                  (let host = take (end - 1) (drop 1 hostport); port = drop (i + 1) hostport
                   in if CHR ''['' \<in> set (drop 1 hostport) \<or> CHR '']'' \<in> set (drop (end + 1) hostport)
                      then None else Some (host, port)))
          else
            (let host = take i hostport
             in if CHR '':'' \<in> set host \<or> CHR ''['' \<in> set hostport \<or> CHR '']'' \<in> set hostport
                then None else Some (host, drop (i + 1) hostport)))"

definition AdminReachable :: "sysenv \<Rightarrow> telemetry \<Rightarrow> bool" where
  "AdminReachable env t =
     (case SplitHostPort (tel_AdminListen t) of
        None \<Rightarrow> True
      | Some (host, _) \<Rightarrow>
          if host = [] then True
          else (case sys_ip env host of None \<Rightarrow> True | Some loopback \<Rightarrow> \<not> loopback))"

definition validateHostPort :: "sysenv \<Rightarrow> string \<Rightarrow> string \<Rightarrow> config_error option" where
  "validateHostPort env fld addr =
     (if addr = [] then Some (EmptyAddr fld)
      else case SplitHostPort addr of
          None \<Rightarrow> Some (NotHostPort fld)
        | Some (host, port) \<Rightarrow>
            if port = [] then Some (MissingPort fld)
            else if \<not> sys_port env port then Some (BadPort fld)
            else if host \<noteq> [] \<and> sys_ip env host = None \<and> \<not> sys_host env host
              then Some (UnresolvedHost fld)
            else None)"

definition RequireProxyAddrs :: "config \<Rightarrow> config_error option" where
  "RequireProxyAddrs c =
     (if svc_Listen (c_Service c) = [] then Some NeedListen
      else if svc_Upstream (c_Service c) = [] then Some NeedUpstream
      else None)"

subsection \<open>Sections\<close>

definition spans_validate :: "sysenv \<Rightarrow> spans_cfg option \<Rightarrow> config_error option" where
  "spans_validate env s =
     (case s of None \<Rightarrow> None
      | Some sp \<Rightarrow>
          (case first_error (\<lambda>p. if sys_regexp env p = None then Some (SpanPattern p) else None)
                  (tr_Patterns (sp_Redact sp)) of
             Some e \<Rightarrow> Some e
           | None \<Rightarrow>
               if sp_MaxAttrBytes sp < 0 then Some SpanAttrBytes
               else if sp_MinDuration sp < 0 then Some SpanMinDuration
               else None))"

definition source_validate :: "sysenv \<Rightarrow> applog_source \<Rightarrow> source_error option" where
  "source_validate env s =
     (if als_Type s = ''stdout'' \<and> als_Path s \<noteq> [] then Some StdoutPath
      else if als_Type s = ''file'' \<and> als_Path s = [] then Some FileNoPath
      else if als_Type s \<notin> {''stdout'', ''file''} then Some SourceType
      else if als_Format s \<notin> {[], ''json'', ''text''} then Some SourceFormat
      else if als_SpanPattern s \<noteq> [] then
        (case sys_regexp env (als_SpanPattern s) of
           None \<Rightarrow> Some SourcePattern
         | Some re \<Rightarrow> if NumSubexp re \<noteq> 1 then Some (SourceGroups (NumSubexp re)) else None)
      else None)"

definition applogs_validate :: "sysenv \<Rightarrow> applogs_cfg option \<Rightarrow> config_error option" where
  "applogs_validate env cfg =
     (case cfg of None \<Rightarrow> None
      | Some a \<Rightarrow>
          (case first_error_from 0
                  (\<lambda>i pat. if sys_regexp env pat = None then Some (LogPattern i pat) else None)
                  (tr_Patterns (al_Redact a)) of
             Some e \<Rightarrow> Some e
           | None \<Rightarrow>
               (case first_error_from 0 (\<lambda>i s. map_option (LogSource i) (source_validate env s))
                       (al_Sources a) of
                  Some e \<Rightarrow> Some e
                | None \<Rightarrow>
                    if al_LevelMin a \<noteq> [] \<and> LevelRankKnown (al_LevelMin a) < 0
                      then Some (LogLevel (al_LevelMin a))
                    else if al_MaxLinesPerSpan a < - 1 then Some LogLines
                    else if al_MaxMessageBytes a < 0 then Some LogBytes
                    else if al_RetentionMaxAge a < 0 then Some LogRetention
                    else None)))"

definition rule_logs_validate :: "sysenv \<Rightarrow> rule_logs option \<Rightarrow> rule_error option" where
  "rule_logs_validate env cfg =
     (case cfg of None \<Rightarrow> None
      | Some l \<Rightarrow>
          if rl_LevelMin l \<noteq> [] \<and> LevelRankKnown (rl_LevelMin l) < 0
            then Some (RuleLogLevel (rl_LevelMin l))
          else if rl_MaxLinesPerSpan l < 0 then Some RuleLogLines
          else first_error_from 0
                 (\<lambda>i pat. if sys_regexp env pat = None then Some (RuleLogPattern i pat) else None)
                 (tr_Patterns (rl_Redact l)))"

definition exporter_defaults :: "exporter_cfg \<Rightarrow> exporter_cfg" where
  "exporter_defaults e =
     e\<lparr>ex_BatchSize := (if ex_BatchSize e \<le> 0 then 50 else ex_BatchSize e),
       ex_FlushInterval := (if ex_FlushInterval e = [] then ''3s'' else ex_FlushInterval e),
       ex_QueueSize := (if ex_QueueSize e \<le> 0 then 1024 else ex_QueueSize e),
       ex_MaxSizeMB := (if ex_MaxSizeMB e \<le> 0 then 100 else ex_MaxSizeMB e)\<rparr>"

definition absolute_url :: "sysenv \<Rightarrow> string \<Rightarrow> bool" where
  "absolute_url env u =
     (case sys_url env u of None \<Rightarrow> False
      | Some (scheme, host, _) \<Rightarrow> scheme \<noteq> [] \<and> host \<noteq> [])"

definition exporter_type_error :: "sysenv \<Rightarrow> exporter_cfg \<Rightarrow> exporter_error option" where
  "exporter_type_error env e =
     (if ex_Type e = ''file'' then (if ex_Path e = [] then Some ExNoPath else None)
      else if ex_Type e = ''webhook'' \<or> ex_Type e = ''otlp'' then
        (if absolute_url env (ex_URL e) then None else Some ExBadURL)
      else if ex_Type e = ''command'' then (if ex_Command e = [] then Some ExNoCommand else None)
      else if ex_Type e \<notin> set (sys_exporters env) then Some (ExUnknownType (ex_Type e))
      else None)"

definition exporter_validate :: "sysenv \<Rightarrow> exporter_cfg \<Rightarrow> exporter_error + exporter_cfg" where
  "exporter_validate env e =
     (if ex_Name e = [] then Inl ExNoName
      else case exporter_type_error env e of
          Some err \<Rightarrow> Inl err
        | None \<Rightarrow>
            if ex_FlushInterval e \<noteq> [] \<and> sys_duration env (ex_FlushInterval e) = None
              then Inl ExFlushInterval
            else Inr (exporter_defaults e))"

text \<open>How an error names an item of a list: by its name, or by its position when it has none.\<close>

definition item_name :: "nat \<Rightarrow> string \<Rightarrow> string" where
  "item_name i name = (if name = [] then ''#'' @ itoa (int i) else name)"

text \<open>The loop over the exporters: validates, normalises, rejects a second exporter of a name.\<close>

fun exporters_validate ::
  "sysenv \<Rightarrow> nat \<Rightarrow> goset \<Rightarrow> exporter_cfg list \<Rightarrow> config_error + exporter_cfg list" where
  "exporters_validate env i seen [] = Inr []"
| "exporters_validate env i seen (e # es) =
     (case exporter_validate env e of
        Inl err \<Rightarrow> Inl (ExporterInvalid (item_name i (ex_Name e)) err)
      | Inr e' \<Rightarrow>
          if ex_Name e \<in> set seen then Inl (ExporterDuplicate (ex_Name e))
          else (case exporters_validate env (Suc i) (ex_Name e # seen) es of
                  Inl err \<Rightarrow> Inl err
                | Inr es' \<Rightarrow> Inr (e' # es')))"

fun detectors_validate :: "sysenv \<Rightarrow> nat \<Rightarrow> goset \<Rightarrow> detector_cfg list \<Rightarrow> config_error option" where
  "detectors_validate env i seen [] = None"
| "detectors_validate env i seen (d # ds) =
     (case NewDetector (sys_regexp env) (dc_Kind d) (dc_Severity d) (dc_Why d) (dc_Pattern d)
             (dc_Verify d) of
        Inl err \<Rightarrow> Some (DetectorInvalid (item_name i (dc_Kind d)) err)
      | Inr _ \<Rightarrow>
          if dc_Kind d \<in> set seen then Some (DetectorDuplicate (dc_Kind d))
          else detectors_validate env (Suc i) (dc_Kind d # seen) ds)"

text \<open>\<open>Config.Detectors\<close>: the configured detectors, compiled.\<close>

fun cfg_Detectors :: "sysenv \<Rightarrow> detector_cfg list \<Rightarrow> config_error + detector list" where
  "cfg_Detectors env [] = Inr []"
| "cfg_Detectors env (d # ds) =
     (case NewDetector (sys_regexp env) (dc_Kind d) (dc_Severity d) (dc_Why d) (dc_Pattern d)
             (dc_Verify d) of
        Inl err \<Rightarrow> Inl (DetectorInvalid (dc_Kind d) err)
      | Inr det \<Rightarrow> (case cfg_Detectors env ds of Inl err \<Rightarrow> Inl err | Inr out \<Rightarrow> Inr (det # out)))"

subsection \<open>Rules\<close>

definition validMethods :: goset where
  "validMethods = [''GET'', ''POST'', ''PUT'', ''PATCH'', ''DELETE'', ''HEAD'', ''OPTIONS'',
     ''TRACE'', ''CONNECT'']"

definition valid_fields :: goset where
  "valid_fields = [FieldRequestBody, FieldResponseBody, FieldHeaders, FieldQuery]"

definition dotted_path :: "string \<Rightarrow> bool" where
  "dotted_path p \<longleftrightarrow> has_prefix p ''$.'' \<and> 2 < length p"

definition rule_match_error :: "sysenv \<Rightarrow> rule_match \<Rightarrow> rule_error option" where
  "rule_match_error env m =
     (case first_error (\<lambda>(jp, pat). if sys_regexp env pat = None then Some (BodyPatternBad jp)
                          else if \<not> has_prefix jp ''$.'' then Some (BodyKeyBad jp) else None) (m_Body m) of
        Some e \<Rightarrow> Some e
      | None \<Rightarrow>
          (case first_error (\<lambda>(name, pat). if sys_regexp env pat = None then Some (HeaderPatternBad name)
                               else None) (m_Headers m) of
             Some e \<Rightarrow> Some e
           | None \<Rightarrow>
               first_error (\<lambda>(name, pat). if sys_regexp env pat = None then Some (QueryPatternBad name)
                              else None) (m_Query m)))"

definition rule_sampling_error :: "sysenv \<Rightarrow> rule \<Rightarrow> rule_error option" where
  "rule_sampling_error env r =
     (if r_KeepSlowerThan r = [] then None
      else case sys_duration env (r_KeepSlowerThan r) of
          None \<Rightarrow> Some SlowerBad
        | Some d \<Rightarrow> if d \<le> 0 then Some SlowerNotPositive else None)"

definition rule_error_of :: "sysenv \<Rightarrow> rule \<Rightarrow> rule_error option" where
  "rule_error_of env r =
     (if m_Path (r_Match r) = [] then Some PathRequired
      else if \<not> has_prefix (m_Path (r_Match r)) ''/'' then Some PathNotRooted
      else case first_error_from 0
             (\<lambda>i m. if to_upper m \<in> set validMethods then None else Some (UnknownMethod i m))
             (m_Methods (r_Match r)) of
        Some e \<Rightarrow> Some e
      | None \<Rightarrow> (case first_error (\<lambda>f. if f \<in> set valid_fields then None else Some (UnknownRestrict f))
                    (r_Restrict r) of
        Some e \<Rightarrow> Some e
      | None \<Rightarrow> (case first_error (\<lambda>p. if dotted_path p then None else Some (RedactPathBad p))
                    (case r_Redact r of None \<Rightarrow> [] | Some red \<Rightarrow> red_JSONFields red) of
        Some e \<Rightarrow> Some e
      | None \<Rightarrow> (case first_error (\<lambda>(key, src). case ParseLabelSource (sys_regexp env) src of
                      Inl e \<Rightarrow> Some (RuleLabelBad key e) | Inr _ \<Rightarrow> None) (r_Labels r) of
        Some e \<Rightarrow> Some e
      | None \<Rightarrow> (case rule_match_error env (r_Match r) of
        Some e \<Rightarrow> Some e
      | None \<Rightarrow>
          if (case r_Sample r of None \<Rightarrow> False | Some s \<Rightarrow> s \<le> 0 \<or> 1 < s) then Some SampleRange
          else case rule_logs_validate env (r_Logs r) of
        Some e \<Rightarrow> Some e
      | None \<Rightarrow> (case first_error (\<lambda>(name, p). if dotted_path p then None else Some (MeterPathBad name))
                    (r_Meter r) of
        Some e \<Rightarrow> Some e
      | None \<Rightarrow> rule_sampling_error env r))))))"

definition normalise_methods :: "rule \<Rightarrow> rule" where
  "normalise_methods r =
     r\<lparr>r_Match := (r_Match r)\<lparr>m_Methods := map to_upper (m_Methods (r_Match r))\<rparr>\<rparr>"

definition rule_validate :: "sysenv \<Rightarrow> rule \<Rightarrow> rule_error + rule" where
  "rule_validate env r =
     (case rule_error_of env r of
        Some e \<Rightarrow> Inl e
      | None \<Rightarrow> Inr (normalise_methods r))"

fun rules_validate :: "sysenv \<Rightarrow> nat \<Rightarrow> rule list \<Rightarrow> config_error + rule list" where
  "rules_validate env i [] = Inr []"
| "rules_validate env i (r # rs) =
     (case rule_validate env r of
        Inl e \<Rightarrow> Inl (RuleInvalid (item_name i (r_Name r)) e)
      | Inr r' \<Rightarrow> (case rules_validate env (Suc i) rs of Inl e \<Rightarrow> Inl e | Inr rs' \<Rightarrow> Inr (r' # rs')))"

subsection \<open>Cross-rule checks\<close>

definition redactedJSONPaths :: "config \<Rightarrow> goset" where
  "redactedJSONPaths c =
     concat (map (\<lambda>r. case r_Redact r of None \<Rightarrow> [] | Some red \<Rightarrow> red_JSONFields red) (c_Rules c))"

definition overlap_error :: "sysenv \<Rightarrow> goset \<Rightarrow> rule \<Rightarrow> config_error option" where
  "overlap_error env redacted r =
     (case first_error (\<lambda>(key, src). case ParseLabelSource (sys_regexp env) src of
                Inl _ \<Rightarrow> None
              | Inr ls \<Rightarrow>
                  if NeedsBody ls \<and> ''$.'' @ join ''.'' (ls_JSONPath ls) \<in> set redacted
                  then Some (LabelReadsRedacted (r_Name r) key) else None) (r_Labels r) of
        Some e \<Rightarrow> Some e
      | None \<Rightarrow>
          first_error (\<lambda>(jp, _). if jp \<in> set redacted then Some (BodyReadsRedacted (r_Name r) jp) else None)
            (m_Body (r_Match r)))"

subsection \<open>The whole document\<close>

definition origin_error :: "sysenv \<Rightarrow> admin_auth option \<Rightarrow> string \<Rightarrow> config_error option" where
  "origin_error env auth origin =
     (if origin = ''*'' then
        (if Resolve env auth = [] then Some WildcardNeedsAuth else None)
      else case sys_url env origin of
          None \<Rightarrow> Some (BadOrigin origin)
        | Some (scheme, host, p) \<Rightarrow>
            if scheme = [] \<or> host = [] \<or> p \<noteq> [] then Some (BadOrigin origin) else None)"

definition store_error :: "sysenv \<Rightarrow> store_cfg \<Rightarrow> config_error option" where
  "store_error env s =
     (if st_Driver s = ''sqlite'' \<or> st_Driver s = ''none'' then None
      else if st_Driver s = ''postgres'' then
        (if \<not> has_prefix (st_DSN s) ''postgres://'' \<and> \<not> has_prefix (st_DSN s) ''postgresql://''
         then Some PostgresDSN else None)
      else if st_Driver s = ''clickhouse'' then
        (if \<not> has_prefix (st_DSN s) ''clickhouse://'' then Some ClickhouseDSN else None)
      else if st_Driver s \<in> set (sys_stores env) then None
      else Some (UnknownDriver (st_Driver s)))"

definition auth_error :: "sysenv \<Rightarrow> admin_auth option \<Rightarrow> config_error option" where
  "auth_error env auth =
     (case auth of None \<Rightarrow> None
      | Some a \<Rightarrow>
          if au_Token a = [] \<and> au_TokenEnv a = [] then Some AuthEmpty
          else if au_TokenEnv a \<noteq> [] \<and> sys_getenv env (au_TokenEnv a) = []
            then Some (AuthEnvUnset (au_TokenEnv a))
          else None)"

definition tls_error :: "sysenv \<Rightarrow> admin_tls option \<Rightarrow> config_error option" where
  "tls_error env tls =
     (case tls of None \<Rightarrow> None
      | Some t \<Rightarrow>
          if tls_CertFile t = [] \<or> tls_KeyFile t = [] then Some TLSIncomplete
          else first_error (\<lambda>f. if sys_stat env f then None else Some (TLSMissingFile f))
                 [tls_CertFile t, tls_KeyFile t])"

definition MaxAnalysisRows :: int where
  "MaxAnalysisRows = 500000"

definition store_limits_error :: "sysenv \<Rightarrow> store_cfg \<Rightarrow> config_error option" where
  "store_limits_error env s =
     (if st_AnalysisMaxRows s < 0 then Some AnalysisNegative
      else if st_AnalysisMaxRows s > MaxAnalysisRows then Some AnalysisTooLarge
      else if st_RetentionMaxAge s \<noteq> [] then
        (case sys_duration env (st_RetentionMaxAge s) of
           None \<Rightarrow> Some RetentionBad
         | Some d \<Rightarrow> if d \<le> 0 then Some RetentionNotPositive else None)
      else None)"

definition logs_block_error :: "telemetry \<Rightarrow> rule \<Rightarrow> config_error option" where
  "logs_block_error t r =
     (if r_Logs r \<noteq> None \<and> (case tel_AppLogs t of None \<Rightarrow> True | Some a \<Rightarrow> \<not> al_Enabled a)
      then Some (LogsWithoutAppLogs (r_Name r)) else None)"

text \<open>The checks up to the exporters, in order; none of them normalises anything.\<close>

definition early_errors :: "sysenv \<Rightarrow> config \<Rightarrow> config_error option list" where
  "early_errors env c =
     (let t = c_Telemetry c; s = c_Service c in
      [if c_Version c \<noteq> 1 then Some (UnsupportedVersion (c_Version c)) else None,
       if svc_Upstream s \<noteq> [] \<and> \<not> absolute_url env (svc_Upstream s) then Some BadUpstream else None,
       if svc_Listen s \<noteq> [] then validateHostPort env ''service.listen'' (svc_Listen s) else None,
       validateHostPort env ''telemetry.admin_listen'' (tel_AdminListen t),
       spans_validate env (tel_Spans t),
       applogs_validate env (tel_AppLogs t),
       first_error (logs_block_error t) (c_Rules c),
       first_error (origin_error env (tel_Auth t)) (tel_CORSOrigins t),
       store_error env (tel_Store t),
       auth_error env (tel_Auth t),
       tls_error env (tel_TLS t),
       store_limits_error env (tel_Store t)])"

definition Validate :: "sysenv \<Rightarrow> config \<Rightarrow> config_error + config" where
  "Validate env c =
     (case first_error (\<lambda>e. e) (early_errors env c) of
        Some e \<Rightarrow> Inl e
      | None \<Rightarrow>
          (case exporters_validate env 0 [] (tel_Exporters (c_Telemetry c)) of
             Inl e \<Rightarrow> Inl e
           | Inr es \<Rightarrow>
               (case detectors_validate env 0 [] (c_Scan c) of
                  Some e \<Rightarrow> Inl e
                | None \<Rightarrow>
                    (case first_error (overlap_error env (redactedJSONPaths c)) (c_Rules c) of
                       Some e \<Rightarrow> Inl e
                     | None \<Rightarrow>
                         (case rules_validate env 0 (c_Rules c) of
                            Inl e \<Rightarrow> Inl e
                          | Inr rs \<Rightarrow>
                              Inr (c\<lparr>c_Telemetry := (c_Telemetry c)\<lparr>tel_Exporters := es\<rparr>,
                                     c_Rules := rs\<rparr>))))))"

definition default_buckets :: "rat list" where
  "default_buckets = [1/1000, 25/10000, 5/1000, 1/100, 25/1000, 5/100, 1/10, 1/4, 1/2, 1, 5/2, 5, 10]"

definition applyTelemetryDefaults :: "telemetry \<Rightarrow> telemetry" where
  "applyTelemetryDefaults t =
     (let s = tel_Store t;
          driver = (if st_Driver s = [] then ''sqlite'' else st_Driver s);
          s' = s\<lparr>st_Driver := driver,
                 st_DSN := (if st_DSN s = [] \<and> driver = ''sqlite'' then ''optictrace.db'' else st_DSN s),
                 st_QueueSize := (if st_QueueSize s \<le> 0 then 4096 else st_QueueSize s),
                 st_RetentionMaxRows :=
                   (if st_RetentionMaxRows s = 0 then 100000 else st_RetentionMaxRows s)\<rparr>;
          m = tel_Metrics t;
          m' = m\<lparr>met_MaxLabelValues :=
                   (case met_MaxLabelValues m of None \<Rightarrow> Some 500 | Some n \<Rightarrow> Some n),
                 met_Buckets := (if met_Buckets m = [] then default_buckets else met_Buckets m)\<rparr>
      in t\<lparr>tel_AdminListen :=
             (if tel_AdminListen t = [] then ''127.0.0.1:9095'' else tel_AdminListen t),
           tel_Store := s',
           tel_Billing := map_option
             (\<lambda>b. b\<lparr>bil_ConsumerLabel :=
                      (if bil_ConsumerLabel b = [] then ''tenant'' else bil_ConsumerLabel b),
                    bil_Currency := (if bil_Currency b = [] then ''USD'' else bil_Currency b)\<rparr>)
             (tel_Billing t),
           tel_Metrics := m'\<rparr>)"

definition DefaultCaptureLimitBytes :: int where
  "DefaultCaptureLimitBytes = 64 * 1024"

text \<open>\<open>Parse\<close> after the YAML decoder: the decoded document in, the usable configuration out.\<close>

definition Parse :: "sysenv \<Rightarrow> config \<Rightarrow> config_error + config" where
  "Parse env c =
     (let d = c_Defaults c;
          c' = c\<lparr>c_Defaults :=
                   (if def_CaptureLimitBytes d = 0
                    then d\<lparr>def_CaptureLimitBytes := DefaultCaptureLimitBytes\<rparr> else d),
                 c_Telemetry := applyTelemetryDefaults (c_Telemetry c)\<rparr>
      in Validate env c')"

definition RestartRequired :: "sysenv \<Rightarrow> config \<Rightarrow> config \<Rightarrow> string list" where
  "RestartRequired env c next =
     (let s = c_Service c; s' = c_Service next; t = c_Telemetry c; t' = c_Telemetry next in
      map snd (filter fst
        [(svc_Listen s \<noteq> svc_Listen s', ''service.listen''),
         (svc_Upstream s \<noteq> svc_Upstream s', ''service.upstream''),
         (svc_HTTP2 s \<noteq> svc_HTTP2 s', ''service.http2''),
         (tel_AdminListen t \<noteq> tel_AdminListen t', ''telemetry.admin_listen''),
         (tel_CORSOrigins t \<noteq> tel_CORSOrigins t', ''telemetry.cors_origins''),
         (Resolve env (tel_Auth t) \<noteq> Resolve env (tel_Auth t'), ''telemetry.auth''),
         (tel_TLS t \<noteq> tel_TLS t', ''telemetry.tls''),
         (tel_Store t \<noteq> tel_Store t', ''telemetry.store''),
         (tel_Exporters t \<noteq> tel_Exporters t', ''telemetry.exporters''),
         (met_Buckets (tel_Metrics t) \<noteq> met_Buckets (tel_Metrics t'), ''telemetry.metrics.buckets''),
         (tel_Billing t \<noteq> tel_Billing t', ''telemetry.billing'')]))"

subsection \<open>What a validated rule is\<close>

definition rule_ok :: "sysenv \<Rightarrow> rule \<Rightarrow> bool" where
  "rule_ok env r \<longleftrightarrow>
     has_prefix (m_Path (r_Match r)) ''/'' \<and>
     set (m_Methods (r_Match r)) \<subseteq> set validMethods \<and>
     set (r_Restrict r) \<subseteq> set valid_fields \<and>
     (\<forall>red. r_Redact r = Some red \<longrightarrow> list_all dotted_path (red_JSONFields red)) \<and>
     list_all (\<lambda>(_, src). \<exists>ls. ParseLabelSource (sys_regexp env) src = Inr ls) (r_Labels r) \<and>
     list_all (\<lambda>(_, pat). sys_regexp env pat \<noteq> None)
       (m_Body (r_Match r) @ m_Headers (r_Match r) @ m_Query (r_Match r)) \<and>
     (\<forall>s. r_Sample r = Some s \<longrightarrow> 0 < s \<and> s \<le> 1) \<and>
     list_all (\<lambda>(_, p). dotted_path p) (r_Meter r) \<and>
     (r_KeepSlowerThan r \<noteq> [] \<longrightarrow> 0 < SlowerThan env r) \<and>
     rule_logs_validate env (r_Logs r) = None"

text \<open>The checks of a rule, one by one.\<close>

lemma rule_error_of_None:
  assumes "rule_error_of env r = None"
  shows "has_prefix (m_Path (r_Match r)) ''/''"
    and "\<forall>j < length (m_Methods (r_Match r)). to_upper (m_Methods (r_Match r) ! j) \<in> set validMethods"
    and "\<forall>f \<in> set (r_Restrict r). f \<in> set valid_fields"
    and "\<forall>p \<in> set (case r_Redact r of None \<Rightarrow> [] | Some red \<Rightarrow> red_JSONFields red). dotted_path p"
    and "\<forall>x \<in> set (r_Labels r). (case x of (key, src) \<Rightarrow>
           case ParseLabelSource (sys_regexp env) src of Inl e \<Rightarrow> Some (RuleLabelBad key e) | Inr _ \<Rightarrow> None) = None"
    and "rule_match_error env (r_Match r) = None"
    and "\<not> (case r_Sample r of None \<Rightarrow> False | Some s \<Rightarrow> s \<le> 0 \<or> 1 < s)"
    and "rule_logs_validate env (r_Logs r) = None"
    and "\<forall>(name, p) \<in> set (r_Meter r). dotted_path p"
    and "rule_sampling_error env r = None"
  using assms
  by (simp_all add: rule_error_of_def first_error_from_None split: if_splits option.splits prod.splits)
     (fastforce split: if_splits)+

lemma rule_validate_ok:
  assumes "rule_validate env r = Inr r'"
  shows "rule_ok env r'"
proof -
  from assms have none: "rule_error_of env r = None"
    and r': "r' = r\<lparr>r_Match := (r_Match r)\<lparr>m_Methods := map to_upper (m_Methods (r_Match r))\<rparr>\<rparr>"
    by (auto simp: rule_validate_def normalise_methods_def split: option.splits)
  note ok = rule_error_of_None [OF none]
  have "set (m_Methods (r_Match r')) \<subseteq> set validMethods"
    using ok(2) by (auto simp: r' in_set_conv_nth)
  moreover have "list_all (\<lambda>(_, src). \<exists>ls. ParseLabelSource (sys_regexp env) src = Inr ls) (r_Labels r')"
    using ok(5) by (fastforce simp: r' list_all_iff split: sum.splits)
  moreover have "list_all (\<lambda>(_, pat). sys_regexp env pat \<noteq> None)
       (m_Body (r_Match r') @ m_Headers (r_Match r') @ m_Query (r_Match r'))"
    using ok(6) by (fastforce simp: r' rule_match_error_def list_all_iff split: option.splits if_splits)
  moreover have "r_KeepSlowerThan r' \<noteq> [] \<longrightarrow> 0 < SlowerThan env r'"
    using ok(10) by (auto simp: r' rule_sampling_error_def SlowerThan_def duration_or_zero_def
        split: option.splits if_splits)
  moreover have "list_all (\<lambda>(_, p). dotted_path p) (r_Meter r')"
    using ok(9) by (auto simp: r' list_all_iff)
  moreover have "\<forall>red. r_Redact r' = Some red \<longrightarrow> list_all dotted_path (red_JSONFields red)"
    using ok(4) by (auto simp: r' list_all_iff)
  moreover have "\<forall>s. r_Sample r' = Some s \<longrightarrow> 0 < s \<and> s \<le> 1"
    using ok(7) by (auto simp: r')
  ultimately show ?thesis
    unfolding rule_ok_def using ok(1,3,8) by (auto simp: r')
qed

lemma rules_validate_ok:
  "rules_validate env i rs = Inr rs' \<Longrightarrow> list_all (rule_ok env) rs' \<and> length rs' = length rs"
proof (induction rs arbitrary: i rs')
  case Nil
  then show ?case by simp
next
  case (Cons r rs)
  then show ?case
    by (auto split: sum.splits dest: rule_validate_ok)
qed

subsection \<open>Loading twice\<close>

lemma normalise_methods_simps [simp]:
  "m_Path (r_Match (normalise_methods r)) = m_Path (r_Match r)"
  "m_Body (r_Match (normalise_methods r)) = m_Body (r_Match r)"
  "m_Headers (r_Match (normalise_methods r)) = m_Headers (r_Match r)"
  "m_Query (r_Match (normalise_methods r)) = m_Query (r_Match r)"
  "m_Methods (r_Match (normalise_methods r)) = map to_upper (m_Methods (r_Match r))"
  "r_Name (normalise_methods r) = r_Name r" "r_Restrict (normalise_methods r) = r_Restrict r"
  "r_Redact (normalise_methods r) = r_Redact r" "r_Labels (normalise_methods r) = r_Labels r"
  "r_Sample (normalise_methods r) = r_Sample r" "r_Logs (normalise_methods r) = r_Logs r"
  "r_Meter (normalise_methods r) = r_Meter r"
  "r_KeepSlowerThan (normalise_methods r) = r_KeepSlowerThan r"
  by (simp_all add: normalise_methods_def)

lemma normalise_methods_idem [simp]: "normalise_methods (normalise_methods r) = normalise_methods r"
  by (simp add: normalise_methods_def o_def)

lemma rule_error_of_normalise: "rule_error_of env r = None \<Longrightarrow> rule_error_of env (normalise_methods r) = None"
proof -
  assume none: "rule_error_of env r = None"
  have "rule_match_error env (r_Match (normalise_methods r)) = rule_match_error env (r_Match r)"
    "rule_sampling_error env (normalise_methods r) = rule_sampling_error env r"
    by (simp_all only: rule_match_error_def rule_sampling_error_def normalise_methods_simps)
  moreover have "first_error_from 0
      (\<lambda>i m. if to_upper m \<in> set validMethods then None else Some (UnknownMethod i m))
      (m_Methods (r_Match (normalise_methods r))) = None"
    using rule_error_of_None(2) [OF none] by (simp add: first_error_from_None)
  ultimately show ?thesis
    using none
    by (simp add: rule_error_of_def del: first_error_None split: if_splits option.splits)
qed

lemma rules_validate_map:
  "rules_validate env i rs = Inr rs' \<Longrightarrow>
     rs' = map normalise_methods rs \<and> rules_validate env j rs' = Inr rs'"
proof (induction rs arbitrary: i j rs')
  case Nil
  then show ?case by simp
next
  case (Cons r rs)
  from Cons.prems obtain rs0 where r: "rule_error_of env r = None"
    and rs0: "rules_validate env (Suc i) rs = Inr rs0" and rs': "rs' = normalise_methods r # rs0"
    by (auto simp: rule_validate_def split: sum.splits option.splits)
  from Cons.IH [OF rs0, of "Suc j"] have map: "rs0 = map normalise_methods rs"
    and again: "rules_validate env (Suc j) rs0 = Inr rs0"
    by auto
  have "rules_validate env j rs' = Inr rs'"
    by (simp add: rs' again rule_validate_def rule_error_of_normalise [OF r])
  with map show ?case by (simp add: rs')
qed

lemma exporter_validate_idem:
  assumes "exporter_validate env e = Inr e'" and "sys_duration env ''3s'' \<noteq> None"
  shows "exporter_validate env e' = Inr e' \<and> ex_Name e' = ex_Name e"
proof -
  from assms(1) have e': "e' = exporter_defaults e" and name: "ex_Name e \<noteq> []"
    and type: "exporter_type_error env e = None"
    and dur: "ex_FlushInterval e \<noteq> [] \<longrightarrow> sys_duration env (ex_FlushInterval e) \<noteq> None"
    by (auto simp: exporter_validate_def split: if_splits option.splits)
  have same: "ex_Type e' = ex_Type e" "ex_Path e' = ex_Path e" "ex_URL e' = ex_URL e"
    "ex_Command e' = ex_Command e"
    by (simp_all add: e' exporter_defaults_def)
  have "exporter_type_error env e' = None"
    using type by (simp only: exporter_type_error_def same)
  moreover have "exporter_defaults e' = e'"
    by (cases e) (simp add: e' exporter_defaults_def)
  moreover have "sys_duration env (ex_FlushInterval e') \<noteq> None"
    using dur assms(2) by (simp add: e' exporter_defaults_def)
  moreover have "ex_Name e' = ex_Name e"
    by (simp add: e' exporter_defaults_def)
  ultimately show ?thesis
    using name by (simp add: exporter_validate_def)
qed

lemma exporters_validate_idem:
  assumes "sys_duration env ''3s'' \<noteq> None"
  shows "exporters_validate env i seen es = Inr es' \<Longrightarrow> exporters_validate env i seen es' = Inr es'"
proof (induction es arbitrary: i seen es')
  case Nil
  then show ?case by simp
next
  case (Cons e es)
  from Cons.prems obtain e' rest where e': "exporter_validate env e = Inr e'"
    and new: "ex_Name e \<notin> set seen"
    and rest: "exporters_validate env (Suc i) (ex_Name e # seen) es = Inr rest" and es': "es' = e' # rest"
    by (auto split: sum.splits if_splits)
  from exporter_validate_idem [OF e' assms] Cons.IH [OF rest] new show ?case
    by (simp add: es')
qed

lemma applyTelemetryDefaults_idem: "applyTelemetryDefaults (applyTelemetryDefaults t) = applyTelemetryDefaults t"
  by (cases t)
     (auto simp: applyTelemetryDefaults_def Let_def default_buckets_def option.map_comp o_def
       split: option.split intro!: option.map_cong)

lemma exporters_defaults_comm:
  "applyTelemetryDefaults (t\<lparr>tel_Exporters := es\<rparr>) = (applyTelemetryDefaults t)\<lparr>tel_Exporters := es\<rparr>"
  by (simp add: applyTelemetryDefaults_def Let_def)

lemma first_error_map: "first_error f (map g xs) = first_error (\<lambda>x. f (g x)) xs"
  by (induction xs) (auto split: option.splits)

lemma Validate_idem:
  assumes "Validate env c = Inr c'" and "sys_duration env ''3s'' \<noteq> None"
  shows "Validate env c' = Inr c'"
proof -
  from assms(1) obtain es rs where early: "first_error (\<lambda>e. e) (early_errors env c) = None"
    and es: "exporters_validate env 0 [] (tel_Exporters (c_Telemetry c)) = Inr es"
    and dets: "detectors_validate env 0 [] (c_Scan c) = None"
    and overlap: "first_error (overlap_error env (redactedJSONPaths c)) (c_Rules c) = None"
    and rs: "rules_validate env 0 (c_Rules c) = Inr rs"
    and c': "c' = c\<lparr>c_Telemetry := (c_Telemetry c)\<lparr>tel_Exporters := es\<rparr>, c_Rules := rs\<rparr>"
    by (auto simp: Validate_def split: option.splits sum.splits)
  from rules_validate_map [OF rs, of 0] have map: "rs = map normalise_methods (c_Rules c)"
    and rs2: "rules_validate env 0 rs = Inr rs"
    by auto
  have "logs_block_error (c_Telemetry c') (normalise_methods r) = logs_block_error (c_Telemetry c) r" for r
    by (simp add: logs_block_error_def c')
  then have "early_errors env c' = early_errors env c"
    by (simp add: early_errors_def c' map first_error_map Let_def)
  moreover have "redactedJSONPaths c' = redactedJSONPaths c"
    by (simp add: redactedJSONPaths_def c' map o_def)
  moreover have "overlap_error env red (normalise_methods r) = overlap_error env red r" for red r
    by (simp only: overlap_error_def normalise_methods_simps)
  ultimately show ?thesis
    using early dets overlap rs2 exporters_validate_idem [OF assms(2) es]
    by (simp add: Validate_def c' map first_error_map del: first_error_None)
qed

text \<open>
  Loading is idempotent: a configuration that was accepted is accepted again unchanged, so
  defaults and normalisation are applied once and for all and the runtime never has to repeat them.
\<close>

theorem Parse_idempotent:
  assumes "Parse env c = Inr c'" and "sys_duration env ''3s'' \<noteq> None"
  shows "Parse env c' = Inr c'"
proof -
  let ?c = "c\<lparr>c_Defaults := (if def_CaptureLimitBytes (c_Defaults c) = 0
        then (c_Defaults c)\<lparr>def_CaptureLimitBytes := DefaultCaptureLimitBytes\<rparr> else c_Defaults c),
      c_Telemetry := applyTelemetryDefaults (c_Telemetry c)\<rparr>"
  from assms(1) have v: "Validate env ?c = Inr c'"
    by (simp add: Parse_def Let_def)
  then obtain es rs where c': "c' = ?c\<lparr>c_Telemetry := (c_Telemetry ?c)\<lparr>tel_Exporters := es\<rparr>, c_Rules := rs\<rparr>"
    by (auto simp: Validate_def split: option.splits sum.splits)
  have "applyTelemetryDefaults (c_Telemetry c') = c_Telemetry c'"
    by (simp add: c' exporters_defaults_comm applyTelemetryDefaults_idem)
  moreover have "def_CaptureLimitBytes (c_Defaults c') \<noteq> 0"
    by (simp add: c' DefaultCaptureLimitBytes_def)
  ultimately have "Parse env c' = Validate env c'"
    by (simp add: Parse_def Let_def)
  with Validate_idem [OF v assms(2)] show ?thesis by simp
qed

text \<open>A small document, for the concrete instances below.\<close>

definition sample_env :: sysenv where
  "sample_env = \<lparr>
     sys_regexp = (\<lambda>p. Some (rlit p)),
     sys_url = (\<lambda>u. if has_prefix u ''http://'' then Some (''http'', drop 7 u, []) else None),
     sys_duration = (\<lambda>s. if s = ''3s'' then Some 3000000000 else None),
     sys_getenv = (\<lambda>_. []), sys_stat = (\<lambda>_. True), sys_port = (\<lambda>p. list_all is_digit p),
     sys_host = (\<lambda>_. False),
     sys_ip = (\<lambda>h. if h = ''127.0.0.1'' then Some True else if h = ''0.0.0.0'' then Some False else None),
     sys_stores = [], sys_exporters = []\<rparr>"

definition empty_match :: rule_match where
  "empty_match = \<lparr>m_Path = ''/'', m_Methods = [], m_GraphQLOperation = [], m_Headers = [], m_Query = [],
     m_Body = []\<rparr>"

definition empty_rule :: rule where
  "empty_rule = \<lparr>r_Name = [], r_Match = empty_match, r_Restrict = [], r_Redact = None, r_Labels = [],
     r_Sample = None, r_KeepErrors = None, r_KeepSlowerThan = [], r_Meter = [], r_Logs = None\<rparr>"

definition sample_rule :: rule where
  "sample_rule = empty_rule\<lparr>r_Name := ''payments'',
     r_Match := empty_match\<lparr>m_Path := ''/api/v1/payments/**'', m_Methods := [''post'']\<rparr>,
     r_Restrict := [''response_body''],
     r_Redact := Some \<lparr>red_Headers = [''authorization''], red_JSONFields = [''$.card.number''],
                       red_QueryParams = [''Token'']\<rparr>,
     r_Labels := [(''tenant'', ''header:X-Tenant-ID'')]\<rparr>"

definition empty_telemetry :: telemetry where
  "empty_telemetry = \<lparr>tel_AdminListen = [], tel_CORSOrigins = [], tel_ConsoleLog = None,
     tel_Metrics = \<lparr>met_Enabled = None, met_Buckets = [], met_MaxLabelValues = None\<rparr>,
     tel_Store = \<lparr>st_Driver = [], st_DSN = [], st_QueueSize = 0, st_RetentionMaxRows = 0,
                 st_RetentionMaxAge = [], st_Settings = [], st_AnalysisMaxRows = 0\<rparr>,
     tel_Exporters = [], tel_Billing = None, tel_AppLogs = None, tel_Spans = None,
     tel_Auth = None, tel_TLS = None\<rparr>"

definition sample_config :: config where
  "sample_config = \<lparr>c_Version = 1,
     c_Service = \<lparr>svc_Name = ''shop'', svc_Listen = '':8080'', svc_Upstream = ''http://app:3000'',
       svc_GraphQLPaths = [], svc_Trace = \<lparr>trc_PropagateUpstream = None, trc_ResponseHeader = []\<rparr>,
       svc_HTTP2 = False\<rparr>,
     c_Defaults = \<lparr>def_Capture = \<lparr>cap_RequestBody = None, cap_ResponseBody = None,
                      cap_Headers = None, cap_Query = None\<rparr>, def_CaptureLimitBytes = 0\<rparr>,
     c_Telemetry = empty_telemetry, c_Scan = [], c_Rules = [sample_rule]\<rparr>"

definition sample_loaded :: config where
  "sample_loaded = sample_config\<lparr>
     c_Defaults := (c_Defaults sample_config)\<lparr>def_CaptureLimitBytes := 65536\<rparr>,
     c_Telemetry := applyTelemetryDefaults empty_telemetry,
     c_Rules := [normalise_methods sample_rule]\<rparr>"

lemma sample_Parse: "Parse sample_env sample_config = Inr sample_loaded"
  by code_simp

theorem Parse_idempotent_witness: "Parse sample_env sample_loaded = Inr sample_loaded"
  by (rule Parse_idempotent [OF sample_Parse]) (simp add: sample_env_def)

subsection \<open>What a loaded configuration guarantees\<close>

lemma exporters_validate_ok:
  "exporters_validate env i seen es = Inr es' \<Longrightarrow>
     distinct (map ex_Name es') \<and> set (map ex_Name es') \<inter> set seen = {} \<and>
     list_all (\<lambda>e. ex_Name e \<noteq> [] \<and> 0 < ex_BatchSize e \<and> 0 < ex_QueueSize e \<and> 0 < ex_MaxSizeMB e) es'"
proof (induction es arbitrary: i seen es')
  case Nil
  then show ?case by simp
next
  case (Cons e es)
  from Cons.prems obtain e' rest where e': "exporter_validate env e = Inr e'"
    and new: "ex_Name e \<notin> set seen" and es': "es' = e' # rest"
    and rest: "exporters_validate env (Suc i) (ex_Name e # seen) es = Inr rest"
    by (auto split: sum.splits if_splits)
  from e' have "e' = exporter_defaults e" "ex_Name e \<noteq> []"
    by (auto simp: exporter_validate_def split: if_splits option.splits)
  with Cons.IH [OF rest] new show ?case
    by (auto simp: es' exporter_defaults_def)
qed

lemma detectors_validate_ok:
  "detectors_validate env i seen ds = None \<Longrightarrow>
     (\<exists>dets. cfg_Detectors env ds = Inr dets \<and> map det_Kind dets = map dc_Kind ds) \<and>
     distinct (map dc_Kind ds) \<and> set (map dc_Kind ds) \<inter> set seen = {}"
proof (induction ds arbitrary: i seen)
  case Nil
  then show ?case by simp
next
  case (Cons d ds)
  then obtain det where det: "NewDetector (sys_regexp env) (dc_Kind d) (dc_Severity d) (dc_Why d)
      (dc_Pattern d) (dc_Verify d) = Inr det"
    and new: "dc_Kind d \<notin> set seen"
    and rest: "detectors_validate env (Suc i) (dc_Kind d # seen) ds = None"
    by (auto split: sum.splits if_splits)
  have "det_Kind det = dc_Kind d"
    using det by (auto simp: NewDetector_def Let_def split: if_splits option.splits)
  with Cons.IH [OF rest] det new show ?case by auto
qed

definition config_ok :: "sysenv \<Rightarrow> config \<Rightarrow> bool" where
  "config_ok env c \<longleftrightarrow>
     (let t = c_Telemetry c in
      c_Version c = 1 \<and> list_all (rule_ok env) (c_Rules c) \<and>
      distinct (map ex_Name (tel_Exporters t)) \<and>
      list_all (\<lambda>e. ex_Name e \<noteq> [] \<and> 0 < ex_BatchSize e \<and> 0 < ex_QueueSize e \<and> 0 < ex_MaxSizeMB e)
        (tel_Exporters t) \<and>
      distinct (map dc_Kind (c_Scan c)) \<and> (\<exists>dets. cfg_Detectors env (c_Scan c) = Inr dets) \<and>
      (''*'' \<in> set (tel_CORSOrigins t) \<longrightarrow> Resolve env (tel_Auth t) \<noteq> []) \<and>
      (tel_Auth t \<noteq> None \<longrightarrow> Resolve env (tel_Auth t) \<noteq> []) \<and>
      (\<forall>r \<in> set (c_Rules c). r_Logs r \<noteq> None \<longrightarrow> (\<exists>a. tel_AppLogs t = Some a \<and> al_Enabled a)))"

lemma early_errors_None:
  assumes "first_error (\<lambda>e. e) (early_errors env c) = None"
  shows "c_Version c = 1"
    and "\<forall>r \<in> set (c_Rules c). logs_block_error (c_Telemetry c) r = None"
    and "\<forall>o' \<in> set (tel_CORSOrigins (c_Telemetry c)). origin_error env (tel_Auth (c_Telemetry c)) o' = None"
    and "auth_error env (tel_Auth (c_Telemetry c)) = None"
proof -
  have "\<forall>x \<in> set (early_errors env c). x = None"
    using assms by (simp only: first_error_None)
  note all = this [unfolded early_errors_def Let_def, simplified]
  from all show "c_Version c = 1"
    by (simp split: if_splits)
  from all show "\<forall>r \<in> set (c_Rules c). logs_block_error (c_Telemetry c) r = None"
    "\<forall>o' \<in> set (tel_CORSOrigins (c_Telemetry c)). origin_error env (tel_Auth (c_Telemetry c)) o' = None"
    "auth_error env (tel_Auth (c_Telemetry c)) = None"
    by simp_all
qed

lemma Validate_ok:
  assumes "Validate env c = Inr c'"
  shows "config_ok env c'"
proof -
  from assms obtain es rs where early: "first_error (\<lambda>e. e) (early_errors env c) = None"
    and es: "exporters_validate env 0 [] (tel_Exporters (c_Telemetry c)) = Inr es"
    and dets: "detectors_validate env 0 [] (c_Scan c) = None"
    and rs: "rules_validate env 0 (c_Rules c) = Inr rs"
    and c': "c' = c\<lparr>c_Telemetry := (c_Telemetry c)\<lparr>tel_Exporters := es\<rparr>, c_Rules := rs\<rparr>"
    by (auto simp: Validate_def split: option.splits sum.splits)
  note ok = early_errors_None [OF early]
  have map: "rs = map normalise_methods (c_Rules c)"
    using rules_validate_map [OF rs] by blast
  have "r_Logs r \<noteq> None \<longrightarrow> (\<exists>a. tel_AppLogs (c_Telemetry c) = Some a \<and> al_Enabled a)"
    if "r \<in> set rs" for r
    using that ok(2) by (auto simp: map logs_block_error_def split: if_splits option.splits)
  moreover have "tel_Auth (c_Telemetry c) \<noteq> None \<longrightarrow> Resolve env (tel_Auth (c_Telemetry c)) \<noteq> []"
    using ok(4) by (auto simp: auth_error_def Resolve_def split: if_splits)
  moreover have "''*'' \<in> set (tel_CORSOrigins (c_Telemetry c)) \<longrightarrow> Resolve env (tel_Auth (c_Telemetry c)) \<noteq> []"
    using ok(3) by (auto simp: origin_error_def split: if_splits)
  ultimately show ?thesis
    using ok(1) rules_validate_ok [OF rs] exporters_validate_ok [OF es] detectors_validate_ok [OF dets]
    by (auto simp: config_ok_def c')
qed

text \<open>
  C18. Whatever the loader accepts, the runtime can trust: every rule is rooted, its methods, fields,
  paths, expressions, sample and thresholds are in range, exporters are named apart and have
  positive sizes, the scan detectors compile, a wildcard origin is never accepted without a token,
  an auth block never resolves to the empty token, and no per-rule log policy is silently ignored.
\<close>

theorem Parse_config_ok:
  assumes "Parse env c = Inr c'"
  shows "config_ok env c'"
  using assms Validate_ok by (auto simp: Parse_def Let_def)

theorem Parse_config_ok_witness: "config_ok sample_env sample_loaded"
  by (rule Parse_config_ok [OF sample_Parse])

lemma Validate_telemetry:
  assumes "Validate env c = Inr c'"
  shows "\<exists>es. c_Telemetry c' = (c_Telemetry c)\<lparr>tel_Exporters := es\<rparr>"
proof -
  from assms obtain es rs where
    "c' = c\<lparr>c_Telemetry := (c_Telemetry c)\<lparr>tel_Exporters := es\<rparr>, c_Rules := rs\<rparr>"
    by (auto simp: Validate_def split: option.splits sum.splits)
  then have "c_Telemetry c' = (c_Telemetry c)\<lparr>tel_Exporters := es\<rparr>" by simp
  then show ?thesis ..
qed

text \<open>
  A document that says nothing about the admin address is never reachable from outside: the
  loader fills in a loopback address.
\<close>

theorem admin_closed_by_default:
  assumes "Parse env c = Inr c'" and "tel_AdminListen (c_Telemetry c) = []"
    and "sys_ip env ''127.0.0.1'' = Some True"
  shows "\<not> AdminReachable env (c_Telemetry c')"
proof -
  from assms(1) obtain es where
    "c_Telemetry c' = (applyTelemetryDefaults (c_Telemetry c))\<lparr>tel_Exporters := es\<rparr>"
    using Validate_telemetry by (fastforce simp: Parse_def Let_def)
  then have "tel_AdminListen (c_Telemetry c') = ''127.0.0.1:9095''"
    using assms(2) by (simp add: applyTelemetryDefaults_def Let_def)
  moreover have "SplitHostPort ''127.0.0.1:9095'' = Some (''127.0.0.1'', ''9095'')"
    by code_simp
  ultimately show ?thesis
    using assms(3) by (simp add: AdminReachable_def)
qed

theorem admin_closed_by_default_witness: "\<not> AdminReachable sample_env (c_Telemetry sample_loaded)"
  by (rule admin_closed_by_default [OF sample_Parse])
     (simp_all add: sample_config_def empty_telemetry_def sample_env_def)

text \<open>
  A reload reports nothing about the log and span policies it does not apply: two
  configurations that differ in \<open>telemetry.app_logs\<close>, \<open>telemetry.spans\<close>, \<open>service.graphql_paths\<close>,
  \<open>service.trace\<close> and \<open>scan\<close> need no restart by \<open>RestartRequired\<close>, although only the rule engine
  and the metric labels are swapped.
\<close>

theorem RestartRequired_misses:
  "RestartRequired env c
     (c\<lparr>c_Telemetry := (c_Telemetry c)\<lparr>tel_AppLogs := logs, tel_Spans := spans\<rparr>,
        c_Service := (c_Service c)\<lparr>svc_GraphQLPaths := paths, svc_Trace := trace\<rparr>,
        c_Scan := detectors\<rparr>) = []"
  by (simp add: RestartRequired_def Let_def)

end
