(* ===== verification/Engine.thy ===== *)
theory Engine
  imports Config Glob
begin

text \<open>
  The rule engine (\<open>internal/engine/engine.go\<close>): compiling a configuration (\<open>New\<close>), deciding which
  rules apply to what is known of a request (\<open>criteriaMatch\<close>, the guards of \<open>evaluate\<close>) and merging
  them into one \<open>policy\<close>, with the questions the interceptor asks of the engine.
\<close>

record policy =
  pol_CaptureRequestBody :: bool
  pol_CaptureResponseBody :: bool
  pol_CaptureHeaders :: bool
  pol_CaptureQuery :: bool
  pol_CaptureLimitBytes :: int
  pol_RedactHeaders :: goset
  pol_RedactQuery :: goset
  pol_RedactJSONPaths :: "string list list"
  pol_Labels :: "label_source gomap"
  pol_MatchedRules :: "string list"
  pol_RoutePattern :: string
  pol_SampleRate :: rat
  pol_KeepErrors :: bool
  pol_KeepSlowerThan :: int
  pol_Meters :: "string list list gomap"

definition CapturesAnything :: "policy \<Rightarrow> bool" where
  "CapturesAnything p \<longleftrightarrow> pol_CaptureRequestBody p \<or> pol_CaptureResponseBody p \<or> pol_CaptureHeaders p"

definition TailSampled :: "policy \<Rightarrow> bool" where
  "TailSampled p \<longleftrightarrow> pol_KeepErrors p \<or> pol_KeepSlowerThan p > 0"

definition KeepBody :: "policy \<Rightarrow> bool \<Rightarrow> int \<Rightarrow> int \<Rightarrow> bool" where
  "KeepBody p drew status elapsed =
     (if drew then True
      else if pol_KeepErrors p \<and> status \<ge> 500 then True
      else if pol_KeepSlowerThan p > 0 \<and> elapsed \<ge> pol_KeepSlowerThan p then True
      else False)"

record compiled_rule =
  cr_name :: string
  cr_rawPattern :: string
  cr_gqlOp :: string
  cr_sample :: "rat option"
  cr_keepErrors :: "bool option"
  cr_keepSlower :: int
  cr_pathSegs :: "string list"
  cr_methods :: "goset option"
  cr_hdrCriteria :: "rx gomap"
  cr_qryCriteria :: "rx gomap"
  cr_bodyCriteria :: "rx gomap"
  cr_bodyPaths :: "string list gomap"
  cr_restrict :: "string list"
  cr_redactHdrs :: "string list"
  cr_redactQuery :: "string list"
  cr_redactPaths :: "string list list"
  cr_labels :: "label_source gomap"
  cr_meters :: "string list gomap"

record engine =
  eng_defaults :: defaults_cfg
  eng_rules :: "compiled_rule list"

subsection \<open>Compilation\<close>

text \<open>The expressions of a criteria map that compile, under the key the engine looks them up by.\<close>

definition compile_criteria ::
  "(string \<Rightarrow> rx option) \<Rightarrow> (string \<Rightarrow> string) \<Rightarrow> string gomap \<Rightarrow> rx gomap" where
  "compile_criteria rcomp key m =
     fold (\<lambda>(name, pat) acc. case rcomp pat of None \<Rightarrow> acc | Some re \<Rightarrow> store (key name) re acc) m []"

definition compile_labels :: "(string \<Rightarrow> rx option) \<Rightarrow> string gomap \<Rightarrow> label_source gomap" where
  "compile_labels rcomp m =
     fold (\<lambda>(k, src) acc. case ParseLabelSource rcomp src of Inl _ \<Rightarrow> acc | Inr ls \<Rightarrow> store k ls acc) m []"

definition compile_rule :: "sysenv \<Rightarrow> rule \<Rightarrow> compiled_rule" where
  "compile_rule env r =
     (let m = r_Match r;
          body = compile_criteria (sys_regexp env) (\<lambda>n. n) (m_Body m)
      in \<lparr>cr_name = r_Name r,
          cr_rawPattern = m_Path m,
          cr_gqlOp = m_GraphQLOperation m,
          cr_sample = r_Sample r,
          cr_keepErrors = r_KeepErrors r,
          cr_keepSlower = SlowerThan env r,
          cr_pathSegs = splitPath (m_Path m),
          cr_methods = (if m_Methods m = [] then None else Some (m_Methods m)),
          cr_hdrCriteria = compile_criteria (sys_regexp env) CanonicalHeaderKey (m_Headers m),
          cr_qryCriteria = compile_criteria (sys_regexp env) (\<lambda>n. n) (m_Query m),
          cr_bodyCriteria = body,
          cr_bodyPaths = map (\<lambda>jp. (jp, SplitJSONPath jp)) (keys body),
          cr_restrict = r_Restrict r,
          cr_redactHdrs =
            (case r_Redact r of None \<Rightarrow> [] | Some red \<Rightarrow> map CanonicalHeaderKey (red_Headers red)),
          cr_redactQuery =
            (case r_Redact r of None \<Rightarrow> [] | Some red \<Rightarrow> map to_lower (red_QueryParams red)),
          cr_redactPaths =
            (case r_Redact r of None \<Rightarrow> []
             | Some red \<Rightarrow> map (\<lambda>jp. split_on (CHR ''.'') (trim_prefix jp ''$.'')) (red_JSONFields red)),
          cr_labels = compile_labels (sys_regexp env) (r_Labels r),
          cr_meters =
            map (\<lambda>(name, jp). (name, split_on (CHR ''.'') (trim_prefix jp ''$.''))) (r_Meter r)\<rparr>)"

definition engine_New :: "sysenv \<Rightarrow> config \<Rightarrow> engine" where
  "engine_New env cfg =
     \<lparr>eng_defaults =
        (if def_CaptureLimitBytes (c_Defaults cfg) \<le> 0
         then (c_Defaults cfg)\<lparr>def_CaptureLimitBytes := DefaultCaptureLimitBytes\<rparr>
         else c_Defaults cfg),
      eng_rules = map (compile_rule env) (c_Rules cfg)\<rparr>"

subsection \<open>Evaluation\<close>

text \<open>What a caller knows of a request; a nil map is None, a body not read yet is \<open>at_BodyKnown\<close>.\<close>

record attrs =
  at_Method :: string
  at_Path :: string
  at_Headers :: "header option"
  at_Query :: "url_values option"
  at_Operation :: string
  at_Body :: json
  at_BodyKnown :: bool

definition AttrsOf :: "http_request \<Rightarrow> attrs" where
  "AttrsOf r = \<lparr>at_Method = req_Method r, at_Path = req_Path r, at_Headers = Some (req_Header r),
     at_Query = Some (fst (ParseQuery (req_RawQuery r))), at_Operation = [], at_Body = JNull,
     at_BodyKnown = False\<rparr>"

definition headers_match :: "header option \<Rightarrow> rx gomap \<Rightarrow> bool" where
  "headers_match headers criteria \<longleftrightarrow>
     list_all (\<lambda>(name, re). case headers of None \<Rightarrow> False
                 | Some h \<Rightarrow> MatchString re (header_Get h name)) criteria"

definition query_match :: "url_values option \<Rightarrow> rx gomap \<Rightarrow> bool" where
  "query_match query criteria \<longleftrightarrow>
     list_all (\<lambda>(name, re). case query of None \<Rightarrow> False
                 | Some q \<Rightarrow> MatchString re (values_Get q name)) criteria"

definition body_match :: "bool \<Rightarrow> json \<Rightarrow> string list gomap \<Rightarrow> rx gomap \<Rightarrow> bool" where
  "body_match known body paths criteria \<longleftrightarrow>
     list_all (\<lambda>(jp, re).
         if \<not> known then False
         else let path = (case lookup paths jp of None \<Rightarrow> [] | Some p \<Rightarrow> p);
                  v = (case FirstString body path of None \<Rightarrow> [] | Some s \<Rightarrow> s)
              in MatchString re v) criteria"

definition criteriaMatch :: "compiled_rule \<Rightarrow> attrs \<Rightarrow> bool" where
  "criteriaMatch r a \<longleftrightarrow>
     headers_match (at_Headers a) (cr_hdrCriteria r) \<and>
     query_match (at_Query a) (cr_qryCriteria r) \<and>
     body_match (at_BodyKnown a) (at_Body a) (cr_bodyPaths r) (cr_bodyCriteria r)"

lemma criteria_unknown [simp]:
  "headers_match None cs \<longleftrightarrow> cs = []" "query_match None cs \<longleftrightarrow> cs = []"
  "body_match False d ps cs \<longleftrightarrow> cs = []"
  by (cases cs; auto simp: headers_match_def query_match_def body_match_def)+

lemma criteria_none [simp]:
  "headers_match h []" "query_match q []" "body_match k d ps []"
  by (simp_all add: headers_match_def query_match_def body_match_def)

text \<open>The guards at the head of the loop of \<open>evaluate\<close>: whether a rule is merged at all.\<close>

definition rule_applies :: "attrs \<Rightarrow> compiled_rule \<Rightarrow> bool" where
  "rule_applies a r =
     (if (case cr_methods r of None \<Rightarrow> False | Some ms \<Rightarrow> at_Method a \<notin> set ms) then False
      else if \<not> matchSegments (cr_pathSegs r) (splitPath (at_Path a)) then False
      else if \<not> criteriaMatch r a then False
      else if cr_gqlOp r \<noteq> [] \<and>
         (at_Operation a = [] \<or> \<not> matchSegments (splitPath (cr_gqlOp r)) (splitPath (at_Operation a)))
        then False
      else True)"

definition restrict_field :: "string \<Rightarrow> policy \<Rightarrow> policy" where
  "restrict_field f p =
     (if f = FieldRequestBody then p\<lparr>pol_CaptureRequestBody := False\<rparr>
      else if f = FieldResponseBody then p\<lparr>pol_CaptureResponseBody := False\<rparr>
      else if f = FieldHeaders then p\<lparr>pol_CaptureHeaders := False\<rparr>
      else if f = FieldQuery then p\<lparr>pol_CaptureQuery := False\<rparr>
      else p)"

definition add_meter :: "string \<times> string list \<Rightarrow> string list list gomap \<Rightarrow> string list list gomap" where
  "add_meter m ms =
     (case m of (name, path) \<Rightarrow>
        store name ((case lookup ms name of None \<Rightarrow> [] | Some ps \<Rightarrow> ps) @ [path]) ms)"

text \<open>The body of the loop: one matching rule merged into the policy.\<close>

definition merge_rule :: "compiled_rule \<Rightarrow> policy \<Rightarrow> policy" where
  "merge_rule r p0 =
     (let p1 = p0\<lparr>pol_MatchedRules := pol_MatchedRules p0 @ [cr_name r],
                  pol_RoutePattern := cr_rawPattern r,
                  pol_SampleRate := (case cr_sample r of None \<Rightarrow> pol_SampleRate p0 | Some s \<Rightarrow> s),
                  pol_KeepErrors := (case cr_keepErrors r of None \<Rightarrow> pol_KeepErrors p0 | Some b \<Rightarrow> b),
                  pol_KeepSlowerThan :=
                    (if cr_keepSlower r > 0 then cr_keepSlower r else pol_KeepSlowerThan p0)\<rparr>;
          p2 = fold restrict_field (cr_restrict r) p1
      in p2\<lparr>pol_RedactHeaders := add_all (cr_redactHdrs r) (pol_RedactHeaders p2),
            pol_RedactQuery := add_all (cr_redactQuery r) (pol_RedactQuery p2),
            pol_RedactJSONPaths := pol_RedactJSONPaths p2 @ cr_redactPaths r,
            pol_Labels := store_all (cr_labels r) (pol_Labels p2),
            pol_Meters := fold add_meter (cr_meters r) (pol_Meters p2)\<rparr>)"

definition default_policy :: "defaults_cfg \<Rightarrow> policy" where
  "default_policy d =
     \<lparr>pol_CaptureRequestBody = cfg_Bool (cap_RequestBody (def_Capture d)),
      pol_CaptureResponseBody = cfg_Bool (cap_ResponseBody (def_Capture d)),
      pol_CaptureHeaders = cfg_Bool (cap_Headers (def_Capture d)),
      pol_CaptureQuery = cfg_Bool (cap_Query (def_Capture d)),
      pol_CaptureLimitBytes = def_CaptureLimitBytes d,
      pol_RedactHeaders = [], pol_RedactQuery = [], pol_RedactJSONPaths = [], pol_Labels = [],
      pol_MatchedRules = [], pol_RoutePattern = [], pol_SampleRate = 1, pol_KeepErrors = False,
      pol_KeepSlowerThan = 0, pol_Meters = []\<rparr>"

definition evaluate :: "engine \<Rightarrow> attrs \<Rightarrow> policy" where
  "evaluate e a =
     fold (\<lambda>r p. if rule_applies a r then merge_rule r p else p) (eng_rules e)
       (default_policy (eng_defaults e))"

definition Evaluate :: "engine \<Rightarrow> string \<Rightarrow> string \<Rightarrow> policy" where
  "Evaluate e method urlPath =
     evaluate e \<lparr>at_Method = method, at_Path = urlPath, at_Headers = None, at_Query = None,
       at_Operation = [], at_Body = JNull, at_BodyKnown = False\<rparr>"

definition EvaluateOp :: "engine \<Rightarrow> string \<Rightarrow> string \<Rightarrow> string \<Rightarrow> policy" where
  "EvaluateOp e method urlPath operation =
     evaluate e \<lparr>at_Method = method, at_Path = urlPath, at_Headers = None, at_Query = None,
       at_Operation = operation, at_Body = JNull, at_BodyKnown = False\<rparr>"

subsection \<open>Questions about the rule set\<close>

definition BodyRulePaths :: "engine \<Rightarrow> string list list" where
  "BodyRulePaths e =
     map cr_pathSegs
       (filter (\<lambda>r. cr_bodyCriteria r \<noteq> [] \<or> list_ex (\<lambda>(_, ls). ls_Kind ls = ''json'') (cr_labels r))
         (eng_rules e))"

definition NeedsResponseBody :: "engine \<Rightarrow> bool" where
  "NeedsResponseBody e \<longleftrightarrow>
     list_ex (\<lambda>r. list_ex (\<lambda>(_, ls). label_NeedsResponseBody ls) (cr_labels r)) (eng_rules e)"

definition HasCriteriaRules :: "engine \<Rightarrow> bool" where
  "HasCriteriaRules e \<longleftrightarrow>
     list_ex (\<lambda>r. cr_hdrCriteria r \<noteq> [] \<or> cr_qryCriteria r \<noteq> []) (eng_rules e)"

definition HasGraphQLRules :: "engine \<Rightarrow> bool" where
  "HasGraphQLRules e \<longleftrightarrow> list_ex (\<lambda>r. cr_gqlOp r \<noteq> []) (eng_rules e)"

definition LabelKeys :: "engine \<Rightarrow> string list" where
  "LabelKeys e = sort (remdups (concat (map (\<lambda>r. keys (cr_labels r)) (eng_rules e))))"

subsection \<open>Merging\<close>

named_theorems policy_fields "how the fields of a policy develop along the loop of evaluate"

definition matched :: "engine \<Rightarrow> attrs \<Rightarrow> compiled_rule list" where
  "matched e a = filter (rule_applies a) (eng_rules e)"

lemma evaluate_fold: "evaluate e a = fold merge_rule (matched e a) (default_policy (eng_defaults e))"
proof -
  have "fold (\<lambda>r p. if rule_applies a r then merge_rule r p else p) rs q =
      fold merge_rule (filter (rule_applies a) rs) q" for rs q
    by (induction rs arbitrary: q) auto
  then show ?thesis by (simp add: evaluate_def matched_def)
qed

lemma restrict_fields [simp]:
  "pol_CaptureRequestBody (fold restrict_field fs p) \<longleftrightarrow>
     pol_CaptureRequestBody p \<and> FieldRequestBody \<notin> set fs"
  "pol_CaptureResponseBody (fold restrict_field fs p) \<longleftrightarrow>
     pol_CaptureResponseBody p \<and> FieldResponseBody \<notin> set fs"
  "pol_CaptureHeaders (fold restrict_field fs p) \<longleftrightarrow> pol_CaptureHeaders p \<and> FieldHeaders \<notin> set fs"
  "pol_CaptureQuery (fold restrict_field fs p) \<longleftrightarrow> pol_CaptureQuery p \<and> FieldQuery \<notin> set fs"
  by (induction fs arbitrary: p) (auto simp: restrict_field_def)

lemma restrict_other [simp]:
  "pol_CaptureLimitBytes (fold restrict_field fs p) = pol_CaptureLimitBytes p"
  "pol_RedactHeaders (fold restrict_field fs p) = pol_RedactHeaders p"
  "pol_RedactQuery (fold restrict_field fs p) = pol_RedactQuery p"
  "pol_RedactJSONPaths (fold restrict_field fs p) = pol_RedactJSONPaths p"
  "pol_Labels (fold restrict_field fs p) = pol_Labels p"
  "pol_MatchedRules (fold restrict_field fs p) = pol_MatchedRules p"
  "pol_RoutePattern (fold restrict_field fs p) = pol_RoutePattern p"
  "pol_SampleRate (fold restrict_field fs p) = pol_SampleRate p"
  "pol_KeepErrors (fold restrict_field fs p) = pol_KeepErrors p"
  "pol_KeepSlowerThan (fold restrict_field fs p) = pol_KeepSlowerThan p"
  "pol_Meters (fold restrict_field fs p) = pol_Meters p"
  by (induction fs arbitrary: p) (auto simp: restrict_field_def)

lemma merge_capture [policy_fields]:
  "pol_CaptureRequestBody (fold merge_rule rs p) \<longleftrightarrow>
     pol_CaptureRequestBody p \<and> (\<forall>r \<in> set rs. FieldRequestBody \<notin> set (cr_restrict r))"
  "pol_CaptureResponseBody (fold merge_rule rs p) \<longleftrightarrow>
     pol_CaptureResponseBody p \<and> (\<forall>r \<in> set rs. FieldResponseBody \<notin> set (cr_restrict r))"
  "pol_CaptureHeaders (fold merge_rule rs p) \<longleftrightarrow>
     pol_CaptureHeaders p \<and> (\<forall>r \<in> set rs. FieldHeaders \<notin> set (cr_restrict r))"
  "pol_CaptureQuery (fold merge_rule rs p) \<longleftrightarrow>
     pol_CaptureQuery p \<and> (\<forall>r \<in> set rs. FieldQuery \<notin> set (cr_restrict r))"
  by (induction rs arbitrary: p) (auto simp: merge_rule_def Let_def)

lemma merge_redact [policy_fields]:
  "set (pol_RedactHeaders (fold merge_rule rs p)) =
     set (pol_RedactHeaders p) \<union> (\<Union>r \<in> set rs. set (cr_redactHdrs r))"
  "set (pol_RedactQuery (fold merge_rule rs p)) =
     set (pol_RedactQuery p) \<union> (\<Union>r \<in> set rs. set (cr_redactQuery r))"
  "pol_RedactJSONPaths (fold merge_rule rs p) =
     pol_RedactJSONPaths p @ concat (map cr_redactPaths rs)"
  by (induction rs arbitrary: p) (auto simp: merge_rule_def Let_def)

lemma merge_trace [policy_fields]:
  "pol_MatchedRules (fold merge_rule rs p) = pol_MatchedRules p @ map cr_name rs"
  "pol_RoutePattern (fold merge_rule rs p) =
     (if rs = [] then pol_RoutePattern p else cr_rawPattern (last rs))"
  "pol_CaptureLimitBytes (fold merge_rule rs p) = pol_CaptureLimitBytes p"
  by (induction rs arbitrary: p) (auto simp: merge_rule_def Let_def)

text \<open>The last setting wins: the value of the last rule that has one.\<close>

definition last_set :: "('a \<Rightarrow> 'b option) \<Rightarrow> 'a list \<Rightarrow> 'b \<Rightarrow> 'b" where
  "last_set f rs d = (case first_some f (rev rs) of None \<Rightarrow> d | Some v \<Rightarrow> v)"

lemma first_some_append:
  "first_some f (xs @ ys) = (case first_some f xs of None \<Rightarrow> first_some f ys | Some v \<Rightarrow> Some v)"
  by (induction xs) (auto simp del: first_some_None split: option.split)

lemma last_set_Cons: "last_set f (r # rs) d = last_set f rs (case f r of None \<Rightarrow> d | Some v \<Rightarrow> v)"
  by (auto simp: last_set_def first_some_append simp del: first_some_None split: option.split)

lemma last_set_Nil [simp]: "last_set f [] d = d"
  by (simp add: last_set_def)

lemma merge_sampling [policy_fields]:
  "pol_SampleRate (fold merge_rule rs p) = last_set cr_sample rs (pol_SampleRate p)"
  "pol_KeepErrors (fold merge_rule rs p) = last_set cr_keepErrors rs (pol_KeepErrors p)"
  "pol_KeepSlowerThan (fold merge_rule rs p) =
     last_set (\<lambda>r. if cr_keepSlower r > 0 then Some (cr_keepSlower r) else None) rs
       (pol_KeepSlowerThan p)"
  by (induction rs arbitrary: p) (auto simp: merge_rule_def Let_def last_set_Cons)

lemma merge_labels [policy_fields]:
  "lookup (pol_Labels (fold merge_rule rs p)) k =
     last_set (\<lambda>r. map_option Some (lookup (rev (cr_labels r)) k)) rs (lookup (pol_Labels p) k)"
  by (induction rs arbitrary: p)
     (auto simp: merge_rule_def Let_def last_set_Cons lookup_store_all split: option.splits)

lemma keys_merge_labels [policy_fields]:
  "fst ` set (pol_Labels (fold merge_rule rs p)) =
     fst ` set (pol_Labels p) \<union> (\<Union>r \<in> set rs. fst ` set (cr_labels r))"
  by (induction rs arbitrary: p) (auto simp: merge_rule_def Let_def keys_store_all)


text \<open>
  Labels follow the last rule that declares them, and never leave the label schema: every label
  of every policy is one of the sorted, distinct \<open>LabelKeys\<close> the metrics are built from.
\<close>

theorem evaluate_labels:
  "lookup (pol_Labels (evaluate e a)) k =
     last_set (\<lambda>r. map_option Some (lookup (rev (cr_labels r)) k)) (matched e a) None \<and>
   set (keys (pol_Labels (evaluate e a))) \<subseteq> set (LabelKeys e) \<and>
   sorted (LabelKeys e) \<and> distinct (LabelKeys e)"
  by (auto simp: evaluate_fold policy_fields default_policy_def LabelKeys_def matched_def)

subsection \<open>Knowing more\<close>

text \<open>What a caller learns between two evaluations of one request.\<close>

definition learns :: "attrs \<Rightarrow> attrs \<Rightarrow> bool" where
  "learns a b \<longleftrightarrow>
     at_Method b = at_Method a \<and> at_Path b = at_Path a \<and>
     (at_Headers a = None \<or> at_Headers b = at_Headers a) \<and>
     (at_Query a = None \<or> at_Query b = at_Query a) \<and>
     (at_Operation a = [] \<or> at_Operation b = at_Operation a) \<and>
     (at_BodyKnown a \<longrightarrow> at_BodyKnown b \<and> at_Body b = at_Body a)"

lemma criteriaMatch_learns:
  assumes "learns a b" and "criteriaMatch r a"
  shows "criteriaMatch r b"
proof -
  have "headers_match (at_Headers b) (cr_hdrCriteria r)" "query_match (at_Query b) (cr_qryCriteria r)"
    using assms by (auto simp: learns_def criteriaMatch_def)
  moreover have "body_match (at_BodyKnown b) (at_Body b) (cr_bodyPaths r) (cr_bodyCriteria r)"
    using assms by (cases "at_BodyKnown a") (auto simp: learns_def criteriaMatch_def)
  ultimately show ?thesis
    by (simp add: criteriaMatch_def)
qed

lemma rule_applies_iff:
  "rule_applies a r \<longleftrightarrow>
     (\<forall>ms. cr_methods r = Some ms \<longrightarrow> at_Method a \<in> set ms) \<and>
     matchSegments (cr_pathSegs r) (splitPath (at_Path a)) \<and> criteriaMatch r a \<and>
     (cr_gqlOp r = [] \<or>
      (at_Operation a \<noteq> [] \<and> matchSegments (splitPath (cr_gqlOp r)) (splitPath (at_Operation a))))"
  by (auto simp: rule_applies_def split: option.splits)

lemma rule_applies_learns:
  assumes "learns a b" and "rule_applies a r"
  shows "rule_applies b r"
proof -
  have "at_Method b = at_Method a" "at_Path b = at_Path a"
    "at_Operation a \<noteq> [] \<longrightarrow> at_Operation b = at_Operation a"
    using assms(1) by (auto simp: learns_def)
  with assms(2) criteriaMatch_learns [OF assms(1), of r] show ?thesis
    unfolding rule_applies_iff by metis
qed

lemma matched_learns: "learns a b \<Longrightarrow> set (matched e a) \<subseteq> set (matched e b)"
  using rule_applies_learns by (auto simp: matched_def)

text \<open>
  C2. Late binding is safe: evaluating again once headers, query, operation or body are known can
  only restrict further and mask more, never capture a channel or drop a redaction that the earlier
  evaluation had decided.
\<close>

theorem evaluate_narrows:
  assumes "learns a b"
  shows "let p = evaluate e a; q = evaluate e b in
     (pol_CaptureRequestBody q \<longrightarrow> pol_CaptureRequestBody p) \<and>
     (pol_CaptureResponseBody q \<longrightarrow> pol_CaptureResponseBody p) \<and>
     (pol_CaptureHeaders q \<longrightarrow> pol_CaptureHeaders p) \<and>
     (pol_CaptureQuery q \<longrightarrow> pol_CaptureQuery p) \<and>
     set (pol_RedactHeaders p) \<subseteq> set (pol_RedactHeaders q) \<and>
     set (pol_RedactQuery p) \<subseteq> set (pol_RedactQuery q) \<and>
     set (pol_RedactJSONPaths p) \<subseteq> set (pol_RedactJSONPaths q)"
  using matched_learns [OF assms, of e]
  by (auto simp: evaluate_fold policy_fields Let_def)

definition sample_attrs :: attrs where
  "sample_attrs = \<lparr>at_Method = ''POST'', at_Path = ''/api/v1/payments/42'', at_Headers = None,
     at_Query = None, at_Operation = [], at_Body = JNull, at_BodyKnown = False\<rparr>"

theorem evaluate_narrows_witness:
  "let e = engine_New sample_env sample_loaded;
       q = evaluate e (sample_attrs\<lparr>at_Headers := Some []\<rparr>)
   in \<not> pol_CaptureResponseBody q \<and> [''card'', ''number''] \<in> set (pol_RedactJSONPaths q)"
proof -
  let ?e = "engine_New sample_env sample_loaded" and ?b = "sample_attrs\<lparr>at_Headers := Some []\<rparr>"
  have "\<not> pol_CaptureResponseBody (evaluate ?e sample_attrs)"
    "[''card'', ''number''] \<in> set (pol_RedactJSONPaths (evaluate ?e sample_attrs))"
    by code_simp+
  moreover have "learns sample_attrs ?b"
    by (simp add: learns_def sample_attrs_def)
  ultimately show ?thesis
    using evaluate_narrows [of sample_attrs ?b ?e] by (auto simp: Let_def)
qed

subsection \<open>What the interceptor may rely on\<close>

lemma label_from_rule:
  assumes "lookup (pol_Labels (evaluate e a)) k = Some ls"
  shows "\<exists>r \<in> set (matched e a). (k, ls) \<in> set (cr_labels r)"
proof -
  have "\<exists>r \<in> set rs. (k, ls) \<in> set (cr_labels r)"
    if "last_set (\<lambda>r. map_option Some (lookup (rev (cr_labels r)) k)) rs None = Some ls" for rs
    using that by (auto simp: last_set_def split: option.splits dest!: first_some_Some map_of_SomeD)
  then show ?thesis
    using assms by (simp add: evaluate_fold policy_fields default_policy_def)
qed

lemma matched_cong:
  "(\<And>r. r \<in> set (eng_rules e) \<Longrightarrow> rule_applies a r = rule_applies b r) \<Longrightarrow> matched e a = matched e b"
  unfolding matched_def by (rule filter_cong) auto



subsection \<open>Header criteria\<close>

text \<open>
  Two header criteria whose names differ in case only are compiled under one canonical name, so
  one of them is lost: a rule that lists \<open>x-plan: gold\<close> and \<open>X-Plan: eu\<close> applies to a request that
  satisfies only the second, although every listed header is documented to be required.
\<close>

theorem header_criteria_collapse:
  "\<exists>r h. m_Headers (r_Match r) = [(''x-plan'', ''gold''), (''X-Plan'', ''eu'')] \<and>
     rule_error_of sample_env r = None \<and>
     criteriaMatch (compile_rule sample_env r) (sample_attrs\<lparr>at_Headers := Some h\<rparr>) \<and>
     \<not> MatchString (rlit ''gold'') (header_Get h ''x-plan'')"
proof -
  let ?r = "sample_rule\<lparr>r_Match := (r_Match sample_rule)\<lparr>m_Headers := [(''x-plan'', ''gold''), (''X-Plan'', ''eu'')]\<rparr>\<rparr>"
  let ?h = "[(''X-Plan'', [''eu''])]"
  have "rule_error_of sample_env ?r = None"
    "criteriaMatch (compile_rule sample_env ?r) (sample_attrs\<lparr>at_Headers := Some ?h\<rparr>)"
    "\<not> MatchString (rlit ''gold'') (header_Get ?h ''x-plan'')"
    by code_simp+
  then show ?thesis
    by (intro exI [of _ ?r] exI [of _ ?h]) simp
qed

end
