(* ===== verification/Redact.thy ===== *)
theory Redact
  imports Engine
begin

text \<open>
  What a policy does to a captured exchange (\<open>internal/engine/redact.go\<close>): headers, query string,
  JSON body and meters.  \<open>encoding/json\<close> is a pair of functions: \<open>jc_unmarshal\<close> is None on an error,
  and \<open>jc_marshal\<close> renders a document.
\<close>

record json_codec =
  jc_unmarshal :: "string \<Rightarrow> json option"
  jc_marshal :: "json \<Rightarrow> string option"
  jc_valid :: "string \<Rightarrow> bool"

definition SanitizeHeaders :: "policy \<Rightarrow> header \<Rightarrow> string gomap" where
  "SanitizeHeaders p h =
     map (\<lambda>(name, vals).
       (name, if name \<in> set (pol_RedactHeaders p) then RedactedPlaceholder else join '', '' vals)) h"

definition unparseable_query :: string where
  "unparseable_query = ''(unparseable query omitted)''"

definition SanitizeQuery :: "policy \<Rightarrow> string \<Rightarrow> string" where
  "SanitizeQuery p raw =
     (if raw = [] then []
      else
        (let (vals, err) = ParseQuery raw
         in if err then unparseable_query
            else write_pairs (concat (map (\<lambda>k.
                   map (\<lambda>v. (QueryEscape k,
                          if to_lower k \<in> set (pol_RedactQuery p) then RedactedPlaceholder
                          else QueryEscape v))
                     (case lookup vals k of None \<Rightarrow> [] | Some vs \<Rightarrow> vs)) (sorted_keys vals)))))"

definition RedactJSONBody :: "json_codec \<Rightarrow> policy \<Rightarrow> string \<Rightarrow> string \<times> bool" where
  "RedactJSONBody jc p body =
     (if body = [] \<or> pol_RedactJSONPaths p = [] then (body, jc_valid jc body)
      else case jc_unmarshal jc body of
          None \<Rightarrow> (body, False)
        | Some doc \<Rightarrow>
            (case jc_marshal jc (fold (\<lambda>path d. redactPath d path) (pol_RedactJSONPaths p) doc) of
               None \<Rightarrow> (body, False)
             | Some out \<Rightarrow> (out, True)))"

definition meter_entry :: "json \<Rightarrow> string \<times> string list list \<Rightarrow> (string \<times> rat) list" where
  "meter_entry doc m =
     (case m of (name, paths) \<Rightarrow>
        (let (s, found) = fold (sumNumeric doc) paths (0, False)
         in if found then [(name, s)] else []))"

definition ExtractMeters :: "json_codec \<Rightarrow> policy \<Rightarrow> string \<Rightarrow> rat gomap" where
  "ExtractMeters jc p body =
     (if pol_Meters p = [] \<or> body = [] then []
      else case jc_unmarshal jc body of
          None \<Rightarrow> []
        | Some doc \<Rightarrow> concat (map (meter_entry doc) (pol_Meters p)))"

subsection \<open>Headers\<close>

lemma SanitizeHeaders_lookup:
  "lookup (SanitizeHeaders p h) name =
     (case lookup h name of
        None \<Rightarrow> None
      | Some vals \<Rightarrow> Some (if name \<in> set (pol_RedactHeaders p) then RedactedPlaceholder
                          else join '', '' vals))"
  by (induction h) (auto simp: SanitizeHeaders_def)

text \<open>
  A stored header map has the names of the request and nothing but the placeholder under a name
  the policy masks; any other header is stored with its values joined.
\<close>

theorem SanitizeHeaders_correct:
  "keys (SanitizeHeaders p h) = keys h \<and>
   lookup (SanitizeHeaders p h) name =
     (case lookup h name of
        None \<Rightarrow> None
      | Some vals \<Rightarrow> Some (if name \<in> set (pol_RedactHeaders p) then RedactedPlaceholder
                          else join '', '' vals))"
  by (simp add: SanitizeHeaders_lookup) (simp add: SanitizeHeaders_def comp_def case_prod_beta)

subsection \<open>The query string\<close>

definition values_of :: "url_values \<Rightarrow> string \<Rightarrow> string list" where
  "values_of m k = (case lookup m k of None \<Rightarrow> [] | Some vs \<Rightarrow> vs)"

lemma values_of_add: "values_of (add_value k v m) j = values_of m j @ (if j = k then [v] else [])"
  by (auto simp: values_of_def add_value_def)

lemma values_of_fold_add:
  "values_of (fold (\<lambda>(k, v). add_value k (f v)) ps m) j =
     values_of m j @ map (f \<circ> snd) (filter (\<lambda>kv. fst kv = j) ps)"
  by (induction ps arbitrary: m) (auto simp: values_of_add)

lemma filter_grouped:
  "distinct ks \<Longrightarrow>
     filter (\<lambda>kv. fst kv = j) (concat (map (\<lambda>k. map (\<lambda>x. (k, e k x)) (g k)) ks)) =
       (if j \<in> set ks then map (\<lambda>x. (j, e j x)) (g j) else [])"
  by (induction ks) (auto simp: filter_map comp_def filter_empty_conv)

lemma QueryUnescape_placeholder: "QueryUnescape RedactedPlaceholder = Some RedactedPlaceholder"
  by (simp add: RedactedPlaceholder_def)

text \<open>
  C9. Whoever parses the stored query gets the request's parameters with every masked one, under
  any spelling of its name, replaced by the placeholder, and every other one unchanged in value and
  order; a query that does not parse is not stored at all.
\<close>

theorem SanitizeQuery_parses_back:
  "raw \<noteq> [] \<Longrightarrow>
   (if snd (ParseQuery raw) then SanitizeQuery p raw = unparseable_query
    else \<not> snd (ParseQuery (SanitizeQuery p raw)) \<and>
         values_of (fst (ParseQuery (SanitizeQuery p raw))) k =
           map (\<lambda>v. if to_lower k \<in> set (pol_RedactQuery p) then RedactedPlaceholder else v)
             (values_of (fst (ParseQuery raw)) k))"
proof -
  assume raw: "raw \<noteq> []"
  obtain vals err where parsed: "ParseQuery raw = (vals, err)"
    by (cases "ParseQuery raw") auto
  let ?mask = "\<lambda>k. to_lower k \<in> set (pol_RedactQuery p)"
  let ?enc = "\<lambda>k v. if ?mask k then RedactedPlaceholder else QueryEscape v"
  let ?ps = "concat (map (\<lambda>k. map (\<lambda>v. (k, ?enc k v)) (values_of vals k)) (sorted_keys vals))"
  have written: "SanitizeQuery p raw = write_pairs (map (\<lambda>(k, v). (QueryEscape k, v)) ?ps)" if "\<not> err"
    using raw that by (simp add: SanitizeQuery_def parsed map_concat comp_def values_of_def)
  have "\<forall>(k, v) \<in> set ?ps. CHR ''&'' \<notin> set v \<and> CHR '';'' \<notin> set v \<and> QueryUnescape v \<noteq> None"
    by (auto simp: QueryEscape_plain QueryUnescape_placeholder) (auto simp: RedactedPlaceholder_def)
  then have parse: "ParseQuery (SanitizeQuery p raw) =
      (fold (\<lambda>(k, v). add_value k (the (QueryUnescape v))) ?ps [], False)" if "\<not> err"
    using written [OF that] by (simp only: ParseQuery_write_pairs)
  have "values_of (fold (\<lambda>(k, v). add_value k (the (QueryUnescape v))) ?ps []) k =
      map (\<lambda>v. if ?mask k then RedactedPlaceholder else v) (values_of vals k)"
  proof (cases "k \<in> fst ` set vals")
    case True
    then have "filter (\<lambda>kv. fst kv = k) ?ps = map (\<lambda>v. (k, ?enc k v)) (values_of vals k)"
      by (simp add: filter_grouped)
    then show ?thesis
      by (simp add: values_of_fold_add comp_def)
         (simp add: values_of_def QueryUnescape_placeholder)
  next
    case False
    then have "lookup vals k = None"
      by (simp add: map_of_eq_None_iff)
    with False have "filter (\<lambda>kv. fst kv = k) ?ps = []" "values_of vals k = []"
      by (simp_all add: filter_grouped values_of_def)
    then show ?thesis
      by (simp add: values_of_fold_add) (simp add: values_of_def)
  qed
  with parse raw show ?thesis
    by (simp add: parsed) (simp add: SanitizeQuery_def parsed)
qed

theorem SanitizeQuery_parses_back_witness:
  "values_of (fst (ParseQuery (SanitizeQuery
       (evaluate (engine_New sample_env sample_loaded) sample_attrs) ''page=2&TOKEN=s3cr3t''))) ''TOKEN''
     = [RedactedPlaceholder]"
proof -
  let ?p = "evaluate (engine_New sample_env sample_loaded) sample_attrs"
  have "\<not> snd (ParseQuery ''page=2&TOKEN=s3cr3t'')"
    "values_of (fst (ParseQuery ''page=2&TOKEN=s3cr3t'')) ''TOKEN'' = [''s3cr3t'']"
    "to_lower ''TOKEN'' \<in> set (pol_RedactQuery ?p)"
    by code_simp+
  then show ?thesis
    using SanitizeQuery_parses_back [of "''page=2&TOKEN=s3cr3t''" ?p "''TOKEN''"] by simp
qed

subsection \<open>The body\<close>

lemma fold_redact_keeps_masked:
  "masked_at d ks \<Longrightarrow> masked_at (fold (\<lambda>path d. redactPath d path) paths d) ks"
  by (induction paths arbitrary: d) (auto intro: redactPath_keeps_masked)

lemma fold_redact_masks:
  "path \<in> set paths \<Longrightarrow> path \<noteq> [] \<Longrightarrow> last path \<noteq> ''**'' \<Longrightarrow> pathCovers path ks \<Longrightarrow>
     masked_at (fold (\<lambda>path d. redactPath d path) paths d) ks"
  by (induction paths arbitrary: d)
     (auto intro: fold_redact_keeps_masked redactPath_masks)

lemma fold_redact_frame:
  "\<forall>path \<in> set paths. untouched path ks \<Longrightarrow>
     scalars_at (fold (\<lambda>path d. redactPath d path) paths d) ks = scalars_at d ks"
  by (induction paths arbitrary: d) (simp_all add: redactPath_frame)


definition sample_codec :: json_codec where
  "sample_codec = \<lparr>
     jc_unmarshal = (\<lambda>_. Some (JObj [(''card'', JObj [(''number'', JStr ''4111''), (''exp'', JStr ''12/30'')])])),
     jc_marshal = (\<lambda>d. case FirstString d [''card'', ''number''] of None \<Rightarrow> None | Some s \<Rightarrow> Some s),
     jc_valid = (\<lambda>_. True)\<rparr>"


text \<open>
  A path that ends in \<open>**\<close> is accepted, is reported as governing every field below it, and
  masks nothing: the body is stored with all its values.
\<close>

theorem trailing_star_masks_nothing:
  assumes "path \<noteq> []" and "last path = ''**''"
  shows "redactPath doc path = doc \<and>
    rule_error_of sample_env (sample_rule\<lparr>r_Redact :=
       Some \<lparr>red_Headers = [], red_JSONFields = [''$.**''], red_QueryParams = []\<rparr>\<rparr>) = None \<and>
    (path = [''**''] \<longrightarrow> pathCovers path ks)"
proof -
  have "rule_error_of sample_env (sample_rule\<lparr>r_Redact :=
       Some \<lparr>red_Headers = [], red_JSONFields = [''$.**''], red_QueryParams = []\<rparr>\<rparr>) = None"
    by code_simp
  with redactPath_trailing_star [OF assms] show ?thesis
    by (simp add: pathCovers.simps(2))
qed

theorem trailing_star_masks_nothing_witness:
  "redactPath (JObj [(''password'', JStr ''hunter2'')]) [''**''] = JObj [(''password'', JStr ''hunter2'')]"
  using trailing_star_masks_nothing [of "[''**'']" "JObj [(''password'', JStr ''hunter2'')]"] by simp

subsection \<open>Meters\<close>

lemma fold_sum_found:
  "snd (fold (sumNumeric doc) paths acc) \<longleftrightarrow>
     snd acc \<or> (\<exists>path \<in> set paths. \<exists>n. addressed path doc (JNum n))"
  by (induction paths arbitrary: acc) (auto simp: sumNumeric_found)

text \<open>
  A meter is reported exactly when one of its paths names a number in the response, so a missing
  usage field is never billed as zero, and a body that is no JSON reports no meter at all.
\<close>

theorem ExtractMeters_found:
  "name \<in> set (keys (ExtractMeters jc p body)) \<longleftrightarrow>
     body \<noteq> [] \<and> (\<exists>doc paths path n. jc_unmarshal jc body = Some doc \<and>
       (name, paths) \<in> set (pol_Meters p) \<and> path \<in> set paths \<and> addressed path doc (JNum n))"
proof (cases "jc_unmarshal jc body")
  case None
  then show ?thesis by (simp add: ExtractMeters_def)
next
  case (Some doc)
  have entry: "name \<in> fst ` set (meter_entry doc m) \<longleftrightarrow>
      name = fst m \<and> (\<exists>path \<in> set (snd m). \<exists>n. addressed path doc (JNum n))" for m
    using fold_sum_found [of doc "snd m" "(0, False)"]
    by (cases m; cases "fold (sumNumeric doc) (snd m) (0, False)") (auto simp: meter_entry_def)
  have "name \<in> set (keys (ExtractMeters jc p body)) \<longleftrightarrow>
      body \<noteq> [] \<and> (\<exists>m \<in> set (pol_Meters p). name \<in> fst ` set (meter_entry doc m))"
    by (auto simp: ExtractMeters_def Some image_Union)
  also have "\<dots> \<longleftrightarrow> body \<noteq> [] \<and> (\<exists>m \<in> set (pol_Meters p).
      name = fst m \<and> (\<exists>path \<in> set (snd m). \<exists>n. addressed path doc (JNum n)))"
    by (simp only: entry)
  finally show ?thesis
    using Some by force
qed

end
