(* ===== verification/Stream.thy ===== *)
theory Stream
  imports Telcap GoRegex Json
begin

text \<open>
  What the two governors of per-request telemetry share: severity levels (\<open>ext/applog.go\<close>), the
  redaction of free text by a list of expressions, and the contract of a stream whose items are
  admitted one by one under a cap per request.
\<close>

subsection \<open>Severity\<close>

definition LevelRank :: "string \<Rightarrow> int" where
  "LevelRank level =
     (let l = to_lower (trim_space level)
      in if l = ''trace'' then 0
         else if l = ''debug'' then 1
         else if l \<in> {''info'', ''information'', ''notice'', []} then 2
         else if l \<in> {''warn'', ''warning''} then 3
         else if l \<in> {''error'', ''err''} then 4
         else if l \<in> {''fatal'', ''critical'', ''crit'', ''panic''} then 5
         else 6)"

definition NormaliseLevel :: "string \<Rightarrow> string" where
  "NormaliseLevel level =
     (let l = to_lower (trim_space level)
      in if l = ''warning'' then ''warn''
         else if l = ''err'' then ''error''
         else if l \<in> {''information'', ''notice''} then ''info''
         else if l \<in> {''critical'', ''crit'', ''panic''} then ''fatal''
         else if l = [] then ''info''
         else l)"

subsection \<open>Scrubbing free text\<close>

definition scrub_text :: "rx list \<Rightarrow> string \<Rightarrow> string" where
  "scrub_text patterns v = fold (\<lambda>re s. ReplaceAllString re s RedactedPlaceholder) patterns v"

definition compile_all :: "(string \<Rightarrow> rx option) \<Rightarrow> string list \<Rightarrow> rx list option" where
  "compile_all rcomp pats =
     (if list_ex (\<lambda>p. rcomp p = None) pats then None else Some (map (\<lambda>p. the (rcomp p)) pats))"

lemma scrub_text_append: "scrub_text (ps @ qs) v = scrub_text qs (scrub_text ps v)"
  by (simp add: scrub_text_def)

lemma scrub_text_quiet: "\<forall>re \<in> set ps. \<not> MatchString re v \<Longrightarrow> scrub_text ps v = v"
  unfolding scrub_text_def by (induction ps) (simp_all add: ReplaceAllString_no_match)

subsection \<open>A stream with a cap per request\<close>

text \<open>
  \<open>admit\<close> decides one item: the next state, the governed item, and the reason of a refusal if there
  is one.  \<open>load\<close> is what a request has contributed so far, \<open>room\<close> says that the requests of a set
  can be told apart (none of them is forgotten).  The contract: an admitted item is counted against
  its request and was below the cap, a refused one changes no count.
\<close>

locale capped_stream =
  fixes admit :: "'g \<Rightarrow> 'l \<Rightarrow> 'g \<times> 'l \<times> 'r option"
    and key :: "'l \<Rightarrow> string"
    and load :: "'g \<Rightarrow> string \<Rightarrow> int"
    and cap :: "'g \<Rightarrow> int"
    and room :: "'g \<Rightarrow> string set \<Rightarrow> bool"
  assumes cap_step: "admit g l = (g', l', r) \<Longrightarrow> cap g' = cap g"
    and room_step: "room g S \<Longrightarrow> 0 < cap g \<Longrightarrow> key l \<in> S \<Longrightarrow> admit g l = (g', l', r) \<Longrightarrow> room g' S"
    and load_step: "room g S \<Longrightarrow> 0 < cap g \<Longrightarrow> key l \<in> S \<Longrightarrow> admit g l = (g', l', r) \<Longrightarrow>
      k \<noteq> [] \<Longrightarrow> load g' k = load g k + (if r = None \<and> key l = k then 1 else 0)"
    and below_cap: "room g S \<Longrightarrow> 0 < cap g \<Longrightarrow> key l \<in> S \<Longrightarrow> admit g l = (g', l', None) \<Longrightarrow>
      key l \<noteq> [] \<Longrightarrow> load g (key l) < cap g"
begin

fun run :: "'g \<Rightarrow> 'l list \<Rightarrow> 'g \<times> 'l list" where
  "run g [] = (g, [])"
| "run g (l # ls) =
     (case admit g l of (g', l', r) \<Rightarrow>
        (case run g' ls of (g'', out) \<Rightarrow> (g'', if r = None then l' # out else out)))"

fun stored_for :: "string \<Rightarrow> 'g \<Rightarrow> 'l list \<Rightarrow> nat" where
  "stored_for k g [] = 0"
| "stored_for k g (l # ls) =
     (case admit g l of (g', l', r) \<Rightarrow>
        (if r = None \<and> key l = k then 1 else 0) + stored_for k g' ls)"

lemma stored_within_cap:
  "room g S \<Longrightarrow> 0 < cap g \<Longrightarrow> key ` set ls \<subseteq> S \<Longrightarrow> k \<noteq> [] \<Longrightarrow> load g k \<le> cap g \<Longrightarrow>
     load g k + int (stored_for k g ls) \<le> cap g"
proof (induction ls arbitrary: g)
  case Nil
  then show ?case by simp
next
  case (Cons l ls)
  obtain g' l' r where step: "admit g l = (g', l', r)"
    by (cases "admit g l") auto
  have l: "key l \<in> S"
    using Cons.prems by simp
  have load: "load g' k = load g k + (if r = None \<and> key l = k then 1 else 0)"
    by (rule load_step [OF Cons.prems(1,2) l step Cons.prems(4)])
  have "load g' k \<le> cap g'"
    using below_cap [OF Cons.prems(1,2) l] step Cons.prems(4,5) load cap_step [OF step]
    by (auto split: if_splits)
  moreover have "room g' S" "0 < cap g'"
    using room_step [OF Cons.prems(1,2) l step] Cons.prems(2) cap_step [OF step] by simp_all
  ultimately show ?case
    using Cons.IH [of g'] Cons.prems(3,4) step load cap_step [OF step]
    by (cases "r = None \<and> key l = k") auto
qed

end

subsection \<open>Room in the counter\<close>

text \<open>The requests of a set fit in the current generation of the counter.\<close>

definition counter_room :: "counter \<Rightarrow> string set \<Rightarrow> bool" where
  "counter_room c S \<longleftrightarrow>
     counter_inv c \<and> cnt_prev c = [] \<and> finite S \<and>
     card (fst ` set (cnt_cur c) \<union> S) \<le> nat (cnt_maxKeys c)"

lemma counter_room_Allow:
  assumes room: "counter_room c S" and k: "k \<in> S" and m: "0 < m" and step: "Allow c k m = (c', ok)"
  shows "counter_room c' S" and "ok \<longleftrightarrow> counter_used c k < m"
    and "counter_used c' j = (if j = k \<and> ok then counter_used c j + 1 else counter_used c j)"
proof -
  have fin: "finite (fst ` set (cnt_cur c) \<union> S)"
    using room by (simp add: counter_room_def)
  have "insert k (fst ` set (cnt_cur c)) \<subseteq> fst ` set (cnt_cur c) \<union> S"
    using k by auto
  then have fits: "card (insert k (fst ` set (cnt_cur c))) \<le> nat (cnt_maxKeys c)"
    using card_mono [OF fin, of "insert k (fst ` set (cnt_cur c))"] room
    unfolding counter_room_def by (elim conjE) (rule order_trans)
  have inv: "counter_inv c" and prev: "cnt_prev c = []"
    using room by (simp_all add: counter_room_def)
  note facts = Allow_in_generation [OF inv m prev fits step]
  show "ok \<longleftrightarrow> counter_used c k < m"
    "counter_used c' j = (if j = k \<and> ok then counter_used c j + 1 else counter_used c j)"
    using facts(3,4) by simp_all
  have "fst ` set (cnt_cur c') \<union> S \<subseteq> fst ` set (cnt_cur c) \<union> S"
    using facts(2) k by auto
  then have "card (fst ` set (cnt_cur c') \<union> S) \<le> card (fst ` set (cnt_cur c) \<union> S)"
    by (rule card_mono [OF fin])
  moreover have "counter_inv c'" "cnt_maxKeys c' = cnt_maxKeys c"
    using Allow_inv [OF inv, of k m] Allow_maxKeys [of c k m] step by simp_all
  ultimately show "counter_room c' S"
    using room facts(1) by (simp add: counter_room_def)
qed

lemma counter_room_New:
  "finite S \<Longrightarrow> card S \<le> nat (if n \<le> 0 then DefaultMaxTrackedKeys else n) \<Longrightarrow> counter_room (NewCounter n) S"
  using NewCounter_inv [of n] by (simp add: counter_room_def NewCounter_def)

lemma counter_used_New [simp]: "counter_used (NewCounter n) k = 0"
  by (simp add: counter_used_def NewCounter_def)

end
