(* ===== verification/AppLog.thy ===== *)
theory AppLog
  imports Stream Engine
begin

text \<open>
  The governor of application log lines (\<open>internal/applog/applog.go\<close>, the line of \<open>ext/applog.go\<close>):
  the policy compiled from \<open>telemetry.app_logs\<close> and the \<open>logs\<close> blocks of the rules, its resolution
  for a route and its application to a line.
\<close>

record app_log =
  l_ID :: int
  l_Time :: int
  l_Service :: string
  l_TraceID :: string
  l_SpanID :: string
  l_Level :: string
  l_Message :: string
  l_Fields :: "string gomap"
  l_Route :: string
  l_Source :: string
  l_Truncated :: bool

datatype log_reason =
    LogOrphan | LogLevel | LogSpanCap | LogDisabled | LogEmpty | LogRuleDrop

record route_policy =
  rp_name :: string
  rp_segs :: "string list"
  rp_minRank :: int
  rp_maxLines :: int
  rp_drop :: bool
  rp_patterns :: "rx list"
  rp_fields :: goset

record log_governor =
  lg_enabled :: bool
  lg_dropOrphans :: bool
  lg_minRank :: int
  lg_maxLines :: int
  lg_maxBytes :: int
  lg_patterns :: "rx list"
  lg_redactField :: goset
  lg_counter :: counter
  lg_routes :: "route_policy list"

record effective =
  ef_minRank :: int
  ef_maxLines :: int
  ef_drop :: bool
  ef_patterns :: "rx list"
  ef_fields :: goset

definition DefaultMaxLinesPerSpan :: int where
  "DefaultMaxLinesPerSpan = 200"

definition DefaultMaxMessageBytes :: int where
  "DefaultMaxMessageBytes = 8 * 1024"

definition log_New :: "sysenv \<Rightarrow> applogs_cfg option \<Rightarrow> log_governor option" where
  "log_New env cfg =
     (let g = \<lparr>lg_enabled = False, lg_dropOrphans = False, lg_minRank = 0, lg_maxLines = 0,
               lg_maxBytes = 0, lg_patterns = [], lg_redactField = [],
               lg_counter = NewCounter 4096, lg_routes = []\<rparr>
      in case cfg of
           None \<Rightarrow> Some g
         | Some c \<Rightarrow>
             if \<not> al_Enabled c then Some g
             else (case compile_all (sys_regexp env) (tr_Patterns (al_Redact c)) of
                     None \<Rightarrow> None
                   | Some ps \<Rightarrow>
                       Some (g\<lparr>lg_enabled := True,
                          lg_dropOrphans := DropOrphanLines cfg,
                          lg_minRank := (if al_LevelMin c \<noteq> [] then LevelRank (al_LevelMin c) else - 1),
                          lg_maxLines := (if al_MaxLinesPerSpan c = 0 then DefaultMaxLinesPerSpan
                                          else al_MaxLinesPerSpan c),
                          lg_maxBytes := (if al_MaxMessageBytes c = 0 then DefaultMaxMessageBytes
                                          else al_MaxMessageBytes c),
                          lg_patterns := ps,
                          lg_redactField := add_all (map to_lower (tr_Fields (al_Redact c))) []\<rparr>)))"

definition route_policy_of :: "sysenv \<Rightarrow> rule \<Rightarrow> rule_logs \<Rightarrow> route_policy option" where
  "route_policy_of env r l =
     (case compile_all (sys_regexp env) (tr_Patterns (rl_Redact l)) of
        None \<Rightarrow> None
      | Some ps \<Rightarrow>
          Some \<lparr>rp_name = r_Name r, rp_segs = splitPath (m_Path (r_Match r)),
            rp_minRank = (if rl_LevelMin l \<noteq> [] then LevelRank (rl_LevelMin l) else - 1),
            rp_maxLines = rl_MaxLinesPerSpan l, rp_drop = rl_Drop l, rp_patterns = ps,
            rp_fields = add_all (map to_lower (tr_Fields (rl_Redact l))) []\<rparr>)"

fun WithRules :: "sysenv \<Rightarrow> rule list \<Rightarrow> log_governor \<Rightarrow> log_governor option" where
  "WithRules env [] g = Some g"
| "WithRules env (r # rs) g =
     (case r_Logs r of
        None \<Rightarrow> WithRules env rs g
      | Some l \<Rightarrow>
          (case route_policy_of env r l of
             None \<Rightarrow> None
           | Some rp \<Rightarrow> WithRules env rs (g\<lparr>lg_routes := lg_routes g @ [rp]\<rparr>)))"

definition tighten :: "route_policy \<Rightarrow> effective \<Rightarrow> effective" where
  "tighten rp eff =
     \<lparr>ef_minRank = (if rp_minRank rp > ef_minRank eff then rp_minRank rp else ef_minRank eff),
      ef_maxLines =
        (if rp_maxLines rp > 0 \<and> (ef_maxLines eff \<le> 0 \<or> rp_maxLines rp < ef_maxLines eff)
         then rp_maxLines rp else ef_maxLines eff),
      ef_drop = (rp_drop rp \<or> ef_drop eff),
      ef_patterns = (if rp_patterns rp \<noteq> [] then ef_patterns eff @ rp_patterns rp else ef_patterns eff),
      ef_fields = (if rp_fields rp \<noteq> [] then add_all (rp_fields rp) (ef_fields eff) else ef_fields eff)\<rparr>"

definition governs_route :: "string \<Rightarrow> route_policy \<Rightarrow> bool" where
  "governs_route route rp \<longleftrightarrow>
     route = ''/'' @ join ''/'' (rp_segs rp) \<or> matchSegments (rp_segs rp) (splitPath route)"

definition global_policy :: "log_governor \<Rightarrow> effective" where
  "global_policy g =
     \<lparr>ef_minRank = lg_minRank g, ef_maxLines = lg_maxLines g, ef_drop = False,
      ef_patterns = lg_patterns g, ef_fields = lg_redactField g\<rparr>"

definition log_resolve :: "log_governor \<Rightarrow> string \<Rightarrow> effective" where
  "log_resolve g route =
     (if route = [] \<or> lg_routes g = [] then global_policy g
      else fold (\<lambda>rp eff. if governs_route route rp then tighten rp eff else eff) (lg_routes g)
             (global_policy g))"

definition log_scrub :: "effective \<Rightarrow> app_log \<Rightarrow> app_log" where
  "log_scrub eff l =
     l\<lparr>l_Message := scrub_text (ef_patterns eff) (l_Message l),
       l_Fields := map (\<lambda>(k, v).
         (k, if to_lower k \<in> set (ef_fields eff) then RedactedPlaceholder
             else scrub_text (ef_patterns eff) v)) (l_Fields l)\<rparr>"

text \<open>Trimming and the byte cap of the message, after the redaction.\<close>

definition log_cut :: "log_governor \<Rightarrow> app_log \<Rightarrow> app_log" where
  "log_cut g l =
     (if lg_maxBytes g > 0 \<and> int (length (l_Message l)) > lg_maxBytes g
      then l\<lparr>l_Message := TruncateUTF8 (l_Message l) (lg_maxBytes g), l_Truncated := True\<rparr>
      else l)"

definition log_Admit :: "log_governor \<Rightarrow> app_log \<Rightarrow> log_governor \<times> app_log \<times> log_reason option" where
  "log_Admit g l0 =
     (if \<not> lg_enabled g then (g, l0, Some LogDisabled)
      else
        (let l1 = l0\<lparr>l_Level := NormaliseLevel (l_Level l0)\<rparr>;
             eff = log_resolve g (l_Route l1)
         in if l_SpanID l1 = [] \<and> lg_dropOrphans g then (g, l1, Some LogOrphan)
            else if ef_drop eff then (g, l1, Some LogRuleDrop)
            else if ef_minRank eff \<ge> 0 \<and> LevelRank (l_Level l1) < ef_minRank eff
              then (g, l1, Some LogLevel)
            else
              (let l2 = log_scrub eff l1;
                   l3 = l2\<lparr>l_Message := trim_space (l_Message l2)\<rparr>
               in if l_Message l3 = [] \<and> l_Fields l3 = [] then (g, l3, Some LogEmpty)
                  else
                    (let l4 = log_cut g l3
                     in if l_SpanID l4 \<noteq> [] \<and> ef_maxLines eff > 0 then
                          (let (c, ok) = Allow (lg_counter g) (l_SpanID l4) (ef_maxLines eff);
                               g' = g\<lparr>lg_counter := c\<rparr>
                           in if ok then (g', l4, None) else (g', l4, Some LogSpanCap))
                        else (g, l4, None)))))"

subsection \<open>Levels\<close>

lemma LevelRank_known: "0 \<le> LevelRankKnown l \<Longrightarrow> LevelRank l = LevelRankKnown l"
  by (auto simp: LevelRank_def LevelRankKnown_def Let_def split: if_splits)

lemma LevelRank_range: "0 \<le> LevelRank l \<and> LevelRank l \<le> 6"
  by (auto simp: LevelRank_def Let_def)

lemma is_space_lower [simp]: "is_space (lower_char c) = is_space c"
  by (auto simp: is_space_def byte_lower_char is_upper_def)

lemma trim_space_lower: "trim_space (to_lower s) = to_lower (trim_space s)"
  by (simp add: trim_space_def trim_def trim_left_def trim_right_def to_lower_def dropWhile_map
      rev_map comp_def)

lemma LevelRank_Normalise: "LevelRank (NormaliseLevel l) = LevelRank l"
proof -
  define m where "m = to_lower (trim_space l)"
  have "to_lower (trim_space m) = m"
    by (simp only: m_def trim_space_lower to_lower_idem) (simp add: trim_space_def)
  then have "LevelRank m = LevelRank l"
    by (simp add: LevelRank_def m_def)
  moreover have rank: "LevelRank ''warn'' = 3" "LevelRank ''error'' = 4" "LevelRank ''info'' = 2"
    "LevelRank ''fatal'' = 5" "LevelRank ''warning'' = 3" "LevelRank ''err'' = 4"
    "LevelRank ''information'' = 2" "LevelRank ''notice'' = 2" "LevelRank ''critical'' = 5"
    "LevelRank ''crit'' = 5" "LevelRank ''panic'' = 5" "LevelRank [] = 2"
    by code_simp+
  note eq = NormaliseLevel_def [of l, folded m_def, unfolded Let_def]
  consider "m = ''warning''" | "m = ''err''" | "m = ''information''" | "m = ''notice''"
    | "m = ''critical''" | "m = ''crit''" | "m = ''panic''" | "m = []" | "NormaliseLevel l = m"
    using eq by (metis insert_iff empty_iff)
  then have "LevelRank (NormaliseLevel l) = LevelRank m"
  proof cases
    case 9
    then show ?thesis by simp
  qed (simp add: eq rank)+
  ultimately show ?thesis by simp
qed

text \<open>
  The two severity orders of the product agree: a level that validation accepts as a floor has
  the same rank when lines are filtered, and normalising a line's level never moves it across a
  floor.
\<close>

theorem severity_orders_agree:
  "(0 \<le> LevelRankKnown l \<longrightarrow> LevelRank l = LevelRankKnown l) \<and>
   (LevelRankKnown l < 0 \<longrightarrow> LevelRank l = 6 \<or> trim_space l = []) \<and>
   LevelRank (NormaliseLevel l) = LevelRank l"
proof -
  have "LevelRankKnown l < 0 \<longrightarrow> LevelRank l = 6 \<or> trim_space l = []"
    by (auto simp: LevelRank_def LevelRankKnown_def Let_def to_lower_def split: if_splits)
  then show ?thesis
    using LevelRank_known LevelRank_Normalise by blast
qed

theorem severity_orders_agree_witness: "LevelRank ''Warning '' = 3"
proof -
  have "LevelRankKnown ''Warning '' = 3"
    by code_simp
  then show ?thesis
    using severity_orders_agree [of "''Warning ''"] by simp
qed

subsection \<open>Rules only tighten\<close>

definition stricter :: "effective \<Rightarrow> effective \<Rightarrow> bool" where
  "stricter e e0 \<longleftrightarrow>
     ef_minRank e0 \<le> ef_minRank e \<and>
     (0 < ef_maxLines e0 \<longrightarrow> 0 < ef_maxLines e \<and> ef_maxLines e \<le> ef_maxLines e0) \<and>
     (ef_drop e0 \<longrightarrow> ef_drop e) \<and>
     set (ef_patterns e0) \<subseteq> set (ef_patterns e) \<and>
     set (ef_fields e0) \<subseteq> set (ef_fields e)"

lemma stricter_refl: "stricter e e"
  by (simp add: stricter_def)

lemma stricter_trans: "stricter c b \<Longrightarrow> stricter b a \<Longrightarrow> stricter c a"
  by (auto simp: stricter_def)

lemma stricter_tighten: "stricter (tighten rp e) e"
  by (auto simp: stricter_def tighten_def)

lemma stricter_fold:
  "stricter (fold (\<lambda>rp eff. if P rp then tighten rp eff else eff) rps e) e"
  by (induction rps arbitrary: e) (auto intro: stricter_refl stricter_trans stricter_tighten)

lemma log_resolve_stricter: "stricter (log_resolve g route) (global_policy g)"
  by (simp add: log_resolve_def stricter_refl stricter_fold)

lemma stricter_rule_fold:
  "rp \<in> set rps \<Longrightarrow> P rp \<Longrightarrow>
     stricter (fold (\<lambda>rp eff. if P rp then tighten rp eff else eff) rps e) (tighten rp e0) \<or>
     (\<exists>e1. stricter (fold (\<lambda>rp eff. if P rp then tighten rp eff else eff) rps e) (tighten rp e1))"
  by (induction rps arbitrary: e) (auto intro: stricter_fold)

text \<open>
  C11. A \<open>logs\<close> block can only tighten: whatever route a producer claims, the policy applied to its
  line has at least the global floor, at most the global cap, and every global pattern and field;
  and every block whose rule covers the route is in force.
\<close>

theorem log_rules_only_tighten:
  "stricter (log_resolve g route) (global_policy g) \<and>
   (\<forall>rp \<in> set (lg_routes g). route \<noteq> [] \<and> governs_route route rp \<longrightarrow>
      rp_minRank rp \<le> ef_minRank (log_resolve g route) \<and>
      (rp_drop rp \<longrightarrow> ef_drop (log_resolve g route)) \<and>
      set (rp_patterns rp) \<subseteq> set (ef_patterns (log_resolve g route)) \<and>
      set (rp_fields rp) \<subseteq> set (ef_fields (log_resolve g route)) \<and>
      (0 < rp_maxLines rp \<longrightarrow> ef_maxLines (log_resolve g route) \<le> rp_maxLines rp))"
proof (intro conjI ballI impI log_resolve_stricter)
  fix rp assume rp: "rp \<in> set (lg_routes g)" and r: "route \<noteq> [] \<and> governs_route route rp"
  then have "lg_routes g \<noteq> []" by auto
  with rp r obtain e1 where e1: "stricter (log_resolve g route) (tighten rp e1)"
    using stricter_rule_fold [of rp "lg_routes g" "governs_route route" "global_policy g"]
    by (auto simp: log_resolve_def)
  have "0 < rp_maxLines rp \<Longrightarrow> 0 < ef_maxLines (tighten rp e1) \<and> ef_maxLines (tighten rp e1) \<le> rp_maxLines rp"
    "rp_minRank rp \<le> ef_minRank (tighten rp e1)" "rp_drop rp \<Longrightarrow> ef_drop (tighten rp e1)"
    "set (rp_patterns rp) \<subseteq> set (ef_patterns (tighten rp e1))"
    "set (rp_fields rp) \<subseteq> set (ef_fields (tighten rp e1))"
    by (auto simp: tighten_def)
  with e1 show "rp_minRank rp \<le> ef_minRank (log_resolve g route)"
    "rp_drop rp \<Longrightarrow> ef_drop (log_resolve g route)"
    "set (rp_patterns rp) \<subseteq> set (ef_patterns (log_resolve g route))"
    "set (rp_fields rp) \<subseteq> set (ef_fields (log_resolve g route))"
    "0 < rp_maxLines rp \<Longrightarrow> ef_maxLines (log_resolve g route) \<le> rp_maxLines rp"
    unfolding stricter_def by (blast intro: order_trans)+
qed

definition sample_rule_logs :: rule_logs where
  "sample_rule_logs = \<lparr>rl_LevelMin = ''error'', rl_MaxLinesPerSpan = 5,
     rl_Redact = \<lparr>tr_Patterns = [''pan=''], tr_Fields = [''Card'']\<rparr>, rl_Drop = False\<rparr>"

definition sample_applogs :: applogs_cfg where
  "sample_applogs = \<lparr>al_Enabled = True, al_LevelMin = ''info'', al_MaxLinesPerSpan = 0,
     al_MaxMessageBytes = 0, al_DropOrphans = None, al_RetentionMaxAge = 0,
     al_Redact = \<lparr>tr_Patterns = [''token''], tr_Fields = []\<rparr>, al_Sources = []\<rparr>"

definition sample_governor :: log_governor where
  "sample_governor =
     the (WithRules sample_env [sample_rule\<lparr>r_Logs := Some sample_rule_logs\<rparr>]
            (the (log_New sample_env (Some sample_applogs))))"

theorem log_rules_only_tighten_witness:
  "ef_maxLines (log_resolve sample_governor ''/api/v1/payments/7'') \<le> 5 \<and>
   stricter (log_resolve sample_governor ''/anything'') (global_policy sample_governor)"
proof -
  let ?rp = "hd (lg_routes sample_governor)"
  have "lg_routes sample_governor \<noteq> []" "governs_route ''/api/v1/payments/7'' ?rp" "rp_maxLines ?rp = 5"
    by code_simp+
  then show ?thesis
    using log_rules_only_tighten [of sample_governor "''/api/v1/payments/7''"]
      log_rules_only_tighten [of sample_governor "''/anything''"] by auto
qed

subsection \<open>What is stored\<close>

definition redacted_fields :: "goset \<Rightarrow> string gomap \<Rightarrow> bool" where
  "redacted_fields names m \<longleftrightarrow>
     (\<forall>(k, v) \<in> set m. to_lower k \<in> set names \<longrightarrow> v = RedactedPlaceholder)"

lemma log_scrub_fields: "redacted_fields (ef_fields eff) (l_Fields (log_scrub eff l))"
  by (auto simp: redacted_fields_def log_scrub_def)

text \<open>The line that reaches the counter, and the shape of every step.\<close>

definition log_governed :: "log_governor \<Rightarrow> app_log \<Rightarrow> app_log" where
  "log_governed g l =
     log_cut g (let l1 = log_scrub (log_resolve g (l_Route l)) (l\<lparr>l_Level := NormaliseLevel (l_Level l)\<rparr>)
                in l1\<lparr>l_Message := trim_space (l_Message l1)\<rparr>)"

definition log_refused :: "log_governor \<Rightarrow> app_log \<Rightarrow> bool" where
  "log_refused g l \<longleftrightarrow>
     (let eff = log_resolve g (l_Route l) in
      \<not> lg_enabled g \<or> (l_SpanID l = [] \<and> lg_dropOrphans g) \<or> ef_drop eff \<or>
      (0 \<le> ef_minRank eff \<and> LevelRank (l_Level l) < ef_minRank eff) \<or>
      (trim_space (scrub_text (ef_patterns eff) (l_Message l)) = [] \<and> l_Fields l = []))"

lemma log_cut_SpanID [simp]: "l_SpanID (log_cut g l) = l_SpanID l"
  by (simp add: log_cut_def)

lemma log_scrub_simps [simp]:
  "l_SpanID (log_scrub eff l) = l_SpanID l"
  "l_Message (log_scrub eff l) = scrub_text (ef_patterns eff) (l_Message l)"
  "l_Fields (log_scrub eff l) = [] \<longleftrightarrow> l_Fields l = []"
  by (simp_all add: log_scrub_def)

lemma log_governed_SpanID [simp]: "l_SpanID (log_governed g l) = l_SpanID l"
  by (simp add: log_governed_def Let_def)

lemma log_Admit_refused: "log_refused g l \<Longrightarrow> fst (log_Admit g l) = g \<and> snd (snd (log_Admit g l)) \<noteq> None"
  unfolding log_refused_def log_Admit_def Let_def
  by (simp add: LevelRank_Normalise split: if_split) blast

lemma log_Admit_passed:
  assumes "\<not> log_refused g l"
  shows "log_Admit g l =
     (if l_SpanID l \<noteq> [] \<and> 0 < ef_maxLines (log_resolve g (l_Route l)) then
        (let (c, ok) = Allow (lg_counter g) (l_SpanID l) (ef_maxLines (log_resolve g (l_Route l)))
         in (g\<lparr>lg_counter := c\<rparr>, log_governed g l, if ok then None else Some LogSpanCap))
      else (g, log_governed g l, None))"
proof -
  define eff where "eff = log_resolve g (l_Route l)"
  obtain c ok where step: "Allow (lg_counter g) (l_SpanID l) (ef_maxLines eff) = (c, ok)"
    by (cases "Allow (lg_counter g) (l_SpanID l) (ef_maxLines eff)") auto
  have pass: "lg_enabled g" "\<not> (l_SpanID l = [] \<and> lg_dropOrphans g)" "\<not> ef_drop eff"
    "\<not> (0 \<le> ef_minRank eff \<and> LevelRank (l_Level l) < ef_minRank eff)"
    "\<not> (trim_space (scrub_text (ef_patterns eff) (l_Message l)) = [] \<and> l_Fields l = [])"
    using assms by (auto simp: log_refused_def eff_def Let_def)
  have gov: "log_governed g l = log_cut g (let l1 = log_scrub eff (l\<lparr>l_Level := NormaliseLevel (l_Level l)\<rparr>)
                in l1\<lparr>l_Message := trim_space (l_Message l1)\<rparr>)"
    by (simp add: log_governed_def eff_def)
  show ?thesis
    unfolding log_Admit_def Let_def gov eff_def [symmetric]
    using pass by (simp add: LevelRank_Normalise step eff_def [symmetric] del: not_less) blast
qed

lemma log_Admit_stored:
  assumes "log_Admit g l0 = (g', l, None)"
  shows "\<not> log_refused g l0" and "l = log_governed g l0"
proof -
  show ok: "\<not> log_refused g l0"
    using log_Admit_refused [of g l0] assms by auto
  show "l = log_governed g l0"
    using assms unfolding log_Admit_passed [OF ok] by (auto split: if_splits prod.splits)
qed


definition sample_line :: app_log where
  "sample_line = \<lparr>l_ID = 0, l_Time = 0, l_Service = ''shop'', l_TraceID = ''t'', l_SpanID = ''s1'',
     l_Level = ''ERR'', l_Message = ''charge failed pan=4111 '',
     l_Fields = [(''CARD'', ''4111''), (''try'', ''2'')], l_Route = ''/api/v1/payments/**'',
     l_Source = ''ingest'', l_Truncated = False\<rparr>"


subsection \<open>The cap per request\<close>

definition log_load :: "log_governor \<Rightarrow> string \<Rightarrow> int" where
  "log_load g k = counter_used (lg_counter g) k"

definition log_room :: "log_governor \<Rightarrow> string set \<Rightarrow> bool" where
  "log_room g S \<longleftrightarrow> counter_room (lg_counter g) S"

lemma log_resolve_cap:
  "0 < lg_maxLines g \<Longrightarrow>
     0 < ef_maxLines (log_resolve g r) \<and> ef_maxLines (log_resolve g r) \<le> lg_maxLines g"
  using log_resolve_stricter [of g r] by (simp add: stricter_def global_policy_def)

text \<open>Every step either leaves the counter alone or is one \<open>Allow\<close> below the global cap.\<close>

lemma log_Admit_counts:
  assumes step: "log_Admit g l = (g', l', r)" and cap: "0 < lg_maxLines g"
  shows "(g' = g \<and> (r = None \<longrightarrow> l_SpanID l = [])) \<or>
    (\<exists>m c ok. l_SpanID l \<noteq> [] \<and> 0 < m \<and> m \<le> lg_maxLines g \<and>
       Allow (lg_counter g) (l_SpanID l) m = (c, ok) \<and> g' = g\<lparr>lg_counter := c\<rparr> \<and> (r = None \<longleftrightarrow> ok))"
proof (cases "log_refused g l")
  case True
  then show ?thesis
    using log_Admit_refused [OF True] step by auto
next
  case False
  let ?m = "ef_maxLines (log_resolve g (l_Route l))"
  have m: "0 < ?m" "?m \<le> lg_maxLines g"
    using log_resolve_cap [OF cap] by auto
  obtain c ok where a: "Allow (lg_counter g) (l_SpanID l) ?m = (c, ok)"
    by (cases "Allow (lg_counter g) (l_SpanID l) ?m") auto
  show ?thesis
  proof (cases "l_SpanID l = []")
    case True
    then show ?thesis
      using step log_Admit_passed [OF False] by auto
  next
    case span: False
    then have "g' = g\<lparr>lg_counter := c\<rparr>" "r = None \<longleftrightarrow> ok"
      using step log_Admit_passed [OF False] m a span by (auto split: if_splits)
    with span m a show ?thesis by blast
  qed
qed

lemma log_Admit_maxLines: "log_Admit g l = (g', l', r) \<Longrightarrow> lg_maxLines g' = lg_maxLines g"
  by (cases "log_refused g l")
     (use log_Admit_refused [of g l] in \<open>auto simp: log_Admit_passed split: if_splits prod.splits\<close>)

interpretation applog: capped_stream log_Admit l_SpanID log_load lg_maxLines log_room
proof unfold_locales
  show "lg_maxLines g' = lg_maxLines g" if "log_Admit g l = (g', l', r)" for g l g' l' r
    using that by (rule log_Admit_maxLines)
next
  fix g S l g' l' r
  assume room: "log_room g S" and cap: "0 < lg_maxLines g" and l: "l_SpanID l \<in> S"
    and step: "log_Admit g l = (g', l', r)"
  note room' = room [unfolded log_room_def]
  note cases = log_Admit_counts [OF step cap]
  show "log_room g' S"
    using cases room counter_room_Allow(1) [OF room' l] by (auto simp: log_room_def)
  show "log_load g' k = log_load g k + (if r = None \<and> l_SpanID l = k then 1 else 0)" if "k \<noteq> []" for k
    using cases that counter_room_Allow(3) [OF room' l] by (auto simp: log_load_def)
next
  fix g S l g' l'
  assume room: "log_room g S" and cap: "0 < lg_maxLines g" and l: "l_SpanID l \<in> S"
    and step: "log_Admit g l = (g', l', None)" and span: "l_SpanID l \<noteq> []"
  show "log_load g (l_SpanID l) < lg_maxLines g"
    using log_Admit_counts [OF step cap] span
      counter_room_Allow(2) [OF room [unfolded log_room_def] l] by (fastforce simp: log_load_def)
qed

text \<open>The lines a sequence of requests leaves in the store.\<close>

fun log_store :: "log_governor \<Rightarrow> app_log list \<Rightarrow> app_log list" where
  "log_store g [] = []"
| "log_store g (l # ls) =
     (case log_Admit g l of (g', l', r) \<Rightarrow>
        (if r = None then l' # log_store g' ls else log_store g' ls))"

lemma log_store_count:
  "length (filter (\<lambda>l. l_SpanID l = k) (log_store g ls)) = applog.stored_for k g ls"
proof (induction ls arbitrary: g)
  case (Cons l ls)
  obtain g' l' r where step: "log_Admit g l = (g', l', r)"
    by (cases "log_Admit g l") auto
  then have "r = None \<Longrightarrow> l_SpanID l' = l_SpanID l"
    using log_Admit_stored [of g l g' l'] by simp
  with step Cons show ?case by auto
qed simp

lemma log_New_room:
  assumes "log_New env cfg = Some g" and "finite S" and "card S \<le> 4096"
  shows "log_room g S \<and> log_load g k = 0"
proof -
  have "lg_counter g = NewCounter 4096"
    using assms(1) by (auto simp: log_New_def Let_def split: option.splits if_splits)
  then show ?thesis
    using counter_room_New [OF assms(2), of 4096] assms(3) by (simp add: log_room_def log_load_def)
qed

lemma WithRules_keeps:
  "WithRules env rs g0 = Some g \<Longrightarrow> lg_counter g = lg_counter g0 \<and> lg_maxLines g = lg_maxLines g0"
  by (induction env rs g0 rule: WithRules.induct) (auto split: option.splits)

text \<open>
  No request can flood the store: while at most 4096 requests contribute, whatever lines arrive in
  whatever order and under whatever routes, a span never has more lines stored than
  \<open>max_lines_per_span\<close>.
\<close>

theorem log_lines_capped:
  assumes "log_New env cfg = Some g0" and "WithRules env rules g0 = Some g"
    and "0 < lg_maxLines g" and "k \<noteq> []" and "card (l_SpanID ` set ls) \<le> 4096"
  shows "int (length (filter (\<lambda>l. l_SpanID l = k) (log_store g ls))) \<le> lg_maxLines g"
proof -
  have "log_room g0 (l_SpanID ` set ls)" "log_load g0 k = 0"
    using log_New_room [OF assms(1) _ assms(5)] by auto
  then have "log_room g (l_SpanID ` set ls)" "log_load g k = 0"
    using WithRules_keeps [OF assms(2)] by (simp_all add: log_room_def log_load_def)
  then show ?thesis
    using applog.stored_within_cap [of g "l_SpanID ` set ls" ls k] assms(3,4)
    by (simp add: log_store_count)
qed

theorem log_lines_capped_witness:
  "length (filter (\<lambda>l. l_SpanID l = ''s1'') (log_store sample_governor (replicate 300 sample_line))) \<le> 200"
proof -
  let ?rs = "[sample_rule\<lparr>r_Logs := Some sample_rule_logs\<rparr>]"
  have "log_New sample_env (Some sample_applogs) \<noteq> None"
    "WithRules sample_env ?rs (the (log_New sample_env (Some sample_applogs))) \<noteq> None"
    and cap: "lg_maxLines sample_governor = 200"
    by code_simp+
  then have new: "log_New sample_env (Some sample_applogs) = Some (the (log_New sample_env (Some sample_applogs)))"
    and rules: "WithRules sample_env ?rs (the (log_New sample_env (Some sample_applogs))) = Some sample_governor"
    unfolding sample_governor_def by (simp_all only: option.collapse not_False_eq_True)
  have "card (l_SpanID ` set (replicate 300 sample_line)) \<le> 4096"
    by simp
  from log_lines_capped [OF new rules _ _ this, of "''s1''"] cap show ?thesis
    by simp
qed

end
