(* ===== verification/Spans.thy ===== *)
theory Spans
  imports Stream Config
begin

text \<open>
  The governor of inner spans (\<open>internal/spans/spans.go\<close>, the span of \<open>ext/span.go\<close>): orphans, the
  duration floor, redaction of attributes and error text, and the cap per request.
\<close>

record span =
  s_ID :: int
  s_Start :: int
  s_Service :: string
  s_TraceID :: string
  s_SpanID :: string
  s_ParentSpanID :: string
  s_Name :: string
  s_Kind :: string
  s_DurationMS :: rat
  s_Error :: string
  s_Attrs :: "string gomap"
  s_Route :: string
  s_Source :: string
  s_Truncated :: bool

datatype span_reason =
    SpanOrphan | SpanTooFast | SpanRequestCap | SpanDisabled | SpanEmpty

record span_governor =
  sg_enabled :: bool
  sg_dropOrphans :: bool
  sg_minDuration :: int
  sg_maxPer :: int
  sg_maxBytes :: int
  sg_patterns :: "rx list"
  sg_redactAttr :: goset
  sg_counter :: counter

text \<open>\<open>time.Duration(f)\<close> truncates towards zero.\<close>

definition trunc_int :: "rat \<Rightarrow> int" where
  "trunc_int q = (if q \<ge> 0 then \<lfloor>q\<rfloor> else \<lceil>q\<rceil>)"

definition span_End :: "span \<Rightarrow> int" where
  "span_End s = s_Start s + trunc_int (s_DurationMS s * 1000000)"

definition DefaultMaxPerRequest :: int where
  "DefaultMaxPerRequest = 200"

definition DefaultMaxAttrBytes :: int where
  "DefaultMaxAttrBytes = 4 * 1024"

definition span_New :: "sysenv \<Rightarrow> spans_cfg option \<Rightarrow> span_governor option" where
  "span_New env cfg =
     (let g = \<lparr>sg_enabled = False, sg_dropOrphans = False, sg_minDuration = 0, sg_maxPer = 0,
               sg_maxBytes = 0, sg_patterns = [], sg_redactAttr = [], sg_counter = NewCounter 0\<rparr>
      in case cfg of
           None \<Rightarrow> Some g
         | Some c \<Rightarrow>
             if \<not> sp_Enabled c then Some g
             else (case compile_all (sys_regexp env) (tr_Patterns (sp_Redact c)) of
                     None \<Rightarrow> None
                   | Some ps \<Rightarrow>
                       Some (g\<lparr>sg_enabled := True,
                          sg_dropOrphans := DropOrphanSpans cfg,
                          sg_minDuration := sp_MinDuration c,
                          sg_maxPer := (if sp_MaxPerRequest c = 0 then DefaultMaxPerRequest
                                        else if sp_MaxPerRequest c < 0 then 0
                                        else sp_MaxPerRequest c),
                          sg_maxBytes := (if sp_MaxAttrBytes c = 0 then DefaultMaxAttrBytes
                                          else sp_MaxAttrBytes c),
                          sg_patterns := ps,
                          sg_redactAttr := add_all (map to_lower (tr_Fields (sp_Redact c))) []\<rparr>)))"

definition clean :: "span_governor \<Rightarrow> string \<Rightarrow> string \<times> bool" where
  "clean g v =
     (if v = [] then (v, False)
      else
        (let w = scrub_text (sg_patterns g) v
         in if sg_maxBytes g > 0 \<and> int (length w) > sg_maxBytes g
            then (TruncateUTF8 w (sg_maxBytes g), True) else (w, False)))"

definition clean_attr :: "span_governor \<Rightarrow> string \<times> string \<Rightarrow> (string \<times> string) \<times> bool" where
  "clean_attr g kv =
     (case kv of (k, v) \<Rightarrow>
        if to_lower k \<in> set (sg_redactAttr g) then ((k, RedactedPlaceholder), False)
        else (let (w, cut) = clean g v in ((k, w), cut)))"

definition span_scrub :: "span_governor \<Rightarrow> span \<Rightarrow> span" where
  "span_scrub g s =
     (let (e, cut) = clean g (s_Error s);
          attrs = map (clean_attr g) (s_Attrs s)
      in s\<lparr>s_Error := e, s_Attrs := map fst attrs,
           s_Truncated := s_Truncated s \<or> cut \<or> list_ex snd attrs\<rparr>)"

definition too_fast :: "span_governor \<Rightarrow> span \<Rightarrow> bool" where
  "too_fast g s \<longleftrightarrow>
     sg_minDuration g > 0 \<and> s_Error s = [] \<and>
     trunc_int (s_DurationMS s * 1000000) < sg_minDuration g"

definition span_Admit :: "span_governor \<Rightarrow> span \<Rightarrow> span_governor \<times> span \<times> span_reason option" where
  "span_Admit g s0 =
     (if \<not> sg_enabled g then (g, s0, Some SpanDisabled)
      else
        (let s1 = s0\<lparr>s_Name := trim_space (s_Name s0), s_Kind := to_lower (trim_space (s_Kind s0))\<rparr>
         in if s_Name s1 = [] then (g, s1, Some SpanEmpty)
            else if s_ParentSpanID s1 = [] \<and> sg_dropOrphans g then (g, s1, Some SpanOrphan)
            else if too_fast g s1 then (g, s1, Some SpanTooFast)
            else
              (let s2 = span_scrub g s1
               in if s_ParentSpanID s2 \<noteq> [] then
                    (let (c, ok) = Allow (sg_counter g) (s_ParentSpanID s2) (sg_maxPer g);
                         g' = g\<lparr>sg_counter := c\<rparr>
                     in if ok then (g', s2, None) else (g', s2, Some SpanRequestCap))
                  else (g, s2, None))))"

subsection \<open>Shape of a step\<close>

definition span_named :: "span \<Rightarrow> span" where
  "span_named s = s\<lparr>s_Name := trim_space (s_Name s), s_Kind := to_lower (trim_space (s_Kind s))\<rparr>"

definition span_refused :: "span_governor \<Rightarrow> span \<Rightarrow> bool" where
  "span_refused g s \<longleftrightarrow>
     \<not> sg_enabled g \<or> trim_space (s_Name s) = [] \<or> (s_ParentSpanID s = [] \<and> sg_dropOrphans g) \<or>
     too_fast g s"

lemma span_scrub_simps [simp]:
  "s_ParentSpanID (span_scrub g s) = s_ParentSpanID s" "s_Name (span_scrub g s) = s_Name s"
  "s_DurationMS (span_scrub g s) = s_DurationMS s"
  by (simp_all add: span_scrub_def Let_def split: prod.split)

lemma span_named_simps [simp]:
  "s_ParentSpanID (span_named s) = s_ParentSpanID s" "s_Error (span_named s) = s_Error s"
  "s_Attrs (span_named s) = s_Attrs s" "s_Name (span_named s) = trim_space (s_Name s)"
  "too_fast g (span_named s) = too_fast g s"
  by (simp_all add: span_named_def too_fast_def)

lemma span_Admit_unfold:
  "span_Admit g s =
     (if span_refused g s then (g, snd (span_Admit g s))
      else if s_ParentSpanID s \<noteq> [] then
        (let (c, ok) = Allow (sg_counter g) (s_ParentSpanID s) (sg_maxPer g)
         in (g\<lparr>sg_counter := c\<rparr>, span_scrub g (span_named s), if ok then None else Some SpanRequestCap))
      else (g, span_scrub g (span_named s), None))"
  "span_refused g s \<Longrightarrow> snd (snd (span_Admit g s)) \<noteq> None"
  unfolding span_Admit_def Let_def span_named_def [symmetric]
  by (auto simp: span_refused_def split: prod.split)

lemma span_Admit_stored:
  assumes "span_Admit g s0 = (g', s, None)"
  shows "\<not> span_refused g s0" and "s = span_scrub g (span_named s0)"
proof -
  show ok: "\<not> span_refused g s0"
    using span_Admit_unfold(2) [of g s0] assms by auto
  show "s = span_scrub g (span_named s0)"
    using assms span_Admit_unfold(1) [of g s0] ok by (auto split: if_splits prod.splits)
qed

lemma clean_bounded:
  "0 < sg_maxBytes g \<Longrightarrow> int (length (fst (clean g v))) \<le> sg_maxBytes g"
  using TruncateUTF8_length [of "sg_maxBytes g" "scrub_text (sg_patterns g) v"]
  by (auto simp: clean_def Let_def)

lemma clean_uncut: "\<not> snd (clean g v) \<Longrightarrow> fst (clean g v) = (if v = [] then [] else scrub_text (sg_patterns g) v)"
  by (auto simp: clean_def Let_def split: if_splits)

lemma clean_attr_fst:
  "fst (clean_attr g (k, v)) =
     (k, if to_lower k \<in> set (sg_redactAttr g) then RedactedPlaceholder else fst (clean g v))"
  by (simp add: clean_attr_def split: prod.split)

lemma span_scrub_fields:
  "s_Error (span_scrub g s) = fst (clean g (s_Error s))"
  "s_Attrs (span_scrub g s) = map (fst \<circ> clean_attr g) (s_Attrs s)"
  "s_Truncated (span_scrub g s) \<longleftrightarrow>
     s_Truncated s \<or> snd (clean g (s_Error s)) \<or> list_ex (snd \<circ> clean_attr g) (s_Attrs s)"
  by (simp_all add: span_scrub_def Let_def list_ex_iff split: prod.split)


definition sample_spans :: spans_cfg where
  "sample_spans = \<lparr>sp_Enabled = True, sp_MinDuration = 5000000, sp_MaxPerRequest = 0, sp_MaxAttrBytes = 20,
     sp_DropOrphans = None, sp_RetentionMaxAge = 0,
     sp_Redact = \<lparr>tr_Patterns = [''token''], tr_Fields = [''Authorization'']\<rparr>\<rparr>"

definition sample_span_governor :: span_governor where
  "sample_span_governor = the (span_New sample_env (Some sample_spans))"

definition sample_span :: span where
  "sample_span = \<lparr>s_ID = 0, s_Start = 0, s_Service = ''shop'', s_TraceID = ''t'', s_SpanID = ''i1'',
     s_ParentSpanID = ''s1'', s_Name = '' db.query '', s_Kind = ''DB'', s_DurationMS = 25 / 2, s_Error = [],
     s_Attrs = [(''authorization'', ''Bearer 1''), (''db.statement'', ''select * from t where token = 1'')],
     s_Route = [], s_Source = ''sdk'', s_Truncated = False\<rparr>"


subsection \<open>The cap per request\<close>

definition span_load :: "span_governor \<Rightarrow> string \<Rightarrow> int" where
  "span_load g k = counter_used (sg_counter g) k"

definition span_room :: "span_governor \<Rightarrow> string set \<Rightarrow> bool" where
  "span_room g S \<longleftrightarrow> counter_room (sg_counter g) S"

lemma span_Admit_counts:
  assumes step: "span_Admit g s = (g', s', r)"
  shows "(g' = g \<and> (r = None \<longrightarrow> s_ParentSpanID s = [])) \<or>
    (\<exists>c ok. s_ParentSpanID s \<noteq> [] \<and> Allow (sg_counter g) (s_ParentSpanID s) (sg_maxPer g) = (c, ok) \<and>
       g' = g\<lparr>sg_counter := c\<rparr> \<and> (r = None \<longleftrightarrow> ok))"
proof (cases "span_refused g s")
  case True
  then have "g' = g" "r \<noteq> None"
    using step span_Admit_unfold [of g s] by auto
  then show ?thesis by blast
next
  case False
  obtain c ok where a: "Allow (sg_counter g) (s_ParentSpanID s) (sg_maxPer g) = (c, ok)"
    by fastforce
  show ?thesis
    using step span_Admit_unfold(1) [of g s] False a by (cases "s_ParentSpanID s = []") auto
qed

interpretation innerspan: capped_stream span_Admit s_ParentSpanID span_load sg_maxPer span_room
proof unfold_locales
  show "sg_maxPer g' = sg_maxPer g" if "span_Admit g s = (g', s', r)" for g s g' s' r
    using span_Admit_counts [OF that] by auto
next
  fix g S s g' s' r
  assume room: "span_room g S" and cap: "0 < sg_maxPer g" and s: "s_ParentSpanID s \<in> S"
    and step: "span_Admit g s = (g', s', r)"
  note room' = room [unfolded span_room_def]
  note cases = span_Admit_counts [OF step]
  show "span_room g' S"
    using cases room counter_room_Allow(1) [OF room' s cap] by (auto simp: span_room_def)
  show "span_load g' k = span_load g k + (if r = None \<and> s_ParentSpanID s = k then 1 else 0)" if "k \<noteq> []" for k
    using cases that counter_room_Allow(3) [OF room' s cap] by (auto simp: span_load_def)
next
  fix g S s g' s'
  assume room: "span_room g S" and cap: "0 < sg_maxPer g" and s: "s_ParentSpanID s \<in> S"
    and step: "span_Admit g s = (g', s', None)" and span: "s_ParentSpanID s \<noteq> []"
  show "span_load g (s_ParentSpanID s) < sg_maxPer g"
    using span_Admit_counts [OF step] span
      counter_room_Allow(2) [OF room [unfolded span_room_def] s cap] by (auto simp: span_load_def)
qed

text \<open>The spans a batch leaves in the store.\<close>

fun span_store :: "span_governor \<Rightarrow> span list \<Rightarrow> span list" where
  "span_store g [] = []"
| "span_store g (s # ss) =
     (case span_Admit g s of (g', s', r) \<Rightarrow>
        (if r = None then s' # span_store g' ss else span_store g' ss))"

lemma span_store_count:
  "length (filter (\<lambda>s. s_ParentSpanID s = k) (span_store g ss)) = innerspan.stored_for k g ss"
proof (induction ss arbitrary: g)
  case (Cons s ss)
  obtain g' s' r where step: "span_Admit g s = (g', s', r)"
    by (cases "span_Admit g s") auto
  then have "r = None \<Longrightarrow> s_ParentSpanID s' = s_ParentSpanID s"
    using span_Admit_stored [of g s g' s'] by simp
  with step Cons show ?case by auto
qed simp

text \<open>
  A loop of queries cannot flood the store: while at most \<open>DefaultMaxTrackedKeys\<close> requests
  contribute, no request keeps more spans than the cap the governor was built with, in whatever
  order they arrive.
\<close>

theorem spans_capped:
  assumes "span_New env cfg = Some g" and "0 < sg_maxPer g" and "k \<noteq> []"
    and "card (s_ParentSpanID ` set ss) \<le> nat DefaultMaxTrackedKeys"
  shows "int (length (filter (\<lambda>s. s_ParentSpanID s = k) (span_store g ss))) \<le> sg_maxPer g"
proof -
  have "sg_counter g = NewCounter 0"
    using assms(1) by (auto simp: span_New_def Let_def split: option.splits if_splits)
  then have "span_room g (s_ParentSpanID ` set ss)" "span_load g k = 0"
    using counter_room_New [of "s_ParentSpanID ` set ss" 0] assms(4)
    by (simp_all add: span_room_def span_load_def)
  then show ?thesis
    using innerspan.stored_within_cap [of g "s_ParentSpanID ` set ss" ss k] assms(2,3)
    by (simp add: span_store_count)
qed

theorem spans_capped_witness:
  "length (filter (\<lambda>s. s_ParentSpanID s = ''s1'') (span_store sample_span_governor (replicate 999 sample_span))) \<le> 200"
proof -
  have "span_New sample_env (Some sample_spans) \<noteq> None" and cap: "sg_maxPer sample_span_governor = 200"
    by code_simp+
  then have new: "span_New sample_env (Some sample_spans) = Some sample_span_governor"
    unfolding sample_span_governor_def by (simp_all only: option.collapse not_False_eq_True)
  have "card (s_ParentSpanID ` set (replicate 999 sample_span)) \<le> nat DefaultMaxTrackedKeys"
    by (simp add: DefaultMaxTrackedKeys_def)
  from spans_capped [OF new _ _ this, of "''s1''"] cap show ?thesis
    by simp
qed

end
