(* ===== verification/HttpRecord.thy ===== *)
theory HttpRecord
  imports Complex_Main Prelude
begin

text \<open>
  The record of one exchange (\<open>ext/record.go\<close>) that the interceptor produces and the analyses read,
  and the bound on how many of them an analysis reads.  Times are nanoseconds, 0 is the zero time.
\<close>

record http_record =
  hr_ID :: int
  hr_Time :: int
  hr_Service :: string
  hr_Method :: string
  hr_Path :: string
  hr_Query :: string
  hr_Route :: string
  hr_Status :: int
  hr_DurationMS :: rat
  hr_Remote :: string
  hr_Source :: string
  hr_TraceID :: string
  hr_SpanID :: string
  hr_ParentSpanID :: string
  hr_Stream :: bool
  hr_RequestHeaders :: "string gomap"
  hr_ResponseHeaders :: "string gomap"
  hr_RequestBody :: string
  hr_ResponseBody :: string
  hr_ReqTruncated :: bool
  hr_RespTruncated :: bool
  hr_ReqBytes :: int
  hr_RespBytes :: int
  hr_Labels :: "string gomap"
  hr_MatchedRules :: "string list"
  hr_Meters :: "rat gomap"

definition DefaultAnalysisMaxRows :: int where
  "DefaultAnalysisMaxRows = 20000"

definition MaxAnalysisMaxRows :: int where
  "MaxAnalysisMaxRows = 500000"

definition AnalysisLimit :: "int \<Rightarrow> int" where
  "AnalysisLimit limit =
     (if limit \<le> 0 then DefaultAnalysisMaxRows
      else if limit > MaxAnalysisMaxRows then MaxAnalysisMaxRows
      else limit)"

lemma AnalysisLimit_bounds: "0 < AnalysisLimit n \<and> AnalysisLimit n \<le> MaxAnalysisMaxRows"
  by (simp add: AnalysisLimit_def DefaultAnalysisMaxRows_def MaxAnalysisMaxRows_def)

end
