(* ===== verification/Capture.thy ===== *)
theory Capture
  imports Url
begin

text \<open>
  Capture plumbing of \<open>internal/proxy\<close>: the bounded tap \<open>limitedBuffer\<close>, the response recorder
  \<open>recordingWriter\<close> on the calls a handler makes, and the GraphQL operation name of a request body.
\<close>

subsection \<open>The bounded tap\<close>

record limited_buffer =
  lb_buf :: string
  lb_limit :: int
  lb_total :: int
  lb_truncated :: bool

definition new_buffer :: "int \<Rightarrow> limited_buffer" where
  "new_buffer limit = \<lparr>lb_buf = [], lb_limit = limit, lb_total = 0, lb_truncated = False\<rparr>"

definition lb_Write :: "limited_buffer \<Rightarrow> string \<Rightarrow> limited_buffer" where
  "lb_Write l p =
     (let l1 = l\<lparr>lb_total := lb_total l + int (length p)\<rparr>;
          remaining = lb_limit l - int (length (lb_buf l))
      in if remaining > 0 then
           (if int (length p) > remaining
            then l1\<lparr>lb_buf := lb_buf l @ take (nat remaining) p, lb_truncated := True\<rparr>
            else l1\<lparr>lb_buf := lb_buf l @ p\<rparr>)
         else if length p > 0 then l1\<lparr>lb_truncated := True\<rparr>
         else l1)"

text \<open>The body a handler reads in chunks, mirrored by \<open>teeReadCloser.Read\<close>.\<close>

definition tee_Read :: "string \<Rightarrow> limited_buffer \<Rightarrow> string \<times> limited_buffer" where
  "tee_Read chunk tee = (chunk, if length chunk > 0 then lb_Write tee chunk else tee)"

text \<open>The abstract tap: a function of the limit and of everything that went through.\<close>

definition captured :: "int \<Rightarrow> string \<Rightarrow> limited_buffer" where
  "captured limit s =
     \<lparr>lb_buf = take (nat limit) s, lb_limit = limit, lb_total = int (length s),
      lb_truncated = (nat limit < length s)\<rparr>"

lemma new_buffer_captured: "new_buffer limit = captured limit []"
  by (simp add: new_buffer_def captured_def)

lemma lb_Write_captured: "lb_Write (captured limit s) p = captured limit (s @ p)"
proof (cases "int (length s) < limit")
  case True
  then have "nat (limit - int (length s)) = nat limit - length s"
    by (simp add: nat_diff_distrib')
  with True show ?thesis
    by (auto simp: lb_Write_def captured_def Let_def)
next
  case False
  then have "limit - int (length (take (nat limit) s)) \<le> 0"
    by auto
  moreover have "nat limit \<le> length s"
    using False by linarith
  ultimately show ?thesis
    by (cases p) (auto simp: lb_Write_def captured_def Let_def)
qed

lemma fold_lb_Write: "fold (\<lambda>p l. lb_Write l p) ws (captured limit s) = captured limit (s @ concat ws)"
  by (induction ws arbitrary: s) (simp_all add: lb_Write_captured)

lemma fold_tee_Read:
  "fold (\<lambda>p l. snd (tee_Read p l)) ws (captured limit s) = captured limit (s @ concat ws)"
  by (induction ws arbitrary: s) (auto simp: tee_Read_def lb_Write_captured)

text \<open>
  C38. The tap refines its specification: however a body is cut into writes, the buffer holds the first
  \<open>limit\<close> bytes of it, the total counts all of them, and the truncation flag is set exactly when
  something was left out; the reader of a tee gets every chunk as it came.
\<close>

theorem limited_buffer_refines:
  "fold (\<lambda>p l. lb_Write l p) ws (new_buffer limit) = captured limit (concat ws) \<and>
   fold (\<lambda>p l. snd (tee_Read p l)) ws (new_buffer limit) = captured limit (concat ws) \<and>
   map (\<lambda>p. fst (tee_Read p (new_buffer limit))) ws = ws \<and>
   int (length (lb_buf (captured limit (concat ws)))) \<le> max 0 limit"
  using fold_lb_Write [of ws limit "[]"] fold_tee_Read [of ws limit "[]"]
  by (simp add: new_buffer_captured tee_Read_def) (simp add: captured_def)

subsection \<open>The response recorder\<close>

text \<open>The writer under the recorder: its header map, and the calls it received.\<close>

datatype resp_call = CallHeader int | CallWrite string | CallFlush

record response =
  resp_Header :: header
  resp_calls :: "resp_call list"
  resp_flusher :: bool

record rec_writer =
  rw_under :: response
  rw_status :: int
  rw_written :: int
  rw_wroteHeader :: bool
  rw_buf :: "limited_buffer option"
  rw_flushes :: int
  rw_hijacked :: bool
  rw_onStream :: bool
  rw_opened :: int
  rw_streamNoted :: bool

text \<open>
  What a handler does with its writer: set a response header, send the status line, write bytes of
  which the connection accepts \<open>n\<close>, flush, or take over the connection, with or without success.
\<close>

datatype handler_op =
    SetHeader string string | SendHeader int | SendBytes string nat | SendFlush | TakeOver bool

definition isEventStream :: "string \<Rightarrow> bool" where
  "isEventStream ct \<longleftrightarrow> equal_fold (trim_space (fst (cut_on (CHR '';'') ct))) ''text/event-stream''"

definition forward :: "resp_call \<Rightarrow> rec_writer \<Rightarrow> rec_writer" where
  "forward c w = w\<lparr>rw_under := (rw_under w)\<lparr>resp_calls := resp_calls (rw_under w) @ [c]\<rparr>\<rparr>"

definition rw_WriteHeader :: "int \<Rightarrow> rec_writer \<Rightarrow> rec_writer" where
  "rw_WriteHeader code w =
     forward (CallHeader code)
       (if \<not> rw_wroteHeader w then
          (let w1 = w\<lparr>rw_status := code, rw_wroteHeader := True\<rparr>
           in if rw_onStream w1 \<and> isEventStream (header_Get (resp_Header (rw_under w1)) ''Content-Type'')
              then w1\<lparr>rw_streamNoted := True, rw_opened := rw_opened w1 + 1\<rparr> else w1)
        else w)"

definition rw_Write :: "string \<Rightarrow> nat \<Rightarrow> rec_writer \<Rightarrow> rec_writer" where
  "rw_Write p n w0 =
     (let w1 = (if \<not> rw_wroteHeader w0 then rw_WriteHeader 200 w0 else w0);
          w2 = forward (CallWrite p) w1;
          w3 = w2\<lparr>rw_written := rw_written w2 + int n\<rparr>
      in case rw_buf w3 of
           None \<Rightarrow> w3
         | Some b \<Rightarrow> if n > 0 then w3\<lparr>rw_buf := Some (lb_Write b (take n p))\<rparr> else w3)"

definition rw_Flush :: "rec_writer \<Rightarrow> rec_writer" where
  "rw_Flush w =
     (let w1 = w\<lparr>rw_flushes := rw_flushes w + 1\<rparr>
      in if resp_flusher (rw_under w1) then forward CallFlush w1 else w1)"

definition rw_Hijack :: "bool \<Rightarrow> rec_writer \<Rightarrow> rec_writer" where
  "rw_Hijack ok w = (if ok then w\<lparr>rw_hijacked := True\<rparr> else w)"

fun handler_step :: "handler_op \<Rightarrow> rec_writer \<Rightarrow> rec_writer" where
  "handler_step (SetHeader k v) w =
     w\<lparr>rw_under := (rw_under w)\<lparr>resp_Header := header_Set k v (resp_Header (rw_under w))\<rparr>\<rparr>"
| "handler_step (SendHeader code) w = rw_WriteHeader code w"
| "handler_step (SendBytes p n) w = rw_Write p n w"
| "handler_step SendFlush w = rw_Flush w"
| "handler_step (TakeOver ok) w = rw_Hijack ok w"

definition serve :: "handler_op list \<Rightarrow> rec_writer \<Rightarrow> rec_writer" where
  "serve ops w = fold handler_step ops w"

text \<open>What the client sees of the same handler without the recorder.\<close>

fun direct :: "bool \<Rightarrow> bool \<Rightarrow> handler_op list \<Rightarrow> resp_call list" where
  "direct fl sent [] = []"
| "direct fl sent (SetHeader k v # ops) = direct fl sent ops"
| "direct fl sent (SendHeader code # ops) = CallHeader code # direct fl True ops"
| "direct fl sent (SendBytes p n # ops) =
     (if sent then [] else [CallHeader 200]) @ CallWrite p # direct fl True ops"
| "direct fl sent (SendFlush # ops) = (if fl then [CallFlush] else []) @ direct fl sent ops"
| "direct fl sent (TakeOver ok # ops) = direct fl sent ops"

definition accepted :: "handler_op list \<Rightarrow> string list" where
  "accepted ops = concat (map (\<lambda>op. case op of SendBytes p n \<Rightarrow> [take n p] | _ \<Rightarrow> []) ops)"

fun first_status :: "handler_op list \<Rightarrow> int" where
  "first_status [] = 200"
| "first_status (SendHeader code # ops) = code"
| "first_status (SendBytes p n # ops) = 200"
| "first_status (_ # ops) = first_status ops"

definition well_behaved :: "handler_op list \<Rightarrow> bool" where
  "well_behaved ops \<longleftrightarrow> list_all (\<lambda>op. case op of SendBytes p n \<Rightarrow> n \<le> length p | _ \<Rightarrow> True) ops"

named_theorems recorder "how one call of the handler changes each field of the recorder"

lemma forward_fields [simp]:
  "rw_status (forward c w) = rw_status w" "rw_written (forward c w) = rw_written w"
  "rw_wroteHeader (forward c w) = rw_wroteHeader w" "rw_buf (forward c w) = rw_buf w"
  "rw_hijacked (forward c w) = rw_hijacked w" "rw_onStream (forward c w) = rw_onStream w"
  "rw_opened (forward c w) = rw_opened w" "rw_streamNoted (forward c w) = rw_streamNoted w"
  "resp_calls (rw_under (forward c w)) = resp_calls (rw_under w) @ [c]"
  "resp_flusher (rw_under (forward c w)) = resp_flusher (rw_under w)"
  "resp_Header (rw_under (forward c w)) = resp_Header (rw_under w)"
  by (simp_all add: forward_def)

lemma WriteHeader_fields [recorder]:
  "rw_status (rw_WriteHeader code w) = (if rw_wroteHeader w then rw_status w else code)"
  "rw_written (rw_WriteHeader code w) = rw_written w"
  "rw_wroteHeader (rw_WriteHeader code w)"
  "rw_buf (rw_WriteHeader code w) = rw_buf w"
  "rw_onStream (rw_WriteHeader code w) = rw_onStream w"
  "resp_calls (rw_under (rw_WriteHeader code w)) = resp_calls (rw_under w) @ [CallHeader code]"
  "resp_flusher (rw_under (rw_WriteHeader code w)) = resp_flusher (rw_under w)"
  by (simp_all add: rw_WriteHeader_def Let_def)

lemma Write_fields [recorder]:
  "rw_status (rw_Write p n w) = (if rw_wroteHeader w then rw_status w else 200)"
  "rw_written (rw_Write p n w) = rw_written w + int n"
  "rw_wroteHeader (rw_Write p n w)"
  "rw_buf (rw_Write p n w) =
     (case rw_buf w of None \<Rightarrow> None | Some b \<Rightarrow> Some (if n > 0 then lb_Write b (take n p) else b))"
  "rw_onStream (rw_Write p n w) = rw_onStream w"
  "resp_calls (rw_under (rw_Write p n w)) =
     resp_calls (rw_under w) @ (if rw_wroteHeader w then [] else [CallHeader 200]) @ [CallWrite p]"
  "resp_flusher (rw_under (rw_Write p n w)) = resp_flusher (rw_under w)"
  by (auto simp: rw_Write_def Let_def recorder split: option.split)

lemma Flush_fields [recorder]:
  "rw_status (rw_Flush w) = rw_status w" "rw_written (rw_Flush w) = rw_written w"
  "rw_wroteHeader (rw_Flush w) = rw_wroteHeader w" "rw_buf (rw_Flush w) = rw_buf w"
  "rw_onStream (rw_Flush w) = rw_onStream w"
  "resp_calls (rw_under (rw_Flush w)) =
     resp_calls (rw_under w) @ (if resp_flusher (rw_under w) then [CallFlush] else [])"
  "resp_flusher (rw_under (rw_Flush w)) = resp_flusher (rw_under w)"
  by (simp_all add: rw_Flush_def Let_def)

lemma Hijack_fields [recorder]:
  "rw_status (rw_Hijack ok w) = rw_status w" "rw_written (rw_Hijack ok w) = rw_written w"
  "rw_wroteHeader (rw_Hijack ok w) = rw_wroteHeader w" "rw_buf (rw_Hijack ok w) = rw_buf w"
  "rw_onStream (rw_Hijack ok w) = rw_onStream w" "rw_under (rw_Hijack ok w) = rw_under w"
  by (simp_all add: rw_Hijack_def)

definition stream_inv :: "rec_writer \<Rightarrow> bool" where
  "stream_inv w \<longleftrightarrow>
     rw_opened w = (if rw_streamNoted w then 1 else 0) \<and> (rw_streamNoted w \<longrightarrow> rw_wroteHeader w \<and> rw_onStream w)"

lemma stream_inv_WriteHeader: "stream_inv w \<Longrightarrow> stream_inv (rw_WriteHeader code w)"
  by (auto simp: stream_inv_def rw_WriteHeader_def Let_def)

lemma stream_inv_other [simp]:
  "stream_inv (forward c w) = stream_inv w" "stream_inv (w\<lparr>rw_written := i\<rparr>) = stream_inv w"
  "stream_inv (w\<lparr>rw_buf := b\<rparr>) = stream_inv w" "stream_inv (w\<lparr>rw_flushes := i\<rparr>) = stream_inv w"
  "stream_inv (w\<lparr>rw_hijacked := h\<rparr>) = stream_inv w" "stream_inv (w\<lparr>rw_under := u\<rparr>) = stream_inv w"
  by (simp_all add: stream_inv_def)

lemma stream_inv_step: "stream_inv w \<Longrightarrow> stream_inv (handler_step op w)"
  by (cases op)
     (simp_all add: rw_Write_def rw_Flush_def rw_Hijack_def Let_def stream_inv_WriteHeader split: option.split)

lemma stream_inv_serve: "stream_inv w \<Longrightarrow> stream_inv (serve ops w)"
  unfolding serve_def by (induction ops arbitrary: w) (simp_all add: stream_inv_step)

lemma serve_Nil [simp]: "serve [] w = w"
  by (simp add: serve_def)

lemma serve_Cons [simp]: "serve (op # ops) w = serve ops (handler_step op w)"
  by (simp add: serve_def)

lemma serve_calls:
  "resp_calls (rw_under (serve ops w)) =
     resp_calls (rw_under w) @ direct (resp_flusher (rw_under w)) (rw_wroteHeader w) ops"
proof (induction ops arbitrary: w)
  case (Cons op ops)
  then show ?case by (cases op) (simp_all add: recorder)
qed simp

lemma serve_status:
  "rw_wroteHeader w \<or> rw_status w = 200 \<Longrightarrow>
     rw_status (serve ops w) = (if rw_wroteHeader w then rw_status w else first_status ops)"
proof (induction ops arbitrary: w)
  case (Cons op ops)
  then show ?case by (cases op) (auto simp: recorder)
qed auto

lemma serve_bytes:
  "rw_written (serve ops w) = rw_written w + int (length (concat (accepted ops))) \<and>
   rw_buf (serve ops w) = map_option (fold (\<lambda>p l. lb_Write l p) (filter (\<lambda>p. p \<noteq> []) (accepted ops))) (rw_buf w)"
  if "well_behaved ops"
  using that
proof (induction ops arbitrary: w)
  case Nil
  then show ?case by (simp add: accepted_def option.map_ident)
next
  case (Cons op ops)
  then have "well_behaved ops" "well_behaved [op]"
    by (simp_all add: well_behaved_def)
  with Cons.IH [of "handler_step op w"] show ?case
    by (cases op) (auto simp: recorder accepted_def well_behaved_def option.map_comp comp_def
      split: option.split)
qed

lemma fold_lb_Write_nonempty:
  "fold (\<lambda>p l. lb_Write l p) (filter (\<lambda>p. p \<noteq> []) ws) (captured limit s) = captured limit (s @ concat ws)"
  by (induction ws arbitrary: s) (auto simp: lb_Write_captured)

definition new_recorder :: "response \<Rightarrow> bool \<Rightarrow> limited_buffer option \<Rightarrow> rec_writer" where
  "new_recorder u onStream buf =
     \<lparr>rw_under = u, rw_status = 200, rw_written = 0, rw_wroteHeader = False, rw_buf = buf,
      rw_flushes = 0, rw_hijacked = False, rw_onStream = onStream, rw_opened = 0, rw_streamNoted = False\<rparr>"

lemma new_recorder_fields [simp]:
  "rw_under (new_recorder u onStream buf) = u" "rw_status (new_recorder u onStream buf) = 200"
  "rw_written (new_recorder u onStream buf) = 0" "\<not> rw_wroteHeader (new_recorder u onStream buf)"
  "rw_buf (new_recorder u onStream buf) = buf" "rw_onStream (new_recorder u onStream buf) = onStream"
  "stream_inv (new_recorder u onStream buf)"
  by (simp_all add: new_recorder_def stream_inv_def)

lemma serve_onStream: "rw_onStream (serve ops w) = rw_onStream w"
proof (induction ops arbitrary: w)
  case (Cons op ops)
  then show ?case by (cases op) (simp_all add: recorder)
qed simp

text \<open>
  C26. Recording never alters the exchange: the connection receives exactly the calls the handler
  makes, with or without a buffer, whose content is the first \<open>limit\<close> accepted bytes; the recorded
  size counts every accepted byte; and a stream is announced to the gauge at most once, exactly when
  the interceptor will count it as closed.
\<close>

theorem recorder_transparent:
  fixes u onStream lim
  assumes "well_behaved ops"
  defines "w \<equiv> serve ops (new_recorder u onStream (map_option new_buffer lim))"
  shows "resp_calls (rw_under w) = resp_calls u @ direct (resp_flusher u) False ops \<and>
    rw_written w = int (length (concat (accepted ops))) \<and>
    rw_buf w = map_option (\<lambda>n. captured n (concat (accepted ops))) lim \<and>
    rw_status w = first_status ops \<and>
    rw_opened w = (if rw_streamNoted w then 1 else 0) \<and> (rw_streamNoted w \<longrightarrow> onStream)"
proof -
  let ?w0 = "new_recorder u onStream (map_option new_buffer lim)"
  have "stream_inv w" "rw_onStream w = onStream"
    unfolding w_def by (simp_all add: stream_inv_serve serve_onStream)
  moreover have "rw_buf w = map_option (\<lambda>n. captured n (concat (accepted ops))) lim"
    using serve_bytes [OF assms(1), of ?w0] fold_lb_Write_nonempty [of "accepted ops" _ "[]"]
    by (simp add: w_def option.map_comp comp_def new_buffer_captured)
  ultimately show ?thesis
    using serve_bytes [OF assms(1), of ?w0] serve_status [of ?w0 ops] serve_calls [of ops ?w0]
    unfolding w_def stream_inv_def by auto
qed

definition empty_response :: response where
  "empty_response = \<lparr>resp_Header = [], resp_calls = [], resp_flusher = True\<rparr>"

theorem recorder_transparent_witness:
  "resp_calls (rw_under (serve [SendBytes ''hello'' 5, SendFlush] (new_recorder empty_response True (Some (new_buffer 3)))))
     = [CallHeader 200, CallWrite ''hello'', CallFlush]"
proof -
  have "well_behaved [SendBytes ''hello'' 5, SendFlush]"
    "direct True False [SendBytes ''hello'' 5, SendFlush] = [CallHeader 200, CallWrite ''hello'', CallFlush]"
    by code_simp+
  then show ?thesis
    using recorder_transparent [of "[SendBytes ''hello'' 5, SendFlush]" empty_response True "Some 3"]
    by (simp add: empty_response_def)
qed

text \<open>
  An informational response sticks: a handler that announces \<open>103\<close> and then answers, as the
  reverse proxy does when the upstream sends early hints, is recorded with the informational status,
  whatever it answers.
\<close>

theorem informational_status_sticks:
  "rw_status (serve (SendHeader 103 # SendHeader code # ops) (new_recorder u onStream buf)) = 103"
  using serve_status [of "new_recorder u onStream buf" "SendHeader 103 # SendHeader code # ops"]
  by simp

end
