(* ===== verification/GraphQL.thy ===== *)
theory GraphQL
  imports Prelude
begin

text \<open>
  The GraphQL operation name of a request body (\<open>internal/proxy/graphql.go\<close>), over the runes of a
  string as a \<open>range\<close> loop decodes them.  Letters and digits above ASCII are the tables of package
  \<open>unicode\<close>, a parameter; \<open>gql_decode\<close> is \<open>json.Unmarshal\<close> into the two fields of a request.
\<close>

subsection \<open>Runes\<close>

definition cont_byte :: "char \<Rightarrow> bool" where
  "cont_byte c \<longleftrightarrow> 128 \<le> byte c \<and> byte c \<le> 191"

definition low6 :: "char \<Rightarrow> nat" where
  "low6 c = byte c mod 64"

text \<open>The first rune of a non-empty string and its width; an invalid sequence is U+FFFD of width one.\<close>

definition decode_rune :: "string \<Rightarrow> nat \<times> nat" where
  "decode_rune s =
     (case s of
        [] \<Rightarrow> (65533, 1)
      | c # cs \<Rightarrow>
          (let b = byte c in
           if b < 128 then (b, 1)
           else if 194 \<le> b \<and> b \<le> 223 then
             (case cs of
                c1 # _ \<Rightarrow> if cont_byte c1 then ((b - 192) * 64 + low6 c1, 2) else (65533, 1)
              | [] \<Rightarrow> (65533, 1))
           else if 224 \<le> b \<and> b \<le> 239 then
             (case cs of
                c1 # c2 # _ \<Rightarrow>
                  if cont_byte c1 \<and> cont_byte c2 \<and> (b = 224 \<longrightarrow> 160 \<le> byte c1) \<and> (b = 237 \<longrightarrow> byte c1 \<le> 159)
                  then (((b - 224) * 64 + low6 c1) * 64 + low6 c2, 3) else (65533, 1)
              | _ \<Rightarrow> (65533, 1))
           else if 240 \<le> b \<and> b \<le> 244 then
             (case cs of
                c1 # c2 # c3 # _ \<Rightarrow>
                  if cont_byte c1 \<and> cont_byte c2 \<and> cont_byte c3 \<and>
                     (b = 240 \<longrightarrow> 144 \<le> byte c1) \<and> (b = 244 \<longrightarrow> byte c1 \<le> 143)
                  then ((((b - 240) * 64 + low6 c1) * 64 + low6 c2) * 64 + low6 c3, 4) else (65533, 1)
              | _ \<Rightarrow> (65533, 1))
           else (65533, 1)))"

lemma decode_rune_width: "1 \<le> snd (decode_rune s)"
  by (auto simp: decode_rune_def Let_def split: list.split)

function runes :: "nat \<Rightarrow> string \<Rightarrow> (nat \<times> nat) list" where
  "runes i [] = []"
| "runes i (c # cs) =
     (let (r, n) = decode_rune (c # cs) in (i, r) # runes (i + n) (drop n (c # cs)))"
  by pat_completeness auto

termination runes
proof (relation "measure (\<lambda>(i, s). length s)", goal_cases)
  case 1
  then show ?case by simp
next
  case (2 i c cs x r n)
  then show ?case
    using decode_rune_width [of "c # cs"] by (metis (mono_tags, lifting) One_nat_def Suc_le_lessD diff_less
        in_measure length_drop length_greater_0_conv list.distinct(1) split_conv snd_conv)
qed

text \<open>Every ASCII byte of a string is a rune of its own.\<close>

lemma decode_rune_ascii:
  assumes "decode_rune (c # cs) = (r, n)"
  shows "(byte c < 128 \<and> r = byte c \<and> n = 1) \<or>
    (128 \<le> byte c \<and> (\<forall>x \<in> set (take n (c # cs)). 128 \<le> byte x))"
  using assms
  by (auto simp: decode_rune_def Let_def cont_byte_def split: if_splits list.splits)

lemma ascii_runes:
  "x \<in> set s \<Longrightarrow> byte x < 128 \<Longrightarrow> \<exists>j. (j, byte x) \<in> set (runes i s)"
proof (induction i s rule: runes.induct)
  case (1 i)
  then show ?case by simp
next
  case (2 i c cs)
  obtain r n where d: "decode_rune (c # cs) = (r, n)"
    by fastforce
  have split: "set (c # cs) = set (take n (c # cs)) \<union> set (drop n (c # cs))"
    by (metis append_take_drop_id set_append)
  show ?case
  proof (cases "x \<in> set (drop n (c # cs))")
    case True
    then show ?thesis
      using "2.IH" [OF d [symmetric] refl True "2.prems"(2)] by (auto simp: d)
  next
    case False
    with split "2.prems" have "x \<in> set (take n (c # cs))"
      by blast
    with decode_rune_ascii [OF d] "2.prems"(2) have "byte c < 128" "r = byte c" "n = 1"
      by fastforce+
    with \<open>x \<in> set (take n (c # cs))\<close> show ?thesis
      by (auto simp: d)
  qed
qed

lemma hd_rune: "byte c < 128 \<Longrightarrow> runes i (c # cs) = (i, byte c) # runes (Suc i) cs"
  by (simp add: decode_rune_def Let_def)

lemma runes_bound: "(j, r) \<in> set (runes i s) \<Longrightarrow> i \<le> j \<and> j < i + length s"
proof (induction i s rule: runes.induct)
  case (2 i c cs)
  obtain r' n where d: "decode_rune (c # cs) = (r', n)"
    by fastforce
  have n: "1 \<le> n"
    using decode_rune_width [of "c # cs"] by (simp add: d)
  from "2.prems" consider "j = i" | "(j, r) \<in> set (runes (i + n) (drop n (c # cs)))"
    by (auto simp: d)
  then show ?case
  proof cases
    case 2
    with "2.IH" [OF d [symmetric] refl 2] n show ?thesis by auto
  qed simp
qed simp

subsection \<open>Operation names\<close>

record unicode =
  u_letter :: "nat \<Rightarrow> bool"
  u_digit :: "nat \<Rightarrow> bool"

definition is_letter :: "unicode \<Rightarrow> nat \<Rightarrow> bool" where
  "is_letter u r \<longleftrightarrow> (if r < 128 then (65 \<le> r \<and> r \<le> 90) \<or> (97 \<le> r \<and> r \<le> 122) else u_letter u r)"

definition is_udigit :: "unicode \<Rightarrow> nat \<Rightarrow> bool" where
  "is_udigit u r \<longleftrightarrow> (if r < 128 then 48 \<le> r \<and> r \<le> 57 else u_digit u r)"

text \<open>\<open>unicode.IsSpace\<close> of a single byte.\<close>

definition latin_space :: "char \<Rightarrow> bool" where
  "latin_space c \<longleftrightarrow> is_space c \<or> byte c = 133 \<or> byte c = 160"

definition maxOperationNameLen :: nat where
  "maxOperationNameLen = 64"

definition sanitizeOperationName :: "unicode \<Rightarrow> string \<Rightarrow> string" where
  "sanitizeOperationName u name =
     (if name = [] \<or> length name > maxOperationNameLen then []
      else if list_all (\<lambda>(i, r). is_letter u r \<or> r = 95 \<or> (is_udigit u r \<and> i > 0)) (runes 0 name)
      then name else [])"

definition cut_name :: "unicode \<Rightarrow> string \<Rightarrow> string" where
  "cut_name u rest =
     (case filter (\<lambda>(i, r). \<not> (is_letter u r \<or> is_udigit u r \<or> r = 95)) (runes 0 rest) of
        [] \<Rightarrow> rest
      | (i, _) # _ \<Rightarrow> take i rest)"

definition name_after :: "unicode \<Rightarrow> string \<Rightarrow> string \<Rightarrow> string option" where
  "name_after u line kw =
     (if \<not> has_prefix line kw then None
      else (case drop (length kw) line of
              [] \<Rightarrow> None
            | c # cs \<Rightarrow> if \<not> latin_space c then None else Some (cut_name u (trim_space (c # cs)))))"

fun name_in_lines :: "unicode \<Rightarrow> string list \<Rightarrow> string" where
  "name_in_lines u [] = []"
| "name_in_lines u (l # ls) =
     (let line = trim_space l
      in if line = [] \<or> has_prefix line ''#'' then name_in_lines u ls
         else (case first_some (name_after u line) [''query'', ''mutation'', ''subscription''] of
                 Some n \<Rightarrow> n
               | None \<Rightarrow> []))"

definition parseOperationName :: "unicode \<Rightarrow> string \<Rightarrow> string" where
  "parseOperationName u doc = name_in_lines u (split_on (CHR 0x0A) doc)"

definition maxGraphQLBodyPeek :: nat where
  "maxGraphQLBodyPeek = 64 * 1024"

definition graphQLOperation ::
  "unicode \<Rightarrow> (string \<Rightarrow> (string \<times> string) option) \<Rightarrow> string \<Rightarrow> string" where
  "graphQLOperation u gql_decode body0 =
     (if body0 = [] then []
      else
        (let body = (if length body0 > maxGraphQLBodyPeek then take maxGraphQLBodyPeek body0 else body0)
         in if has_prefix (trim_left (\<lambda>c. c \<in> {CHR '' '', CHR 0x09, CHR 0x0D, CHR 0x0A}) (take 8 body)) ''[''
            then ''batch''
            else (case gql_decode body of
                    None \<Rightarrow> []
                  | Some (operationName, query) \<Rightarrow>
                      (let n = sanitizeOperationName u operationName
                       in if n \<noteq> [] then n
                          else if query = [] then []
                          else sanitizeOperationName u (parseOperationName u query)))))"

lemma sanitize_cases: "sanitizeOperationName u name = [] \<or> sanitizeOperationName u name = name"
  by (simp add: sanitizeOperationName_def)

definition plain_name :: "string \<Rightarrow> bool" where
  "plain_name s \<longleftrightarrow> length s \<le> 64 \<and> (s \<noteq> [] \<longrightarrow> \<not> is_digit (hd s)) \<and>
     (\<forall>c \<in> set s. byte c < 128 \<longrightarrow> is_alpha c \<or> is_digit c \<or> c = CHR ''_'')"

lemma sanitize_plain: "plain_name (sanitizeOperationName u name)"
proof (cases "sanitizeOperationName u name = []")
  case True
  then show ?thesis by (simp add: plain_name_def)
next
  case False
  then have s: "sanitizeOperationName u name = name" and len: "length name \<le> 64" and ne: "name \<noteq> []"
    and ok: "\<And>i r. (i, r) \<in> set (runes 0 name) \<Longrightarrow> is_letter u r \<or> r = 95 \<or> (is_udigit u r \<and> i > 0)"
    by (auto simp: sanitizeOperationName_def maxOperationNameLen_def list_all_iff split: if_splits)
  have "is_alpha c \<or> is_digit c \<or> c = CHR ''_''" if c: "c \<in> set name" "byte c < 128" for c
  proof -
    obtain j where "(j, byte c) \<in> set (runes 0 name)"
      using ascii_runes [OF c] by blast
    from ok [OF this] c(2) have "is_alpha c \<or> is_digit c \<or> byte c = 95"
      by (auto simp: is_letter_def is_udigit_def is_alpha_def is_digit_def is_lower_def is_upper_def)
    moreover have "c = CHR ''_''" if "byte c = 95"
    proof -
      have "byte c = byte (CHR ''_'')"
        using that by simp
      then show ?thesis by (simp only: of_char_eq_iff)
    qed
    ultimately show ?thesis by blast
  qed
  moreover have "\<not> is_digit (hd name)"
  proof
    assume d: "is_digit (hd name)"
    with ne obtain c cs where n: "name = c # cs" "is_digit c" by (cases name) auto
    then have "(0, byte c) \<in> set (runes 0 name)"
      using hd_rune [of c 0 cs] by (auto simp: is_digit_def)
    from ok [OF this] n(2) show False
      by (auto simp: is_letter_def is_digit_def)
  qed
  ultimately show ?thesis
    by (simp add: s plain_name_def len)
qed

text \<open>
  Whatever a client sends, the operation name that becomes part of a route and of a metric label is
  at most 64 bytes long, does not start with a digit, and contains no ASCII byte but letters,
  digits and the underscore; in particular it can neither close a label nor add a path segment.
\<close>

theorem graphQLOperation_plain:
  "plain_name (graphQLOperation u gql_decode body) \<and>
   CHR ''/'' \<notin> set (graphQLOperation u gql_decode body) \<and> CHR '':'' \<notin> set (graphQLOperation u gql_decode body)"
proof -
  have b: "plain_name ''batch''"
    by code_simp
  have e: "plain_name []"
    by (simp add: plain_name_def)
  have p: "plain_name (graphQLOperation u gql_decode body)"
    unfolding graphQLOperation_def Let_def
    by (simp add: b e sanitize_plain split: option.split)
  have "\<not> is_alpha (CHR ''/'') \<and> \<not> is_digit (CHR ''/'') \<and> \<not> is_alpha (CHR '':'') \<and> \<not> is_digit (CHR '':'')"
    by code_simp
  with p show ?thesis
    by (fastforce simp: plain_name_def)
qed

text \<open>A named operation is found after blank lines and comments, whichever way the client names it.\<close>

lemma parseOperationName_example:
  "parseOperationName u (''# report'' @ [CHR 0x0A, CHR 0x0A] @ ''  mutation Pay($x: Int) { pay }'') = ''Pay''"
  by (simp add: parseOperationName_def Let_def name_after_def has_prefix_def trim_space_def trim_def
      trim_left_def trim_right_def is_space_def latin_space_def cut_name_def decode_rune_def is_letter_def is_udigit_def)

end
