(* ===== verification/Proxy.thy ===== *)
theory Proxy
  imports TraceCtx Redact HttpRecord Capture GraphQL
begin

text \<open>
  The interceptor of \<open>internal/proxy/proxy.go\<close>: what \<open>Wrap\<close> decides before the handler runs, what it
  captures while it runs, how the policy is resolved again once the body is known, and the record
  that \<open>emit\<close> builds and fans out.
\<close>

record interceptor =
  ic_engine :: engine
  ic_name :: string
  ic_consoleLog :: bool
  ic_collector :: bool
  ic_writer :: bool
  ic_dispatcher :: bool
  ic_gqlPaths :: "string list list"
  ic_bodyPaths :: "string list list"
  ic_needsResp :: bool
  ic_propagate :: bool
  ic_responseHeader :: string

datatype ic_option = WithMetrics | WithStore | WithExporters

fun apply_option :: "ic_option \<Rightarrow> interceptor \<Rightarrow> interceptor" where
  "apply_option WithMetrics ic = ic\<lparr>ic_collector := True\<rparr>"
| "apply_option WithStore ic = ic\<lparr>ic_writer := True\<rparr>"
| "apply_option WithExporters ic = ic\<lparr>ic_dispatcher := True\<rparr>"

definition refreshBodyNeeds :: "engine \<Rightarrow> interceptor \<Rightarrow> interceptor" where
  "refreshBodyNeeds eng ic = ic\<lparr>ic_bodyPaths := BodyRulePaths eng, ic_needsResp := NeedsResponseBody eng\<rparr>"

definition NewInterceptor :: "config \<Rightarrow> engine \<Rightarrow> ic_option list \<Rightarrow> interceptor" where
  "NewInterceptor cfg eng opts =
     (let svc = c_Service cfg;
          ic = \<lparr>ic_engine = eng, ic_name = svc_Name svc,
                ic_consoleLog = cfg_Bool (tel_ConsoleLog (c_Telemetry cfg)),
                ic_collector = False, ic_writer = False, ic_dispatcher = False,
                ic_gqlPaths = map splitPath (svc_GraphQLPaths svc),
                ic_bodyPaths = [], ic_needsResp = False,
                ic_propagate = Propagate (Some (svc_Trace svc)),
                ic_responseHeader = trc_ResponseHeader (svc_Trace svc)\<rparr>
      in fold apply_option opts (refreshBodyNeeds eng ic))"

definition needsRequestBody :: "interceptor \<Rightarrow> string \<Rightarrow> bool" where
  "needsRequestBody ic urlPath =
     (if ic_bodyPaths ic = [] then False
      else list_ex (\<lambda>g. matchSegments g (splitPath urlPath)) (ic_bodyPaths ic))"

definition isGraphQL :: "interceptor \<Rightarrow> string \<Rightarrow> bool" where
  "isGraphQL ic urlPath =
     (if ic_gqlPaths ic = [] then False
      else list_ex (\<lambda>g. matchSegments g (splitPath urlPath)) (ic_gqlPaths ic))"

definition SwapEngine :: "engine \<Rightarrow> interceptor \<Rightarrow> interceptor" where
  "SwapEngine eng ic = refreshBodyNeeds eng (ic\<lparr>ic_engine := eng\<rparr>)"

subsection \<open>What the exchange brings\<close>

text \<open>
  The packages the interceptor calls, and one exchange: the request, whether it has a body, the
  uniform draw, the clock, and the writer of the connection.  The handler maps the request it is
  given, and the span on its context, to the chunks it reads of the body and to its calls on the
  writer.
\<close>

record proxy_env =
  pe_codec :: json_codec
  pe_unicode :: unicode
  pe_gql :: "string \<Rightarrow> (string \<times> string) option"
  pe_entropy :: entropy

record exchange =
  ex_request :: http_request
  ex_hasBody :: bool
  ex_draw :: rat
  ex_elapsed :: int
  ex_now :: int
  ex_writer :: response

type_synonym handler = "http_request \<Rightarrow> trace_context \<Rightarrow> string list \<times> handler_op list"

subsection \<open>The record\<close>

record observation =
  ob_Method :: string
  ob_Route :: string
  ob_Status :: int
  ob_Duration :: int
  ob_ReqBytes :: int
  ob_RespBytes :: int
  ob_Labels :: "string gomap"
  ob_Stream :: bool

datatype log_value =
    LStr string | LInt int | LRules "string list" | LMap "string gomap" | LRaw string

record emission =
  em_record :: http_record
  em_observed :: "observation option"
  em_stored :: "http_record option"
  em_exported :: "http_record option"
  em_logged :: "(string \<times> log_value) list option"

definition streamMinDuration :: int where
  "streamMinDuration = 1000000000"

definition isStream :: "rec_writer \<Rightarrow> int \<Rightarrow> bool" where
  "isStream rw elapsed =
     (if rw_hijacked rw then True
      else if isEventStream (header_Get (resp_Header (rw_under rw)) ''Content-Type'') then True
      else rw_flushes rw \<ge> 2 \<and> elapsed \<ge> streamMinDuration)"

definition isUpgrade :: "http_request \<Rightarrow> bool" where
  "isUpgrade r =
     (if \<not> contains (to_lower (header_Get (req_Header r) ''Connection'')) ''upgrade'' then False
      else header_Get (req_Header r) ''Upgrade'' \<noteq> [])"

text \<open>A document that is missing or does not parse is \<open>JNull\<close> with \<open>False\<close>.\<close>

definition governedJSON :: "json_codec \<Rightarrow> limited_buffer option \<Rightarrow> string \<Rightarrow> policy \<Rightarrow> json \<times> bool" where
  "governedJSON jc buf contentType p =
     (case buf of
        None \<Rightarrow> (JNull, False)
      | Some b \<Rightarrow>
          if \<not> contains (to_lower contentType) ''json'' then (JNull, False)
          else
            (let (red, ok) = RedactJSONBody jc p (lb_buf b);
                 raw = (if ok then red else lb_buf b)
             in case jc_unmarshal jc raw of
                  None \<Rightarrow> (JNull, False)
                | Some doc \<Rightarrow> (doc, True)))"

definition body_summary :: "string \<Rightarrow> nat \<Rightarrow> string" where
  "body_summary contentType n = ''<'' @ contentType @ '' body, '' @ itoa (int n) @ '' bytes captured>''"

definition renderBody :: "json_codec \<Rightarrow> limited_buffer \<Rightarrow> string \<Rightarrow> policy \<Rightarrow> string \<times> bool" where
  "renderBody jc buf contentType p =
     (let data = lb_buf buf
      in if data = [] then ([], False)
         else if contains contentType ''json'' \<and> snd (RedactJSONBody jc p data)
         then (fst (RedactJSONBody jc p data), lb_truncated buf)
         else (body_summary contentType (length data), lb_truncated buf))"

definition requestSize :: "http_request \<Rightarrow> limited_buffer option \<Rightarrow> int" where
  "requestSize r reqBuf =
     (if req_ContentLength r > 0 then req_ContentLength r
      else case reqBuf of Some b \<Rightarrow> lb_total b | None \<Rightarrow> 0)"

definition bodyLogAttr :: "json_codec \<Rightarrow> string \<Rightarrow> string \<Rightarrow> string \<times> log_value" where
  "bodyLogAttr jc key body = (if jc_valid jc body then (key, LRaw body) else (key, LStr body))"

definition logRecord :: "json_codec \<Rightarrow> bool \<Rightarrow> http_record \<Rightarrow> (string \<times> log_value) list" where
  "logRecord jc captured_headers rec =
     [(''service'', LStr (hr_Service rec)), (''method'', LStr (hr_Method rec)), (''path'', LStr (hr_Path rec)),
      (''status'', LInt (hr_Status rec)), (''duration_ms'', LInt \<lfloor>hr_DurationMS rec\<rfloor>),
      (''response_bytes'', LInt (hr_RespBytes rec)), (''remote'', LStr (hr_Remote rec))] @
     (if hr_Query rec \<noteq> [] then [(''query'', LStr (hr_Query rec))] else []) @
     (if hr_MatchedRules rec \<noteq> [] then [(''matched_rules'', LRules (hr_MatchedRules rec))] else []) @
     (if captured_headers
      then [(''request_headers'', LMap (hr_RequestHeaders rec)), (''response_headers'', LMap (hr_ResponseHeaders rec))]
      else []) @
     (if hr_RequestBody rec \<noteq> [] then [bodyLogAttr jc ''request_body'' (hr_RequestBody rec)] else []) @
     (if hr_ResponseBody rec \<noteq> [] then [bodyLogAttr jc ''response_body'' (hr_ResponseBody rec)] else []) @
     (if hr_Labels rec \<noteq> [] then [(''labels'', LMap (hr_Labels rec))] else [])"

definition route_of :: "policy \<Rightarrow> http_request \<Rightarrow> string \<Rightarrow> string" where
  "route_of p r operation =
     (let route = (if pol_RoutePattern p = [] then NormalizeRoute (req_Path r) else pol_RoutePattern p)
      in if operation \<noteq> [] then route @ '':'' @ operation else route)"

definition label_of ::
  "json_codec \<Rightarrow> http_request \<Rightarrow> rec_writer \<Rightarrow> policy \<Rightarrow> json \<Rightarrow> label_source \<Rightarrow> string" where
  "label_of jc r rw p reqBody src =
     (if ls_Kind src = ''json'' then ValueFromBody src reqBody
      else if ls_Kind src = ''json_response'' then
        ValueFromBody src
          (fst (governedJSON jc (rw_buf rw) (header_Get (resp_Header (rw_under rw)) ''Content-Type'') p))
      else label_Value src r)"

definition build_record ::
  "interceptor \<Rightarrow> proxy_env \<Rightarrow> int \<Rightarrow> http_request \<Rightarrow> rec_writer \<Rightarrow> limited_buffer option \<Rightarrow> policy \<Rightarrow> bool \<Rightarrow>
     int \<Rightarrow> string \<Rightarrow> json \<Rightarrow> trace_context \<Rightarrow> http_record" where
  "build_record ic env now r rw reqBuf p keep elapsed operation reqBody tc =
     (let jc = pe_codec env;
          resp = resp_Header (rw_under rw);
          req_body = (case reqBuf of
              Some b \<Rightarrow> if keep then renderBody jc b (header_Get (req_Header r) ''Content-Type'') p else ([], False)
            | None \<Rightarrow> ([], False));
          resp_body = (case rw_buf rw of
              Some b \<Rightarrow> if keep \<and> pol_CaptureResponseBody p
                        then renderBody jc b (header_Get resp ''Content-Type'') p else ([], False)
            | None \<Rightarrow> ([], False))
      in \<lparr>hr_ID = 0, hr_Time = now, hr_Service = ic_name ic, hr_Method = req_Method r, hr_Path = req_Path r,
          hr_Query = (if pol_CaptureQuery p then SanitizeQuery p (req_RawQuery r) else []),
          hr_Route = route_of p r operation, hr_Status = rw_status rw,
          hr_DurationMS = of_int elapsed / 1000000, hr_Remote = req_RemoteAddr r, hr_Source = ''proxy'',
          hr_TraceID = tc_TraceID tc, hr_SpanID = tc_SpanID tc, hr_ParentSpanID = tc_ParentSpanID tc,
          hr_Stream = isStream rw elapsed,
          hr_RequestHeaders = (if pol_CaptureHeaders p then SanitizeHeaders p (req_Header r) else []),
          hr_ResponseHeaders = (if pol_CaptureHeaders p then SanitizeHeaders p resp else []),
          hr_RequestBody = fst req_body, hr_ResponseBody = fst resp_body,
          hr_ReqTruncated = snd req_body, hr_RespTruncated = snd resp_body,
          hr_ReqBytes = requestSize r reqBuf, hr_RespBytes = rw_written rw,
          hr_Labels = map (\<lambda>(name, src). (name, label_of jc r rw p reqBody src)) (pol_Labels p),
          hr_MatchedRules = pol_MatchedRules p,
          hr_Meters = (case rw_buf rw of Some b \<Rightarrow> ExtractMeters jc p (lb_buf b) | None \<Rightarrow> [])\<rparr>)"

definition emit ::
  "interceptor \<Rightarrow> proxy_env \<Rightarrow> int \<Rightarrow> http_request \<Rightarrow> rec_writer \<Rightarrow> limited_buffer option \<Rightarrow> policy \<Rightarrow> bool \<Rightarrow>
     int \<Rightarrow> string \<Rightarrow> json \<Rightarrow> trace_context \<Rightarrow> emission" where
  "emit ic env now r rw reqBuf p keep elapsed operation reqBody tc =
     (let rec = build_record ic env now r rw reqBuf p keep elapsed operation reqBody tc
      in \<lparr>em_record = rec,
          em_observed =
            (if ic_collector ic then
               Some \<lparr>ob_Method = hr_Method rec, ob_Route = hr_Route rec, ob_Status = hr_Status rec,
                     ob_Duration = elapsed, ob_ReqBytes = hr_ReqBytes rec, ob_RespBytes = hr_RespBytes rec,
                     ob_Labels = hr_Labels rec, ob_Stream = hr_Stream rec\<rparr>
             else None),
          em_stored = (if ic_writer ic then Some rec else None),
          em_exported = (if ic_dispatcher ic then Some rec else None),
          em_logged = (if ic_consoleLog ic then Some (logRecord (pe_codec env) (pol_CaptureHeaders p) rec) else None)\<rparr>)"

subsection \<open>The exchange\<close>

text \<open>Before the handler: trace context, policy, the sampling draw and the buffers.\<close>

record admitted =
  ad_request :: http_request
  ad_writer :: response
  ad_tc :: trace_context
  ad_policy :: policy
  ad_drew :: bool
  ad_gql :: bool
  ad_needBody :: bool
  ad_reqBuf :: "limited_buffer option"
  ad_rw :: rec_writer

definition admit_exchange :: "interceptor \<Rightarrow> proxy_env \<Rightarrow> exchange \<Rightarrow> admitted" where
  "admit_exchange ic env ex =
     (let r0 = ex_request ex;
          tc0 = FromHeader (pe_entropy env) (header_Get (req_Header r0) TraceHeader);
          r = (if ic_propagate ic
               then r0\<lparr>req_Header := header_Set TraceHeader (Header tc0) (req_Header r0)\<rparr> else r0);
          w = (if ic_responseHeader ic \<noteq> []
               then (ex_writer ex)\<lparr>resp_Header :=
                       header_Set (ic_responseHeader ic) (tc_TraceID tc0) (resp_Header (ex_writer ex))\<rparr>
               else ex_writer ex);
          p = evaluate (ic_engine ic) (AttrsOf r);
          tc = (if pol_RoutePattern p \<noteq> [] then tc0\<lparr>tc_Route := pol_RoutePattern p\<rparr> else tc0);
          drew = (pol_SampleRate p \<ge> 1 \<or> ex_draw ex < pol_SampleRate p);
          gql = isGraphQL ic (req_Path r);
          needBody = (gql \<or> needsRequestBody ic (req_Path r));
          buffer = (drew \<or> TailSampled p \<or> needBody);
          reqBuf = (if buffer \<and> (pol_CaptureRequestBody p \<or> needBody) \<and> ex_hasBody ex
                    then Some (new_buffer (pol_CaptureLimitBytes p)) else None);
          respBuf = (if (buffer \<and> pol_CaptureResponseBody p) \<or> pol_Meters p \<noteq> [] \<or> ic_needsResp ic
                     then Some (new_buffer (pol_CaptureLimitBytes p)) else None)
      in \<lparr>ad_request = r, ad_writer = w, ad_tc = tc, ad_policy = p, ad_drew = drew, ad_gql = gql,
          ad_needBody = needBody, ad_reqBuf = reqBuf, ad_rw = new_recorder w (ic_collector ic) respBuf\<rparr>)"

text \<open>After the handler: the operation and the governed body, the policy resolved again.\<close>

definition body_attrs ::
  "proxy_env \<Rightarrow> admitted \<Rightarrow> limited_buffer option \<Rightarrow> string \<times> json \<times> bool" where
  "body_attrs env ad reqBuf =
     (case reqBuf of
        Some b \<Rightarrow>
          if ad_needBody ad then
            (if ad_gql ad then graphQLOperation (pe_unicode env) (pe_gql env) (lb_buf b) else [],
             governedJSON (pe_codec env) reqBuf (header_Get (req_Header (ad_request ad)) ''Content-Type'')
               (ad_policy ad))
          else ([], JNull, False)
      | None \<Rightarrow> ([], JNull, False))"

definition resolve_again :: "engine \<Rightarrow> admitted \<Rightarrow> string \<times> json \<times> bool \<Rightarrow> policy" where
  "resolve_again later ad known =
     (case known of (operation, body, bodyKnown) \<Rightarrow>
        if operation \<noteq> [] \<or> bodyKnown
        then evaluate later
               ((AttrsOf (ad_request ad))\<lparr>at_Operation := operation, at_Body := body, at_BodyKnown := bodyKnown\<rparr>)
        else ad_policy ad)"

text \<open>
  The whole exchange.  \<open>later\<close> is the engine that is loaded when the handler has returned; it is the
  one of the interceptor unless a reload came in between.
\<close>

definition Wrap ::
  "interceptor \<Rightarrow> engine \<Rightarrow> proxy_env \<Rightarrow> handler \<Rightarrow> exchange \<Rightarrow> rec_writer \<times> emission" where
  "Wrap ic later env next ex =
     (let ad = admit_exchange ic env ex;
          (reads, ops) = next (ad_request ad) (ad_tc ad);
          reqBuf = map_option (fold (\<lambda>p l. snd (tee_Read p l)) reads) (ad_reqBuf ad);
          rw0 = serve ops (ad_rw ad);
          rw = (if rw_hijacked rw0 \<and> \<not> rw_wroteHeader rw0 \<and> isUpgrade (ad_request ad)
                then rw0\<lparr>rw_status := 101\<rparr> else rw0);
          known = body_attrs env ad reqBuf;
          p = resolve_again later ad known;
          keep = KeepBody p (ad_drew ad) (rw_status rw) (ex_elapsed ex)
      in (rw, emit ic env (ex_now ex) (ad_request ad) rw reqBuf p keep (ex_elapsed ex) (fst known)
                (fst (snd known)) (ad_tc ad)))"

subsection \<open>What the record holds\<close>

text \<open>The captured request body, what is known of it, and the policy the record is made under.\<close>

definition captured_request :: "interceptor \<Rightarrow> proxy_env \<Rightarrow> handler \<Rightarrow> exchange \<Rightarrow> limited_buffer option" where
  "captured_request ic env next ex =
     (let ad = admit_exchange ic env ex
      in map_option (fold (\<lambda>p l. snd (tee_Read p l)) (fst (next (ad_request ad) (ad_tc ad)))) (ad_reqBuf ad))"

definition final_policy :: "interceptor \<Rightarrow> engine \<Rightarrow> proxy_env \<Rightarrow> handler \<Rightarrow> exchange \<Rightarrow> policy" where
  "final_policy ic later env next ex =
     (let ad = admit_exchange ic env ex
      in resolve_again later ad (body_attrs env ad (captured_request ic env next ex)))"

definition known_body :: "interceptor \<Rightarrow> proxy_env \<Rightarrow> handler \<Rightarrow> exchange \<Rightarrow> string \<times> json \<times> bool" where
  "known_body ic env next ex =
     body_attrs env (admit_exchange ic env ex) (captured_request ic env next ex)"

lemma Wrap_record:
  assumes "Wrap ic later env next ex = (rw, em)"
  shows "em = emit ic env (ex_now ex) (ad_request (admit_exchange ic env ex)) rw (captured_request ic env next ex)
      (final_policy ic later env next ex)
      (KeepBody (final_policy ic later env next ex) (ad_drew (admit_exchange ic env ex)) (rw_status rw) (ex_elapsed ex))
      (ex_elapsed ex) (fst (known_body ic env next ex)) (fst (snd (known_body ic env next ex)))
      (ad_tc (admit_exchange ic env ex))"
proof -
  define ad where "ad = admit_exchange ic env ex"
  obtain reads ops where n: "next (ad_request ad) (ad_tc ad) = (reads, ops)"
    by fastforce
  show ?thesis
    using assms unfolding Wrap_def final_policy_def captured_request_def known_body_def ad_def [symmetric] Let_def n
    by auto
qed

lemma emit_record [simp]:
  "em_record (emit ic env now r rw reqBuf p keep elapsed operation reqBody tc) =
     build_record ic env now r rw reqBuf p keep elapsed operation reqBody tc"
  by (simp add: emit_def Let_def)

definition stored_masked :: "json_codec \<Rightarrow> policy \<Rightarrow> string \<Rightarrow> bool" where
  "stored_masked jc p s \<longleftrightarrow>
     s = [] \<or> (\<exists>ct n. s = body_summary ct n) \<or> pol_RedactJSONPaths p = [] \<or>
     (\<exists>doc. jc_marshal jc doc = Some s \<and>
        (\<forall>path \<in> set (pol_RedactJSONPaths p). \<forall>ks.
           path \<noteq> [] \<and> last path \<noteq> ''**'' \<and> pathCovers path ks \<longrightarrow> masked_at doc ks))"

lemma RedactJSONBody_stored_masked:
  assumes "RedactJSONBody jc p data = (s, True)" and "data \<noteq> []"
  shows "stored_masked jc p s"
proof (cases "pol_RedactJSONPaths p = []")
  case False
  then obtain doc where "jc_marshal jc (fold (\<lambda>path d. redactPath d path) (pol_RedactJSONPaths p) doc) = Some s"
    using assms by (auto simp: RedactJSONBody_def split: option.splits)
  with fold_redact_masks show ?thesis
    unfolding stored_masked_def by blast
qed (simp add: stored_masked_def)

lemma renderBody_masked: "stored_masked jc p (fst (renderBody jc b ct p))"
proof (cases "lb_buf b \<noteq> [] \<and> contains ct ''json'' \<and> snd (RedactJSONBody jc p (lb_buf b))")
  case True
  then have "RedactJSONBody jc p (lb_buf b) = (fst (renderBody jc b ct p), True)"
    by (auto simp: renderBody_def Let_def prod_eq_iff)
  with True show ?thesis
    using RedactJSONBody_stored_masked by blast
next
  case False
  then have "fst (renderBody jc b ct p) = [] \<or> fst (renderBody jc b ct p) = body_summary ct (length (lb_buf b))"
    by (auto simp: renderBody_def Let_def)
  then show ?thesis
    unfolding stored_masked_def by blast
qed

lemma stored_masked_Nil [simp]: "stored_masked jc p []"
  by (simp add: stored_masked_def)

lemma reqBuf_why:
  "captured_request ic env next ex \<noteq> None \<Longrightarrow>
     pol_CaptureRequestBody (ad_policy (admit_exchange ic env ex)) \<or> ad_needBody (admit_exchange ic env ex)"
  by (auto simp: captured_request_def admit_exchange_def Let_def split: if_splits)


text \<open>A governed exchange, for the concrete instances.\<close>

definition sample_request :: http_request where
  "sample_request = \<lparr>req_Method = ''POST'', req_Path = ''/api/v1/payments/42'', req_RawQuery = ''token=abc'',
     req_Header = [(''Content-Type'', [''application/json'']), (''Authorization'', [''Bearer x''])],
     req_RemoteAddr = ''10.0.0.9:1'', req_ContentLength = 0\<rparr>"

definition sample_proxy :: proxy_env where
  "sample_proxy = \<lparr>pe_codec = sample_codec, pe_unicode = \<lparr>u_letter = (\<lambda>_. False), u_digit = (\<lambda>_. False)\<rparr>,
     pe_gql = (\<lambda>_. None), pe_entropy = \<lparr>ent_read = (\<lambda>_. Some []), ent_nanos = (\<lambda>_. 0)\<rparr>\<rparr>"

definition sample_exchange :: exchange where
  "sample_exchange = \<lparr>ex_request = sample_request, ex_hasBody = True, ex_draw = 1 / 2, ex_elapsed = 2000000,
     ex_now = 0, ex_writer = empty_response\<rparr>"

definition sample_handler :: handler where
  "sample_handler r tc = ([''{}''], [SetHeader ''content-type'' ''application/json'', SendBytes ''{}'' 2])"

definition sample_interceptor :: interceptor where
  "sample_interceptor = NewInterceptor sample_loaded (engine_New sample_env sample_loaded) [WithMetrics, WithStore]"

abbreviation sample_wrap :: "rec_writer \<times> emission" where
  "sample_wrap \<equiv> Wrap sample_interceptor (ic_engine sample_interceptor) sample_proxy sample_handler sample_exchange"

lemma sample_policy:
  "let p = final_policy sample_interceptor (ic_engine sample_interceptor) sample_proxy sample_handler sample_exchange
   in pol_CaptureHeaders p \<and> \<not> pol_CaptureResponseBody p \<and> ''Authorization'' \<in> set (pol_RedactHeaders p)"
  by code_simp


lemma admitted_ids:
  "tc_TraceID (ad_tc (admit_exchange ic env ex)) =
     tc_TraceID (FromHeader (pe_entropy env) (header_Get (req_Header (ex_request ex)) TraceHeader))"
  "tc_SpanID (ad_tc (admit_exchange ic env ex)) =
     tc_SpanID (FromHeader (pe_entropy env) (header_Get (req_Header (ex_request ex)) TraceHeader))"
  by (simp_all add: admit_exchange_def Let_def)

lemma record_ids:
  assumes "Wrap ic later env next ex = (rw, em)"
  shows "hr_TraceID (em_record em) = tc_TraceID (ad_tc (admit_exchange ic env ex))"
    and "hr_SpanID (em_record em) = tc_SpanID (ad_tc (admit_exchange ic env ex))"
  by (simp_all add: Wrap_record [OF assms] build_record_def Let_def)

text \<open>
  C29. Hops chain: with propagation on, the next hop that reads the forwarded request joins the trace
  of the record and names the record's span as its parent, whatever the caller sent.
\<close>

theorem hops_chain:
  assumes "Wrap ic later env next ex = (rw, em)" and "ic_propagate ic"
    and "usable_id (hr_TraceID (em_record em)) 32" and "usable_id (hr_SpanID (em_record em)) 16"
  shows "let forwarded = ad_request (admit_exchange ic env ex);
             hop = FromHeader e (header_Get (req_Header forwarded) TraceHeader)
         in tc_TraceID hop = hr_TraceID (em_record em) \<and> tc_ParentSpanID hop = hr_SpanID (em_record em)"
proof -
  let ?ad = "admit_exchange ic env ex"
  define tc where "tc = FromHeader (pe_entropy env) (header_Get (req_Header (ex_request ex)) TraceHeader)"
  note ids = record_ids [OF assms(1)]
  have "tc_TraceID (ad_tc ?ad) = tc_TraceID tc" "tc_SpanID (ad_tc ?ad) = tc_SpanID tc"
    "header_Get (req_Header (ad_request ?ad)) TraceHeader = Header tc"
    using assms(2) by (simp_all add: admit_exchange_def Let_def tc_def)
  then show ?thesis
    using FromHeader_Header [of tc e] assms(3,4) by (simp add: Let_def ids)
qed

theorem hops_chain_witness:
  "let env = sample_proxy\<lparr>pe_entropy := sample_entropy\<rparr>;
       em = snd (Wrap sample_interceptor (ic_engine sample_interceptor) env sample_handler sample_exchange);
       forwarded = ad_request (admit_exchange sample_interceptor env sample_exchange)
   in tc_ParentSpanID (FromHeader sample_entropy (header_Get (req_Header forwarded) TraceHeader))
        = hr_SpanID (em_record em)"
proof -
  let ?env = "sample_proxy\<lparr>pe_entropy := sample_entropy\<rparr>"
  let ?tc = "ad_tc (admit_exchange sample_interceptor ?env sample_exchange)"
  obtain rw em where w: "Wrap sample_interceptor (ic_engine sample_interceptor) ?env sample_handler sample_exchange
      = (rw, em)"
    by fastforce
  have "usable_id (tc_TraceID ?tc) 32 \<and> usable_id (tc_SpanID ?tc) 16"
    unfolding admitted_ids by code_simp
  moreover have "ic_propagate sample_interceptor"
    by code_simp
  ultimately have "tc_ParentSpanID (FromHeader sample_entropy
      (header_Get (req_Header (ad_request (admit_exchange sample_interceptor ?env sample_exchange))) TraceHeader))
        = hr_SpanID (em_record em)"
    using hops_chain [OF w, of sample_entropy] unfolding record_ids [OF w] Let_def by blast
  then show ?thesis
    by (simp add: Let_def w)
qed

subsection \<open>Where the body escapes its policy\<close>

lemma record_request_body:
  assumes "Wrap ic later env next ex = (rw, em)"
  shows "hr_RequestBody (em_record em) =
    (case captured_request ic env next ex of
       None \<Rightarrow> []
     | Some b \<Rightarrow>
         if KeepBody (final_policy ic later env next ex) (ad_drew (admit_exchange ic env ex)) (rw_status rw) (ex_elapsed ex)
         then fst (renderBody (pe_codec env) b
                (header_Get (req_Header (ad_request (admit_exchange ic env ex))) ''Content-Type'')
                (final_policy ic later env next ex))
         else [])"
  by (simp add: Wrap_record [OF assms] build_record_def Let_def split: option.split)

lemma record_labels:
  assumes "Wrap ic later env next ex = (rw, em)"
  shows "hr_Labels (em_record em) = map (\<lambda>(name, src). (name,
      label_of (pe_codec env) (ad_request (admit_exchange ic env ex)) rw (final_policy ic later env next ex)
        (fst (snd (known_body ic env next ex))) src)) (pol_Labels (final_policy ic later env next ex))"
  by (simp add: Wrap_record [OF assms] build_record_def Let_def)

text \<open>Once a body is known the policy comes from the engine that is loaded then.\<close>

lemma inflight_follows_reload:
  assumes "snd (snd (known_body ic env next ex))"
  shows "final_policy ic later env next ex =
    evaluate later ((AttrsOf (ad_request (admit_exchange ic env ex)))
      \<lparr>at_Operation := fst (known_body ic env next ex),
       at_Body := fst (snd (known_body ic env next ex)), at_BodyKnown := True\<rparr>)"
  using assms
  by (cases "known_body ic env next ex")
     (simp add: final_policy_def resolve_again_def Let_def known_body_def [symmetric])

definition restricting_rule :: rule where
  "restricting_rule = sample_rule\<lparr>r_Restrict := [''request_body''], r_Labels := [(''expiry'', ''json:$.card.exp'')]\<rparr>"

definition late_rule :: rule where
  "late_rule = sample_rule\<lparr>
     r_Match := (r_Match sample_rule)\<lparr>m_Body := [(''$.card.exp'', ''12/30'')]\<rparr>,
     r_Redact := Some \<lparr>red_Headers = [], red_JSONFields = [''$.**.number''], red_QueryParams = []\<rparr>,
     r_Labels := [(''pan'', ''json:$.card.number'')]\<rparr>"

definition with_rule :: "rule \<Rightarrow> config" where
  "with_rule r = sample_loaded\<lparr>c_Rules := [normalise_methods r]\<rparr>"

definition proxy_for :: "rule \<Rightarrow> interceptor" where
  "proxy_for r = NewInterceptor (with_rule r) (engine_New sample_env (with_rule r)) []"

definition wrap_with :: "rule \<Rightarrow> rec_writer \<times> emission" where
  "wrap_with r = Wrap (proxy_for r) (ic_engine (proxy_for r)) sample_proxy sample_handler sample_exchange"

definition policy_with :: "rule \<Rightarrow> policy" where
  "policy_with r = final_policy (proxy_for r) (ic_engine (proxy_for r)) sample_proxy sample_handler sample_exchange"

lemma wrap_with: "Wrap (proxy_for r) (ic_engine (proxy_for r)) sample_proxy sample_handler sample_exchange
    = (fst (wrap_with r), snd (wrap_with r))"
  by (simp add: wrap_with_def)

definition sample_doc :: json where
  "sample_doc = JObj [(''card'', JObj [(''number'', JStr ''4111''), (''exp'', JStr ''12/30'')])]"

lemma render_sample:
  assumes "pol_RedactJSONPaths p = [[''card'', ''number'']] \<or> pol_RedactJSONPaths p = [[''**'', ''number'']]"
    and "lb_buf b = ''{}''"
  shows "fst (renderBody sample_codec b ''application/json'' p) = RedactedPlaceholder"
proof -
  have "contains ''application/json'' ''json''" "jc_unmarshal sample_codec ''{}'' = Some sample_doc"
    "jc_marshal sample_codec (redactPath sample_doc [''card'', ''number'']) = Some RedactedPlaceholder"
    "jc_marshal sample_codec (redactPath sample_doc [''**'', ''number'']) = Some RedactedPlaceholder"
    by code_simp+
  with assms show ?thesis
    by (auto simp: renderBody_def RedactJSONBody_def Let_def)
qed

lemma sample_content_type:
  "header_Get (req_Header (ad_request (admit_exchange ic sample_proxy sample_exchange))) ''Content-Type''
     = ''application/json''"
proof -
  have "header_Get (header_Set TraceHeader v (req_Header sample_request)) ''Content-Type'' = ''application/json''
      \<and> header_Get (req_Header sample_request) ''Content-Type'' = ''application/json''" for v
    by code_simp
  then show ?thesis
    by (simp add: admit_exchange_def Let_def sample_exchange_def)
qed

lemma sample_record:
  assumes "map_option lb_buf (captured_request (proxy_for r) sample_proxy sample_handler sample_exchange) = Some ''{}''"
    and "ad_drew (admit_exchange (proxy_for r) sample_proxy sample_exchange)"
    and "pol_RedactJSONPaths (policy_with r) = [[''card'', ''number'']] \<or>
         pol_RedactJSONPaths (policy_with r) = [[''**'', ''number'']]"
  shows "hr_RequestBody (em_record (snd (wrap_with r))) = RedactedPlaceholder"
proof -
  have "pe_codec sample_proxy = sample_codec"
    by (simp add: sample_proxy_def)
  with assms(1,2) render_sample [OF assms(3)] sample_content_type show ?thesis
    unfolding record_request_body [OF wrap_with] policy_with_def [symmetric]
    by (auto simp: KeepBody_def)
qed

text \<open>
  A restricted request body is stored after all: where a rule restricts \<open>request_body\<close> on a path
  whose body another rule, a label or GraphQL has to read, the policy of the exchange does not
  capture the request body and the record holds its rendering nevertheless.
\<close>

theorem restricted_body_stored:
  "Validate sample_env (with_rule restricting_rule) = Inr (with_rule restricting_rule) \<and>
   \<not> pol_CaptureRequestBody (policy_with restricting_rule) \<and>
   hr_RequestBody (em_record (snd (wrap_with restricting_rule))) = RedactedPlaceholder"
proof (intro conjI)
  show "Validate sample_env (with_rule restricting_rule) = Inr (with_rule restricting_rule)"
    by code_simp
  show "\<not> pol_CaptureRequestBody (policy_with restricting_rule)"
    by code_simp
  show "hr_RequestBody (em_record (snd (wrap_with restricting_rule))) = RedactedPlaceholder"
  proof (rule sample_record)
    show "map_option lb_buf (captured_request (proxy_for restricting_rule) sample_proxy sample_handler sample_exchange)
        = Some ''{}''"
      by code_simp
    show "ad_drew (admit_exchange (proxy_for restricting_rule) sample_proxy sample_exchange)"
      by code_simp
    have "pol_RedactJSONPaths (policy_with restricting_rule) = [[''card'', ''number'']]"
      by code_simp
    then show "pol_RedactJSONPaths (policy_with restricting_rule) = [[''card'', ''number'']] \<or>
        pol_RedactJSONPaths (policy_with restricting_rule) = [[''**'', ''number'']]" ..
  qed
qed

text \<open>
  A redaction that a body criterion switches on comes too late for the labels: the stored body
  masks the field, and a label of the same record, hence a metric label, holds its value.
\<close>

theorem late_redaction_leaks_label:
  "Validate sample_env (with_rule late_rule) = Inr (with_rule late_rule) \<and>
   pol_RedactJSONPaths (policy_with late_rule) = [[''**'', ''number'']] \<and>
   hr_RequestBody (em_record (snd (wrap_with late_rule))) = RedactedPlaceholder \<and>
   lookup (hr_Labels (em_record (snd (wrap_with late_rule)))) ''pan'' = Some ''4111''"
proof (intro conjI)
  show "Validate sample_env (with_rule late_rule) = Inr (with_rule late_rule)"
    by code_simp
  show paths: "pol_RedactJSONPaths (policy_with late_rule) = [[''**'', ''number'']]"
    by code_simp
  show "hr_RequestBody (em_record (snd (wrap_with late_rule))) = RedactedPlaceholder"
  proof (rule sample_record)
    show "map_option lb_buf (captured_request (proxy_for late_rule) sample_proxy sample_handler sample_exchange)
        = Some ''{}''"
      by code_simp
    show "ad_drew (admit_exchange (proxy_for late_rule) sample_proxy sample_exchange)"
      by code_simp
  qed (simp add: paths)
  define src where "src = \<lparr>ls_Kind = ''json'', ls_Key = ''$.card.number'', ls_Seg = 0,
      ls_JSONPath = [''card'', ''number''], ls_Extract = None\<rparr>"
  have labels: "pol_Labels (policy_with late_rule) = [(''pan'', src)]"
    unfolding src_def by code_simp
  have body: "fst (snd (known_body (proxy_for late_rule) sample_proxy sample_handler sample_exchange)) = sample_doc"
    by code_simp
  have "FirstString sample_doc [''card'', ''number''] = Some ''4111''" "sample_doc \<noteq> JNull"
    by code_simp+
  then have "label_of j r w q sample_doc src = ''4111''" for j r w q
    by (simp add: label_of_def ValueFromBody_def NeedsBody_def label_apply_def src_def)
  then show "lookup (hr_Labels (em_record (snd (wrap_with late_rule)))) ''pan'' = Some ''4111''"
    unfolding record_labels [OF wrap_with] policy_with_def [symmetric] labels body by simp
qed

end
