(* ===== verification/Queue.thy ===== *)
theory Queue
  imports Prelude "HOL-Library.Sublist"
begin

text \<open>
  The contract of the queues between a request and a slow sink: nothing blocks, memory is bounded,
  order is kept, and whatever arrives is waiting, delivered, counted as dropped, or reported as
  failed.  A sink answers a batch; its answer may depend on how often it was called.
\<close>

type_synonym 'a sink = "nat \<Rightarrow> 'a list \<Rightarrow> bool"

locale lossy_queue =
  fixes step :: "'e \<Rightarrow> 's \<Rightarrow> 's"
    and offered :: "'s \<Rightarrow> 'e \<Rightarrow> 'a list"
    and waiting :: "'s \<Rightarrow> 'a list"
    and delivered :: "'s \<Rightarrow> 'a list"
    and dropped :: "'s \<Rightarrow> nat"
    and failed :: "'s \<Rightarrow> nat"
    and room :: "'s \<Rightarrow> nat"
    and inv :: "'s \<Rightarrow> bool"
  assumes inv_step: "inv s \<Longrightarrow> inv (step e s)"
    and conserve: "inv s \<Longrightarrow>
      length (delivered (step e s)) + length (waiting (step e s)) + dropped (step e s) + failed (step e s) =
      length (delivered s) + length (waiting s) + dropped s + failed s + length (offered s e)"
    and order: "inv s \<Longrightarrow>
      subseq (delivered (step e s) @ waiting (step e s)) (delivered s @ waiting s @ offered s e)"
    and bounded: "inv s \<Longrightarrow> length (waiting s) \<le> room s"
    and counters: "inv s \<Longrightarrow> dropped s \<le> dropped (step e s) \<and> failed s \<le> failed (step e s)"
begin

fun offers :: "'s \<Rightarrow> 'e list \<Rightarrow> 'a list" where
  "offers s [] = []"
| "offers s (e # es) = offered s e @ offers (step e s) es"

definition steps :: "'e list \<Rightarrow> 's \<Rightarrow> 's" where
  "steps es s = fold step es s"

lemma steps_simps [simp]: "steps [] s = s" "steps (e # es) s = steps es (step e s)"
  by (simp_all add: steps_def)

lemma inv_steps: "inv s \<Longrightarrow> inv (steps es s)"
  by (induction es arbitrary: s) (simp_all add: inv_step)

lemma conserve_steps:
  "inv s \<Longrightarrow>
   length (delivered (steps es s)) + length (waiting (steps es s)) + dropped (steps es s) + failed (steps es s) =
   length (delivered s) + length (waiting s) + dropped s + failed s + length (offers s es)"
proof (induction es arbitrary: s)
  case (Cons e es)
  then show ?case
    using Cons.IH [OF inv_step [OF Cons.prems]] conserve [of s e] by simp
qed simp

lemma order_steps:
  "inv s \<Longrightarrow>
   subseq (delivered (steps es s) @ waiting (steps es s)) (delivered s @ waiting s @ offers s es)"
proof (induction es arbitrary: s)
  case (Cons e es)
  have "subseq (delivered (steps es (step e s)) @ waiting (steps es (step e s)))
      ((delivered (step e s) @ waiting (step e s)) @ offers (step e s) es)"
    using Cons.IH [OF inv_step [OF Cons.prems]] by simp
  moreover have "subseq ((delivered (step e s) @ waiting (step e s)) @ offers (step e s) es)
      ((delivered s @ waiting s @ offered s e) @ offers (step e s) es)"
    by (rule list_emb_append_mono [OF order [OF Cons.prems, of e]]) simp
  ultimately show ?case
    using subseq_order.order_trans by fastforce
qed simp

lemma counters_steps: "inv s \<Longrightarrow> dropped s \<le> dropped (steps es s) \<and> failed s \<le> failed (steps es s)"
proof (induction es arbitrary: s)
  case (Cons e es)
  have "dropped (step e s) \<le> dropped (steps es (step e s)) \<and> failed (step e s) \<le> failed (steps es (step e s))"
    by (rule Cons.IH [OF inv_step [OF Cons.prems]])
  with counters [OF Cons.prems, of e] show ?case
    by auto
qed simp

text \<open>Without a drop and without a failure the sink receives everything, in order.\<close>

lemma lossless:
  assumes "inv s" and "dropped (steps es s) = dropped s" and "failed (steps es s) = failed s"
  shows "delivered (steps es s) @ waiting (steps es s) = delivered s @ waiting s @ offers s es"
  using order_steps [OF assms(1), of es] conserve_steps [OF assms(1), of es] assms(2,3)
  by (intro subseq_same_length) auto

end

end
