(* ===== verification/Collect.thy ===== *)
theory Collect
  imports Queue AppLog Redact
begin

text \<open>
  Collection of lines the application already writes (\<open>internal/applog/collect.go\<close>): parsing a raw
  line, governing and queueing it, flushing batches to the store, reading a stream and following a
  file.
\<close>

subsection \<open>Parsing a line\<close>

record line_parser =
  pr_service :: string
  pr_json :: bool
  pr_traceField :: string
  pr_spanField :: string
  pr_levelField :: string
  pr_messageField :: string
  pr_routeField :: string
  pr_spanPattern :: "rx option"

text \<open>Clock, \<open>time.Parse\<close> with the RFC 3339 layout, and \<open>encoding/json\<close>.\<close>

record line_env =
  le_codec :: json_codec
  le_now :: int
  le_time :: "string \<Rightarrow> int option"

definition firstNonEmpty :: "string list \<Rightarrow> string" where
  "firstNonEmpty vals = (case filter (\<lambda>v. v \<noteq> []) vals of [] \<Rightarrow> [] | v # _ \<Rightarrow> v)"

definition newParser :: "sysenv \<Rightarrow> applog_source \<Rightarrow> string \<Rightarrow> line_parser option" where
  "newParser env src defaultService =
     (let p = \<lparr>pr_service = firstNonEmpty [als_Service src, defaultService],
               pr_json = (als_Format src \<noteq> ''text''),
               pr_traceField = firstNonEmpty [als_TraceField src, ''trace_id''],
               pr_spanField = firstNonEmpty [als_SpanField src, ''span_id''],
               pr_levelField = firstNonEmpty [als_LevelField src, ''level''],
               pr_messageField = als_MessageField src,
               pr_routeField = firstNonEmpty [als_RouteField src, ''route''],
               pr_spanPattern = None\<rparr>
      in if als_SpanPattern src \<noteq> [] then
           (case sys_regexp env (als_SpanPattern src) of
              None \<Rightarrow> None
            | Some re \<Rightarrow> Some (p\<lparr>pr_spanPattern := Some re\<rparr>))
         else Some p)"

text \<open>\<open>json.Unmarshal\<close> into a map: an object, or \<open>null\<close> for the empty map.\<close>

definition doc_of :: "json_codec \<Rightarrow> string \<Rightarrow> json gomap option" where
  "doc_of jc line =
     (case jc_unmarshal jc line of
        Some (JObj kvs) \<Rightarrow> Some kvs
      | Some JNull \<Rightarrow> Some []
      | _ \<Rightarrow> None)"

definition strField :: "json gomap \<Rightarrow> string \<Rightarrow> string" where
  "strField doc key =
     (if key = [] then []
      else case lookup doc key of Some (JStr s) \<Rightarrow> s | _ \<Rightarrow> [])"

definition field_text :: "json_codec \<Rightarrow> json \<Rightarrow> string option" where
  "field_text jc v = (case v of JStr s \<Rightarrow> Some s | JNull \<Rightarrow> None | _ \<Rightarrow> jc_marshal jc v)"

definition fieldsOf :: "json_codec \<Rightarrow> json gomap \<Rightarrow> string list \<Rightarrow> string gomap" where
  "fieldsOf jc doc skip =
     concat (map (\<lambda>(k, v).
       if k \<in> set ([''message'', ''msg'', ''time''] @ filter (\<lambda>s. s \<noteq> []) skip) then []
       else (case field_text jc v of None \<Rightarrow> [] | Some s \<Rightarrow> [(k, s)])) doc)"

definition message_of :: "line_parser \<Rightarrow> json gomap \<Rightarrow> string \<Rightarrow> string" where
  "message_of p doc raw =
     (let custom = (if pr_messageField p \<noteq> [] then strField doc (pr_messageField p) else [])
      in if custom \<noteq> [] then custom
         else (case filter (\<lambda>v. v \<noteq> []) (map (strField doc) [''message'', ''msg'']) of
                 [] \<Rightarrow> raw
               | v # _ \<Rightarrow> v))"

definition parse_line :: "line_env \<Rightarrow> line_parser \<Rightarrow> string \<Rightarrow> app_log" where
  "parse_line env p line =
     (let out = \<lparr>l_ID = 0, l_Time = le_now env, l_Service = pr_service p, l_TraceID = [], l_SpanID = [],
                 l_Level = ''info'', l_Message = line, l_Fields = [], l_Route = [],
                 l_Source = ''collector'', l_Truncated = False\<rparr>;
          out1 =
            (if pr_json p then
               (case doc_of (le_codec env) line of
                  None \<Rightarrow> out
                | Some doc \<Rightarrow>
                    (let lvl = strField doc (pr_levelField p);
                         ts = strField doc ''time''
                     in out\<lparr>l_TraceID := strField doc (pr_traceField p),
                            l_SpanID := strField doc (pr_spanField p),
                            l_Route := strField doc (pr_routeField p),
                            l_Level := (if lvl \<noteq> [] then lvl else ''info''),
                            l_Message := message_of p doc line,
                            l_Fields := fieldsOf (le_codec env) doc
                              [pr_traceField p, pr_spanField p, pr_levelField p, pr_routeField p, pr_messageField p],
                            l_Time := (if ts \<noteq> [] then
                                (case le_time env ts of Some t \<Rightarrow> t | None \<Rightarrow> le_now env) else le_now env)\<rparr>))
             else out)
      in if l_SpanID out1 = [] then
           (case pr_spanPattern p of
              None \<Rightarrow> out1
            | Some re \<Rightarrow>
                if NumSubexp re < 1 then out1
                else (case first_group re line of None \<Rightarrow> out1 | Some g \<Rightarrow> out1\<lparr>l_SpanID := g\<rparr>))
         else out1)"

subsection \<open>The collector\<close>

text \<open>
  The queue under its lock, and what the installed callbacks have been called with: \<open>onDrop\<close>,
  \<open>onKeep\<close>, the fan-out, and the lines a warning reported.
\<close>

datatype drop_reason = Refused log_reason | QueueFull

record collector =
  co_gov :: log_governor
  co_service :: string
  co_batch :: nat
  co_queue :: "app_log list"
  co_drops :: "drop_reason list"
  co_kept :: nat
  co_fanned :: "app_log list"
  co_warned :: nat
  co_calls :: nat
  co_stored :: "app_log list"

definition NewCollector :: "log_governor \<Rightarrow> string \<Rightarrow> collector" where
  "NewCollector gov service =
     \<lparr>co_gov = gov, co_service = service, co_batch = 200, co_queue = [], co_drops = [], co_kept = 0,
      co_fanned = [], co_warned = 0, co_calls = 0, co_stored = []\<rparr>"

definition collector_submit :: "app_log \<Rightarrow> collector \<Rightarrow> collector" where
  "collector_submit l c =
     (case log_Admit (co_gov c) l of (g', l', r) \<Rightarrow>
        (let c1 = c\<lparr>co_gov := g'\<rparr>
         in case r of
              Some reason \<Rightarrow> c1\<lparr>co_drops := co_drops c1 @ [Refused reason]\<rparr>
            | None \<Rightarrow>
                (let full = (length (co_queue c1) \<ge> 10 * co_batch c1);
                     c2 = (if \<not> full then c1\<lparr>co_queue := co_queue c1 @ [l']\<rparr> else c1)
                 in if full then c2\<lparr>co_drops := co_drops c2 @ [QueueFull]\<rparr> else c2)))"

definition collector_flush :: "app_log sink \<Rightarrow> collector \<Rightarrow> collector" where
  "collector_flush sink c =
     (let batch = co_queue c;
          c1 = c\<lparr>co_queue := []\<rparr>
      in if batch = [] then c1
         else
           (let c2 = c1\<lparr>co_calls := Suc (co_calls c1)\<rparr>
            in if \<not> sink (co_calls c1) batch then c2\<lparr>co_warned := co_warned c2 + length batch\<rparr>
               else c2\<lparr>co_stored := co_stored c2 @ batch, co_kept := co_kept c2 + length batch,
                       co_fanned := co_fanned c2 @ batch\<rparr>))"

datatype collect_event = Submit app_log | FlushTick

fun collect_step :: "app_log sink \<Rightarrow> collect_event \<Rightarrow> collector \<Rightarrow> collector" where
  "collect_step sink (Submit l) c = collector_submit l c"
| "collect_step sink FlushTick c = collector_flush sink c"

text \<open>What an event offers to the store: the line as the governor leaves it.\<close>

fun collect_offer :: "collector \<Rightarrow> collect_event \<Rightarrow> app_log list" where
  "collect_offer c (Submit l) = [fst (snd (log_Admit (co_gov c) l))]"
| "collect_offer c FlushTick = []"

definition collector_inv :: "collector \<Rightarrow> bool" where
  "collector_inv c \<longleftrightarrow> length (co_queue c) \<le> 10 * co_batch c \<and> co_kept c = length (co_stored c) \<and>
     co_fanned c = co_stored c"

lemma collector_inv_New: "collector_inv (NewCollector g s)"
  by (simp add: collector_inv_def NewCollector_def)

lemma submit_fields:
  assumes "log_Admit (co_gov c) l = (g', l', r)"
  shows "collector_submit l c =
    (case r of
       Some reason \<Rightarrow> c\<lparr>co_gov := g', co_drops := co_drops c @ [Refused reason]\<rparr>
     | None \<Rightarrow>
         if 10 * co_batch c \<le> length (co_queue c) then c\<lparr>co_gov := g', co_drops := co_drops c @ [QueueFull]\<rparr>
         else c\<lparr>co_gov := g', co_queue := co_queue c @ [l']\<rparr>)"
  by (simp add: collector_submit_def assms Let_def split: option.split)

interpretation collecting: lossy_queue
  "collect_step sink" collect_offer co_queue co_stored "\<lambda>c. length (co_drops c)" co_warned
  "\<lambda>c. 10 * co_batch c" collector_inv
  for sink
proof
  fix c :: collector and e :: collect_event
  assume inv: "collector_inv c"
  show "length (co_queue c) \<le> 10 * co_batch c"
    using inv by (simp add: collector_inv_def)
  have "collector_inv (collect_step sink e c) \<and>
    length (co_stored (collect_step sink e c)) + length (co_queue (collect_step sink e c)) +
      length (co_drops (collect_step sink e c)) + co_warned (collect_step sink e c) =
    length (co_stored c) + length (co_queue c) + length (co_drops c) + co_warned c + length (collect_offer c e) \<and>
    subseq (co_stored (collect_step sink e c) @ co_queue (collect_step sink e c))
      (co_stored c @ co_queue c @ collect_offer c e) \<and>
    length (co_drops c) \<le> length (co_drops (collect_step sink e c)) \<and> co_warned c \<le> co_warned (collect_step sink e c)"
  proof (cases e)
    case (Submit l)
    obtain g' l' r where a: "log_Admit (co_gov c) l = (g', l', r)"
      by (cases "log_Admit (co_gov c) l") auto
    show ?thesis
      using inv by (auto simp: Submit submit_fields [OF a] a collector_inv_def split: option.split)
  next
    case FlushTick
    show ?thesis
      using inv by (auto simp: FlushTick collector_flush_def collector_inv_def Let_def)
  qed
  then show "collector_inv (collect_step sink e c)"
    "length (co_stored (collect_step sink e c)) + length (co_queue (collect_step sink e c)) +
      length (co_drops (collect_step sink e c)) + co_warned (collect_step sink e c) =
    length (co_stored c) + length (co_queue c) + length (co_drops c) + co_warned c + length (collect_offer c e)"
    "subseq (co_stored (collect_step sink e c) @ co_queue (collect_step sink e c))
      (co_stored c @ co_queue c @ collect_offer c e)"
    "length (co_drops c) \<le> length (co_drops (collect_step sink e c)) \<and> co_warned c \<le> co_warned (collect_step sink e c)"
    by auto
qed

lemma collect_offers: "length (collecting.offers sink c es) = length (filter (\<lambda>e. e \<noteq> FlushTick) es)"
proof (induction es arbitrary: c)
  case (Cons e es)
  then show ?case by (cases e) simp_all
qed simp

text \<open>
  C28. No line disappears unseen inside the collector: whatever arrives and however the store answers,
  every submitted line is stored, queued, dropped under a counted reason, or named in a warning; at
  most 2000 lines are held in memory; the store gets the lines in the order they arrived, and
  exactly what was kept is handed to the exporters.
\<close>

theorem collector_accounts:
  "let c = collecting.steps sink es (NewCollector g service) in
     length (co_stored c) + length (co_queue c) + length (co_drops c) + co_warned c =
       length (filter (\<lambda>e. e \<noteq> FlushTick) es) \<and>
     length (co_queue c) \<le> 2000 \<and>
     subseq (co_stored c @ co_queue c) (collecting.offers sink (NewCollector g service) es) \<and>
     co_fanned c = co_stored c \<and> co_kept c = length (co_stored c)"
proof -
  define c where "c = collecting.steps sink es (NewCollector g service)"
  note inv = collector_inv_New [of g service]
  have "collector_inv c"
    unfolding c_def by (rule collecting.inv_steps [OF inv])
  moreover have "co_batch (collecting.steps sink es d) = co_batch d" for d
  proof (induction es arbitrary: d)
    case (Cons e es)
    then show ?case
      by (cases e) (simp_all add: collector_submit_def collector_flush_def Let_def split: option.split prod.split)
  qed simp
  ultimately show ?thesis
    using collecting.conserve_steps [OF inv, of sink es] collecting.order_steps [OF inv, of sink es]
      collect_offers [of sink "NewCollector g service" es]
    by (simp add: c_def [symmetric] collector_inv_def Let_def) (simp add: c_def NewCollector_def)
qed

text \<open>
  Draining works: once the last tick has found a store that answers, nothing is left in memory, and
  as long as the store never refuses a batch a line is missing from it only under a counted reason.
\<close>

theorem collector_drains:
  assumes "\<And>n batch. sink n batch"
  shows "let c = collecting.steps sink (es @ [FlushTick]) (NewCollector g service) in
     co_queue c = [] \<and> co_warned c = 0 \<and>
     length (co_stored c) + length (co_drops c) = length (filter (\<lambda>e. e \<noteq> FlushTick) es) \<and>
     (co_drops c = [] \<longrightarrow> co_stored c = collecting.offers sink (NewCollector g service) (es @ [FlushTick]))"
proof -
  define c where "c = collecting.steps sink (es @ [FlushTick]) (NewCollector g service)"
  have q: "co_queue c = []"
    by (simp add: c_def collecting.steps_def collector_flush_def Let_def)
  have "co_warned (collecting.steps sink fs d) = co_warned d" for fs d
  proof (induction fs arbitrary: d)
    case (Cons e fs)
    then show ?case
      using assms by (cases e)
        (simp_all add: collector_submit_def collector_flush_def Let_def split: option.split prod.split)
  qed simp
  then have w: "co_warned c = 0"
    by (simp add: c_def NewCollector_def)
  show ?thesis
    using collecting.conserve_steps [OF collector_inv_New, of sink "es @ [FlushTick]" g service]
      collecting.lossless [OF collector_inv_New, of sink "es @ [FlushTick]" g service]
      collect_offers [of sink "NewCollector g service" "es @ [FlushTick]"] q w
    by (simp add: c_def [symmetric] Let_def) (simp add: NewCollector_def)
qed

theorem collector_drains_witness:
  "co_queue (collecting.steps (\<lambda>_ _. True) ([Submit sample_line] @ [FlushTick]) (NewCollector sample_governor ''shop'')) = []"
  using collector_drains [of "\<lambda>_ _. True" "[Submit sample_line]" sample_governor "''shop''"]
  by (simp add: Let_def)

text \<open>A batch the store refuses is reported in a warning, and under no drop reason.\<close>

lemma refused_batch_uncounted:
  assumes "\<not> sink (co_calls c) (co_queue c)" and "co_queue c \<noteq> []"
  shows "co_drops (collector_flush sink c) = co_drops c \<and> co_queue (collector_flush sink c) = [] \<and>
    co_stored (collector_flush sink c) = co_stored c \<and>
    co_warned (collector_flush sink c) = co_warned c + length (co_queue c)"
  using assms by (simp add: collector_flush_def Let_def)

subsection \<open>Reading a stream\<close>

definition maxLineBytes :: nat where
  "maxLineBytes = 2 ^ 20"

definition drop_cr :: "string \<Rightarrow> string" where
  "drop_cr s = (if s \<noteq> [] \<and> last s = CHR 0x0D then butlast s else s)"

text \<open>
  The loop over \<open>bufio.Scanner\<close>, on the raw lines of the stream: a line that does not fit its buffer
  ends the scan.  \<open>stopped i\<close> is the state of the context after line \<open>i\<close>; the second result is
  what was echoed.
\<close>

fun read_lines ::
  "line_env \<Rightarrow> line_parser \<Rightarrow> (nat \<Rightarrow> bool) \<Rightarrow> nat \<Rightarrow> string list \<Rightarrow> collector \<Rightarrow> collector \<times> string list" where
  "read_lines env p stopped i [] c = (c, [])"
| "read_lines env p stopped i (raw # rest) c =
     (if length raw \<ge> maxLineBytes then (c, [])
      else
        (let line = drop_cr raw
         in if trim_space line = [] then
              (let (c', echo) = read_lines env p stopped (Suc i) rest c in (c', line # echo))
            else
              (let c1 = collector_submit (parse_line env p line) c
               in if stopped i then (c1, [line])
                  else (let (c', echo) = read_lines env p stopped (Suc i) rest c1 in (c', line # echo)))))"

definition stream_lines :: "string \<Rightarrow> string list" where
  "stream_lines s =
     (let ls = split_on (CHR 0x0A) s in if last ls = [] then butlast ls else ls)"

definition collector_Read ::
  "sysenv \<Rightarrow> line_env \<Rightarrow> applog_source \<Rightarrow> (nat \<Rightarrow> bool) \<Rightarrow> string \<Rightarrow> collector \<Rightarrow> collector \<times> string list" where
  "collector_Read sys env src stopped stream c =
     (case newParser sys src (co_service c) of
        None \<Rightarrow> (c, [])
      | Some p \<Rightarrow> read_lines env p stopped 0 (stream_lines stream) c)"

text \<open>
  Reading a stream passes every line through and submits every line that is not blank, in order;
  and a line of a mebibyte or more ends both for good, for all the lines after it.
\<close>

theorem read_lines_all:
  assumes "\<forall>raw \<in> set ls. length raw < maxLineBytes" and "\<And>i. \<not> stopped i"
  shows "read_lines env p stopped i ls c =
      (fold (\<lambda>line. collector_submit (parse_line env p line)) (filter (\<lambda>l. trim_space l \<noteq> []) (map drop_cr ls)) c,
       map drop_cr ls) \<and>
    (maxLineBytes \<le> length big \<longrightarrow>
       read_lines env p stopped i (ls @ big # rest) c = read_lines env p stopped i ls c)"
  using assms
proof (induction ls arbitrary: i c)
  case (Cons raw ls)
  then show ?case
    using Cons.IH [of "Suc i" c] Cons.IH [of "Suc i" "collector_submit (parse_line env p (drop_cr raw)) c"]
    by (auto simp: Let_def split: prod.split)
qed simp

theorem read_lines_all_witness:
  "snd (read_lines env p (\<lambda>_. False) 0 [''boot'', [CHR 0x0D], ''ready''] c) = [''boot'', [], ''ready'']"
proof -
  have "\<forall>raw \<in> set [''boot'', [CHR 0x0D], ''ready'']. length raw < maxLineBytes"
    by (simp add: maxLineBytes_def)
  from read_lines_all [OF this, of "\<lambda>_. False" env p 0 c "[]" "[]"] show ?thesis
    by (simp add: drop_cr_def)
qed

subsection \<open>Following a file\<close>

text \<open>
  The file at the path, if there is one: its inode and its content.  The follower has a file open or
  not, remembers an inode (0 before the first open) and has \<open>ta_unread\<close> in front of its reader.
\<close>

record follower =
  ta_open :: bool
  ta_ino :: nat
  ta_unread :: string
  ta_lines :: "string list"
  ta_path :: "(nat \<times> string) option"

definition tail_open :: "follower \<Rightarrow> follower" where
  "tail_open t =
     (let t1 = t\<lparr>ta_open := False\<rparr>
      in case ta_path t1 of
           None \<Rightarrow> t1
         | Some (ino, content) \<Rightarrow>
             t1\<lparr>ta_open := True, ta_unread := (if ta_ino t1 = 0 then [] else content), ta_ino := ino\<rparr>)"

definition newline :: char where
  "newline = CHR 0x0A"

definition chop :: "string \<Rightarrow> string" where
  "chop = trim_right (\<lambda>c. c = CHR 0x0D \<or> c = newline)"

text \<open>One round of the loop, the wait for the ticker included.\<close>

definition tail_round :: "follower \<Rightarrow> follower" where
  "tail_round t =
     (if \<not> ta_open t then tail_open t
      else
        (let (line, rest, found) = cut_on newline (ta_unread t)
         in if found then
              (let t1 = t\<lparr>ta_unread := rest\<rparr>
               in if trim_space (chop line) \<noteq> [] then t1\<lparr>ta_lines := ta_lines t1 @ [chop line]\<rparr> else t1)
            else
              (let t1 = t\<lparr>ta_unread := []\<rparr>
               in case ta_path t1 of
                    Some (ino, _) \<Rightarrow> if ino \<noteq> ta_ino t1 then tail_open (t1\<lparr>ta_ino := 1\<rparr>) else t1
                  | None \<Rightarrow> tail_open (t1\<lparr>ta_ino := 1\<rparr>))))"

text \<open>The application appends to the file, and the file is replaced.\<close>

definition wrote :: "string \<Rightarrow> follower \<Rightarrow> follower" where
  "wrote s t =
     (case ta_path t of
        None \<Rightarrow> t
      | Some (ino, content) \<Rightarrow>
          (let t1 = t\<lparr>ta_path := Some (ino, content @ s)\<rparr>
           in if ta_open t \<and> ino = ta_ino t then t1\<lparr>ta_unread := ta_unread t1 @ s\<rparr> else t1))"

definition text_lines :: "string list \<Rightarrow> string" where
  "text_lines ls = concat (map (\<lambda>l. l @ [newline]) ls)"

definition kept_lines :: "string list \<Rightarrow> string list" where
  "kept_lines ls = filter (\<lambda>l. trim_space l \<noteq> []) (map chop ls)"

lemma tail_round_line:
  assumes "ta_open t" and "newline \<notin> set l" and "ta_unread t = l @ newline # rest"
  shows "tail_round t = t\<lparr>ta_unread := rest, ta_lines := ta_lines t @ kept_lines [l]\<rparr>"
  using assms by (simp add: tail_round_def cut_on_append Let_def kept_lines_def)

lemma tail_rounds:
  "ta_open t \<Longrightarrow> \<forall>l \<in> set ls. newline \<notin> set l \<Longrightarrow> ta_unread t = text_lines ls @ rest \<Longrightarrow>
     (tail_round ^^ length ls) t = t\<lparr>ta_unread := rest, ta_lines := ta_lines t @ kept_lines ls\<rparr>"
proof (induction ls arbitrary: t)
  case Nil
  then show ?case by (simp add: text_lines_def kept_lines_def)
next
  case (Cons l ls)
  have "tail_round t = t\<lparr>ta_unread := text_lines ls @ rest, ta_lines := ta_lines t @ kept_lines [l]\<rparr>"
    using Cons.prems by (intro tail_round_line) (simp_all add: text_lines_def)
  then show ?case
    using Cons by (simp add: funpow_Suc_right kept_lines_def del: funpow.simps)
qed


definition sample_follower :: follower where
  "sample_follower = \<lparr>ta_open = True, ta_ino = 7, ta_unread = [], ta_lines = [], ta_path = Some (7, [])\<rparr>"


text \<open>
  A line that is written in two pieces loses the first one: if the follower reads in between, what
  it submits for the line is its tail.
\<close>

theorem partial_line_lost:
  assumes "ta_open t" and "ta_path t = Some (ta_ino t, content)" and "ta_unread t = []"
    and "newline \<notin> set a" and "newline \<notin> set b"
  shows "ta_lines (tail_round (wrote (b @ [newline]) (tail_round (wrote a t)))) = ta_lines t @ kept_lines [b]"
proof -
  have "tail_round (wrote a t) = t\<lparr>ta_path := Some (ta_ino t, content @ a)\<rparr>"
    using assms by (cases t) (simp add: tail_round_def wrote_def cut_on_not_found Let_def)
  then show ?thesis
    using assms by (simp add: wrote_def Let_def tail_round_line)
qed

theorem partial_line_lost_witness:
  "ta_lines (tail_round (wrote (''c: out of memory'' @ [newline]) (tail_round (wrote ''pani'' sample_follower))))
     = [''c: out of memory'']"
proof -
  have "newline \<notin> set ''pani''" "newline \<notin> set ''c: out of memory''"
    "kept_lines [''c: out of memory''] = [''c: out of memory'']"
    by code_simp+
  then show ?thesis
    using partial_line_lost [of sample_follower "[]" "''pani''" "''c: out of memory''"]
    by (simp add: sample_follower_def)
qed

end
