(* ===== verification/Sinks.thy ===== *)
theory Sinks
  imports Queue ConfigTypes
begin

text \<open>
  The sinks behind a request: the asynchronous writer of the store (\<open>internal/store/async.go\<close>) and the
  exporter workers of the dispatcher (\<open>internal/export/export.go\<close>).  A select loop is a sequence of
  its cases, in whatever order they become ready.
\<close>

subsection \<open>The asynchronous writer\<close>

datatype prune_call = PruneRows int | PruneBefore int | PruneAppLogsBefore int | PruneSpansBefore int

text \<open>The calls the writer made: saved records, warnings for records that were not, prune calls.\<close>

record 'r async_writer =
  aw_cap :: nat
  aw_queue :: "'r list"
  aw_onDrop :: nat
  aw_maxRows :: int
  aw_maxAge :: int
  aw_appLogMaxAge :: int
  aw_spanMaxAge :: int
  aw_appLogStore :: bool
  aw_spanStore :: bool
  aw_calls :: nat
  aw_saved :: "'r list"
  aw_warned :: nat
  aw_prunes :: "prune_call list"

datatype async_option = WithRetention int | WithMaxAge int | WithAppLogMaxAge int | WithSpanMaxAge int

fun apply_async_option :: "async_option \<Rightarrow> 'r async_writer \<Rightarrow> 'r async_writer" where
  "apply_async_option (WithRetention n) w = w\<lparr>aw_maxRows := n\<rparr>"
| "apply_async_option (WithMaxAge d) w = w\<lparr>aw_maxAge := d\<rparr>"
| "apply_async_option (WithAppLogMaxAge d) w = w\<lparr>aw_appLogMaxAge := d\<rparr>"
| "apply_async_option (WithSpanMaxAge d) w = w\<lparr>aw_spanMaxAge := d\<rparr>"

definition NewAsyncWriter :: "bool \<Rightarrow> bool \<Rightarrow> nat \<Rightarrow> async_option list \<Rightarrow> 'r async_writer" where
  "NewAsyncWriter applogs spans queueSize opts =
     fold apply_async_option opts
       \<lparr>aw_cap = queueSize, aw_queue = [], aw_onDrop = 0, aw_maxRows = 0, aw_maxAge = 0,
        aw_appLogMaxAge = 0, aw_spanMaxAge = 0, aw_appLogStore = applogs, aw_spanStore = spans,
        aw_calls = 0, aw_saved = [], aw_warned = 0, aw_prunes = []\<rparr>"

definition async_Enqueue :: "'r \<Rightarrow> 'r async_writer \<Rightarrow> 'r async_writer" where
  "async_Enqueue rec w =
     (if length (aw_queue w) < aw_cap w then w\<lparr>aw_queue := aw_queue w @ [rec]\<rparr>
      else w\<lparr>aw_onDrop := Suc (aw_onDrop w)\<rparr>)"

text \<open>The two cases of the loop of \<open>run\<close>: a record to save, and the prune ticker at time \<open>now\<close>.\<close>

definition async_save :: "'r sink \<Rightarrow> 'r async_writer \<Rightarrow> 'r async_writer" where
  "async_save sink w =
     (case aw_queue w of
        [] \<Rightarrow> w
      | rec # rest \<Rightarrow>
          (let w1 = w\<lparr>aw_queue := rest, aw_calls := Suc (aw_calls w)\<rparr>
           in if sink (aw_calls w) [rec] then w1\<lparr>aw_saved := aw_saved w1 @ [rec]\<rparr>
              else w1\<lparr>aw_warned := Suc (aw_warned w1)\<rparr>))"

definition async_prune :: "int \<Rightarrow> 'r async_writer \<Rightarrow> 'r async_writer" where
  "async_prune now w =
     w\<lparr>aw_prunes := aw_prunes w @
       (if aw_maxRows w > 0 then [PruneRows (aw_maxRows w)] else []) @
       (if aw_maxAge w > 0 then [PruneBefore (now - aw_maxAge w)] else []) @
       (if aw_appLogMaxAge w > 0 \<and> aw_appLogStore w then [PruneAppLogsBefore (now - aw_appLogMaxAge w)] else []) @
       (if aw_spanMaxAge w > 0 \<and> aw_spanStore w then [PruneSpansBefore (now - aw_spanMaxAge w)] else [])\<rparr>"

datatype 'r async_event = Enqueued 'r | SaveNext | PruneTick int

fun async_step :: "'r sink \<Rightarrow> 'r async_event \<Rightarrow> 'r async_writer \<Rightarrow> 'r async_writer" where
  "async_step sink (Enqueued r) w = async_Enqueue r w"
| "async_step sink SaveNext w = async_save sink w"
| "async_step sink (PruneTick now) w = async_prune now w"

fun async_offer :: "'r async_writer \<Rightarrow> 'r async_event \<Rightarrow> 'r list" where
  "async_offer w (Enqueued r) = [r]"
| "async_offer w _ = []"

text \<open>\<open>Close\<close>: the channel is closed and the loop saves what is left.\<close>

definition async_Close :: "'r sink \<Rightarrow> 'r async_writer \<Rightarrow> 'r async_writer" where
  "async_Close sink w = (async_save sink ^^ length (aw_queue w)) w"

definition async_inv :: "'r async_writer \<Rightarrow> bool" where
  "async_inv w \<longleftrightarrow> length (aw_queue w) \<le> aw_cap w"

interpretation writing: lossy_queue
  "async_step sink" async_offer aw_queue aw_saved aw_onDrop aw_warned aw_cap async_inv
  for sink :: "'r sink"
proof
  fix w :: "'r async_writer" and e :: "'r async_event"
  assume inv: "async_inv w"
  have save: "aw_queue w = [] \<or> (\<exists>r rest. aw_queue w = r # rest)"
    by (cases "aw_queue w") auto
  have drop1: "subseq (xs @ rest) (xs @ r # rest)" for xs rest and r :: 'r
    by (rule list_emb_append_mono) auto
  show "length (aw_queue w) \<le> aw_cap w"
    using inv by (simp add: async_inv_def)
  show "async_inv (async_step sink e w)"
    using inv save by (cases e) (auto simp: async_inv_def async_Enqueue_def async_save_def async_prune_def Let_def)
  show "length (aw_saved (async_step sink e w)) + length (aw_queue (async_step sink e w)) +
       aw_onDrop (async_step sink e w) + aw_warned (async_step sink e w) =
     length (aw_saved w) + length (aw_queue w) + aw_onDrop w + aw_warned w + length (async_offer w e)"
    using save by (cases e) (auto simp: async_Enqueue_def async_save_def async_prune_def Let_def)
  show "subseq (aw_saved (async_step sink e w) @ aw_queue (async_step sink e w))
       (aw_saved w @ aw_queue w @ async_offer w e)"
    using save by (cases e) (auto simp: async_Enqueue_def async_save_def async_prune_def Let_def intro: drop1)
  show "aw_onDrop w \<le> aw_onDrop (async_step sink e w) \<and> aw_warned w \<le> aw_warned (async_step sink e w)"
    using save by (cases e) (auto simp: async_Enqueue_def async_save_def async_prune_def Let_def)
qed

definition async_saved :: "'r async_event list \<Rightarrow> 'r list" where
  "async_saved es = concat (map (\<lambda>e. case e of Enqueued r \<Rightarrow> [r] | _ \<Rightarrow> []) es)"

lemma async_offers: "writing.offers sink w es = async_saved es"
proof (induction es arbitrary: w)
  case (Cons e es)
  then show ?case by (cases e) (simp_all add: async_saved_def)
qed (simp add: async_saved_def)

lemma async_steps_cap: "aw_cap (writing.steps sink es w) = aw_cap w"
proof (induction es arbitrary: w)
  case (Cons e es)
  then show ?case
    by (cases e) (auto simp: async_Enqueue_def async_save_def async_prune_def Let_def split: list.split)
qed simp

lemma async_save_run: "(async_save sink ^^ n) w = writing.steps sink (replicate n SaveNext) w"
  by (induction n arbitrary: w) (simp_all add: funpow_Suc_right del: funpow.simps)

lemma async_drained:
  "length (aw_queue w) \<le> n \<Longrightarrow> aw_queue ((async_save sink ^^ n) w) = []"
proof (induction n arbitrary: w)
  case (Suc n)
  have "length (aw_queue (async_save sink w)) \<le> n"
    using Suc.prems by (auto simp: async_save_def Let_def split: list.split)
  then show ?case
    using Suc.IH by (simp add: funpow_Suc_right del: funpow.simps)
qed simp

text \<open>
  C27. Storage never blocks a request and never hides a loss: after any interleaving of requests, saves
  and pruning, and after the final drain, every record handed over was saved, in order, or was
  counted as dropped or reported; the queue never outgrew its capacity and is empty at the end.
\<close>

theorem async_writer_accounts:
  "let w0 = NewAsyncWriter applogs spans queueSize opts;
       w = writing.steps sink es w0;
       z = async_Close sink w
   in length (aw_queue w) \<le> queueSize \<and> aw_queue z = [] \<and>
      length (aw_saved z) + aw_onDrop z + aw_warned z = length (async_saved es) \<and>
      subseq (aw_saved z) (async_saved es) \<and>
      (aw_onDrop z = 0 \<and> aw_warned z = 0 \<longrightarrow> aw_saved z = async_saved es)"
proof -
  define w0 where "w0 = (NewAsyncWriter applogs spans queueSize opts :: 'a async_writer)"
  have "aw_cap (fold apply_async_option opts v) = aw_cap v \<and> aw_queue (fold apply_async_option opts v) = aw_queue v \<and>
      aw_saved (fold apply_async_option opts v) = aw_saved v \<and> aw_onDrop (fold apply_async_option opts v) = aw_onDrop v \<and>
      aw_warned (fold apply_async_option opts v) = aw_warned v" for v :: "'a async_writer"
  proof (induction opts arbitrary: v)
    case (Cons opt opts)
    then show ?case by (cases opt) simp_all
  qed simp
  then have w0: "aw_cap w0 = queueSize" "aw_queue w0 = []" "aw_saved w0 = []" "aw_onDrop w0 = 0" "aw_warned w0 = 0"
    by (simp_all add: w0_def NewAsyncWriter_def)
  then have inv: "async_inv w0"
    by (simp add: async_inv_def)
  define w where "w = writing.steps sink es w0"
  define fs where "fs = es @ replicate (length (aw_queue w)) SaveNext"
  have z: "async_Close sink w = writing.steps sink fs w0"
    by (simp add: async_Close_def async_save_run fs_def w_def writing.steps_def)
  have fs: "async_saved fs = async_saved es"
    by (simp add: async_saved_def fs_def)
  have "aw_queue (async_Close sink w) = []"
    by (simp add: async_Close_def async_drained)
  moreover have "length (aw_queue w) \<le> queueSize"
    using writing.inv_steps [OF inv, of sink es] async_steps_cap [of sink es w0] w0
    by (simp add: async_inv_def w_def)
  ultimately show ?thesis
    using writing.conserve_steps [OF inv, of sink fs] writing.order_steps [OF inv, of sink fs]
      writing.lossless [OF inv, of sink fs] w0
    unfolding Let_def w0_def [symmetric] w_def [symmetric] z async_offers fs by simp
qed

theorem async_writer_accounts_witness:
  "aw_saved (async_Close (\<lambda>_ _. True)
     (writing.steps (\<lambda>_ _. True) [Enqueued (1::int), PruneTick 0, Enqueued 2, SaveNext] (NewAsyncWriter True True 8 [])))
   = [1, 2]"
proof -
  let ?z = "async_Close (\<lambda>_ _. True)
     (writing.steps (\<lambda>_ _. True) [Enqueued (1::int), PruneTick 0, Enqueued 2, SaveNext] (NewAsyncWriter True True 8 []))"
  have "aw_onDrop ?z = 0 \<and> aw_warned ?z = 0"
    by (simp add: NewAsyncWriter_def async_Enqueue_def async_prune_def async_save_def async_Close_def Let_def)
  then show ?thesis
    using async_writer_accounts [of True True 8 "[]" "\<lambda>_ _. True" "[Enqueued (1::int), PruneTick 0, Enqueued 2, SaveNext]"]
    by (simp add: Let_def async_saved_def)
qed

subsection \<open>The exporter workers\<close>

text \<open>
  One worker with its two channels, the batches it is gathering, its counters, and the calls the
  exporter received with their results.  A nil log channel is None.
\<close>

record ('r, 'l) worker =
  wk_name :: string
  wk_type :: string
  wk_queue :: "'r list"
  wk_queueSize :: nat
  wk_batchSize :: nat
  wk_delivered :: nat
  wk_failed :: nat
  wk_dropped :: nat
  wk_logs :: "'l list option"
  wk_logDrop :: nat
  wk_pending :: "'r list"
  wk_logPending :: "'l list"
  wk_calls :: "('r list \<times> bool) list"
  wk_logCalls :: "('l list \<times> bool) list"

definition new_worker :: "exporter_cfg \<Rightarrow> bool \<Rightarrow> ('r, 'l) worker" where
  "new_worker c takesLogs =
     \<lparr>wk_name = ex_Name c, wk_type = ex_Type c, wk_queue = [], wk_queueSize = nat (ex_QueueSize c),
      wk_batchSize = nat (ex_BatchSize c), wk_delivered = 0, wk_failed = 0, wk_dropped = 0,
      wk_logs = (if takesLogs then Some [] else None), wk_logDrop = 0, wk_pending = [], wk_logPending = [],
      wk_calls = [], wk_logCalls = []\<rparr>"

text \<open>
  Building an exporter is its constructor's business: None is an error, otherwise whether it takes
  application log lines.
\<close>

datatype export_error = UnknownExporterType string | ExporterFailed string

fun dispatcher_New ::
  "(string \<Rightarrow> bool) \<Rightarrow> (exporter_cfg \<Rightarrow> bool option) \<Rightarrow> exporter_cfg list \<Rightarrow> export_error + ('r, 'l) worker list" where
  "dispatcher_New registered build [] = Inr []"
| "dispatcher_New registered build (c # cs) =
     (if ex_Type c \<in> {''file'', ''webhook'', ''command'', ''otlp''} \<or> registered (ex_Type c) then
        (case build c of
           None \<Rightarrow> Inl (ExporterFailed (ex_Name c))
         | Some takesLogs \<Rightarrow>
             (case dispatcher_New registered build cs of
                Inl e \<Rightarrow> Inl e
              | Inr ws \<Rightarrow> Inr (new_worker c takesLogs # ws)))
      else Inl (UnknownExporterType (ex_Type c)))"

definition offer_record :: "'r \<Rightarrow> ('r, 'l) worker \<Rightarrow> ('r, 'l) worker" where
  "offer_record rec w =
     (if length (wk_queue w) < wk_queueSize w then w\<lparr>wk_queue := wk_queue w @ [rec]\<rparr>
      else w\<lparr>wk_dropped := Suc (wk_dropped w)\<rparr>)"

definition offer_log :: "'l \<Rightarrow> ('r, 'l) worker \<Rightarrow> ('r, 'l) worker" where
  "offer_log l w =
     (case wk_logs w of
        None \<Rightarrow> w
      | Some q \<Rightarrow> if length q < wk_queueSize w then w\<lparr>wk_logs := Some (q @ [l])\<rparr>
                  else w\<lparr>wk_logDrop := Suc (wk_logDrop w)\<rparr>)"

definition dispatcher_Enqueue :: "'r \<Rightarrow> ('r, 'l) worker list \<Rightarrow> ('r, 'l) worker list" where
  "dispatcher_Enqueue rec ws = map (offer_record rec) ws"

definition EnqueueAppLog :: "'l \<Rightarrow> ('r, 'l) worker list \<Rightarrow> ('r, 'l) worker list" where
  "EnqueueAppLog l ws = map (offer_log l) ws"

definition AcceptsAppLogs :: "('r, 'l) worker list \<Rightarrow> bool" where
  "AcceptsAppLogs ws = list_ex (\<lambda>w. wk_logs w \<noteq> None) ws"

record export_stat =
  es_Name :: string
  es_Type :: string
  es_Delivered :: nat
  es_Failed :: nat
  es_Dropped :: nat
  es_QueueLen :: nat

definition dispatcher_Stats :: "('r, 'l) worker list \<Rightarrow> export_stat list" where
  "dispatcher_Stats ws = map (\<lambda>w.
     \<lparr>es_Name = wk_name w, es_Type = wk_type w, es_Delivered = wk_delivered w, es_Failed = wk_failed w,
      es_Dropped = wk_dropped w, es_QueueLen = length (wk_queue w)\<rparr>) ws"

text \<open>The closures of \<open>run\<close> and the cases of its loop.\<close>

definition flush_records :: "'r sink \<Rightarrow> ('r, 'l) worker \<Rightarrow> ('r, 'l) worker" where
  "flush_records srec w =
     (if wk_pending w = [] then w
      else
        (let ok = srec (length (wk_calls w)) (wk_pending w);
             w1 = w\<lparr>wk_calls := wk_calls w @ [(wk_pending w, ok)]\<rparr>;
             w2 = (if \<not> ok then w1\<lparr>wk_failed := wk_failed w1 + length (wk_pending w1)\<rparr>
                   else w1\<lparr>wk_delivered := wk_delivered w1 + length (wk_pending w1)\<rparr>)
         in w2\<lparr>wk_pending := []\<rparr>))"

definition flush_logs :: "'l sink \<Rightarrow> ('r, 'l) worker \<Rightarrow> ('r, 'l) worker" where
  "flush_logs slog w =
     (if wk_logPending w = [] then w
      else
        (let ok = slog (length (wk_logCalls w)) (wk_logPending w);
             w1 = w\<lparr>wk_logCalls := wk_logCalls w @ [(wk_logPending w, ok)]\<rparr>;
             w2 = (if \<not> ok then w1\<lparr>wk_failed := wk_failed w1 + length (wk_logPending w1)\<rparr>
                   else w1\<lparr>wk_delivered := wk_delivered w1 + length (wk_logPending w1)\<rparr>)
         in w2\<lparr>wk_logPending := []\<rparr>))"

definition gather_record :: "'r sink \<Rightarrow> ('r, 'l) worker \<Rightarrow> ('r, 'l) worker" where
  "gather_record srec w =
     (case wk_queue w of
        [] \<Rightarrow> w
      | rec # rest \<Rightarrow>
          (let w1 = w\<lparr>wk_queue := rest, wk_pending := wk_pending w @ [rec]\<rparr>
           in if length (wk_pending w1) \<ge> wk_batchSize w1 then flush_records srec w1 else w1))"

definition gather_log :: "'l sink \<Rightarrow> ('r, 'l) worker \<Rightarrow> ('r, 'l) worker" where
  "gather_log slog w =
     (case wk_logs w of
        Some (l # rest) \<Rightarrow>
          (let w1 = w\<lparr>wk_logs := Some rest, wk_logPending := wk_logPending w @ [l]\<rparr>
           in if length (wk_logPending w1) \<ge> wk_batchSize w1 then flush_logs slog w1 else w1)
      | _ \<Rightarrow> w)"

datatype ('r, 'l) worker_event = OfferRecord 'r | OfferLog 'l | TakeRecord | TakeLog | Ticker

fun worker_step :: "'r sink \<Rightarrow> 'l sink \<Rightarrow> ('r, 'l) worker_event \<Rightarrow> ('r, 'l) worker \<Rightarrow> ('r, 'l) worker" where
  "worker_step srec slog (OfferRecord r) w = offer_record r w"
| "worker_step srec slog (OfferLog l) w = offer_log l w"
| "worker_step srec slog TakeRecord w = gather_record srec w"
| "worker_step srec slog TakeLog w = gather_log slog w"
| "worker_step srec slog Ticker w = flush_logs slog (flush_records srec w)"

text \<open>
  \<open>Shutdown\<close>: both channels are closed; the loop takes the remaining records, and when the record
  channel is empty flushes, drains the lines and flushes them.
\<close>

definition worker_Shutdown :: "'r sink \<Rightarrow> 'l sink \<Rightarrow> ('r, 'l) worker \<Rightarrow> ('r, 'l) worker" where
  "worker_Shutdown srec slog w =
     (let w1 = flush_records srec ((gather_record srec ^^ length (wk_queue w)) w);
          n = (case wk_logs w1 of None \<Rightarrow> 0 | Some q \<Rightarrow> length q)
      in flush_logs slog ((gather_log slog ^^ n) w1))"

text \<open>What the exporter took, and how many it refused.\<close>

definition taken :: "('a list \<times> bool) list \<Rightarrow> 'a list" where
  "taken calls = concat (map fst (filter snd calls))"

definition refused :: "('a list \<times> bool) list \<Rightarrow> nat" where
  "refused calls = sum_list (map (length \<circ> fst) (filter (Not \<circ> snd) calls))"

lemma taken_simps [simp]:
  "taken [] = []" "taken (calls @ [(b, ok)]) = taken calls @ (if ok then b else [])"
  "refused [] = 0" "refused (calls @ [(b, ok)]) = refused calls + (if ok then 0 else length b)"
  by (simp_all add: taken_def refused_def)

definition worker_inv :: "('r, 'l) worker \<Rightarrow> bool" where
  "worker_inv w \<longleftrightarrow>
     0 < wk_batchSize w \<and> length (wk_queue w) \<le> wk_queueSize w \<and> length (wk_pending w) < wk_batchSize w \<and>
     length (wk_logPending w) < wk_batchSize w \<and> (\<forall>q. wk_logs w = Some q \<longrightarrow> length q \<le> wk_queueSize w) \<and>
     (\<forall>c \<in> set (wk_calls w). fst c \<noteq> [] \<and> length (fst c) \<le> wk_batchSize w) \<and>
     (\<forall>c \<in> set (wk_logCalls w). fst c \<noteq> [] \<and> length (fst c) \<le> wk_batchSize w) \<and>
     wk_delivered w = length (taken (wk_calls w)) + length (taken (wk_logCalls w)) \<and>
     wk_failed w = refused (wk_calls w) + refused (wk_logCalls w)"

text \<open>The same with a batch that may be full, as it is just before a flush.\<close>

definition almost_inv :: "('r, 'l) worker \<Rightarrow> bool" where
  "almost_inv w \<longleftrightarrow>
     0 < wk_batchSize w \<and> length (wk_queue w) \<le> wk_queueSize w \<and> length (wk_pending w) \<le> wk_batchSize w \<and>
     length (wk_logPending w) \<le> wk_batchSize w \<and> (\<forall>q. wk_logs w = Some q \<longrightarrow> length q \<le> wk_queueSize w) \<and>
     (\<forall>c \<in> set (wk_calls w). fst c \<noteq> [] \<and> length (fst c) \<le> wk_batchSize w) \<and>
     (\<forall>c \<in> set (wk_logCalls w). fst c \<noteq> [] \<and> length (fst c) \<le> wk_batchSize w) \<and>
     wk_delivered w = length (taken (wk_calls w)) + length (taken (wk_logCalls w)) \<and>
     wk_failed w = refused (wk_calls w) + refused (wk_logCalls w)"

lemma flush_records_fields [simp]:
  "wk_pending (flush_records srec w) = []" "wk_queue (flush_records srec w) = wk_queue w"
  "wk_logs (flush_records srec w) = wk_logs w" "wk_logPending (flush_records srec w) = wk_logPending w"
  "wk_logCalls (flush_records srec w) = wk_logCalls w" "wk_dropped (flush_records srec w) = wk_dropped w"
  "wk_queueSize (flush_records srec w) = wk_queueSize w" "wk_batchSize (flush_records srec w) = wk_batchSize w"
  "wk_logDrop (flush_records srec w) = wk_logDrop w"
  by (simp_all add: flush_records_def Let_def)

lemma flush_logs_fields [simp]:
  "wk_logPending (flush_logs slog w) = []" "wk_queue (flush_logs slog w) = wk_queue w"
  "wk_logs (flush_logs slog w) = wk_logs w" "wk_pending (flush_logs slog w) = wk_pending w"
  "wk_calls (flush_logs slog w) = wk_calls w" "wk_dropped (flush_logs slog w) = wk_dropped w"
  "wk_queueSize (flush_logs slog w) = wk_queueSize w" "wk_batchSize (flush_logs slog w) = wk_batchSize w"
  "wk_logDrop (flush_logs slog w) = wk_logDrop w"
  by (simp_all add: flush_logs_def Let_def)

lemma almost_flush_records: "almost_inv w \<Longrightarrow> almost_inv (flush_records srec w)"
  by (auto simp: almost_inv_def flush_records_def Let_def)

lemma almost_flush_logs: "almost_inv w \<Longrightarrow> almost_inv (flush_logs slog w)"
  by (auto simp: almost_inv_def flush_logs_def Let_def)

lemma worker_inv_almost:
  "worker_inv w \<longleftrightarrow> almost_inv w \<and> length (wk_pending w) < wk_batchSize w \<and> length (wk_logPending w) < wk_batchSize w"
  by (auto simp: worker_inv_def almost_inv_def)

lemma worker_inv_step: "worker_inv w \<Longrightarrow> worker_inv (worker_step srec slog e w)"
proof -
  assume inv: "worker_inv w"
  show ?thesis
  proof (cases e)
    case TakeRecord
    show ?thesis
    proof (cases "wk_queue w")
      case (Cons r rest)
      define w1 where "w1 = w\<lparr>wk_queue := rest, wk_pending := wk_pending w @ [r]\<rparr>"
      have w1: "wk_pending w1 = wk_pending w @ [r]" "wk_batchSize w1 = wk_batchSize w"
        by (simp_all add: w1_def)
      have "almost_inv w1" "length (wk_logPending w1) < wk_batchSize w1"
        using inv Cons by (auto simp: worker_inv_almost almost_inv_def w1_def)
      then show ?thesis
        using almost_flush_records [of w1 srec] w1
        by (auto simp: TakeRecord gather_record_def Cons w1_def [symmetric] Let_def worker_inv_almost
            almost_inv_def)
    qed (use inv in \<open>simp add: TakeRecord gather_record_def\<close>)
  next
    case TakeLog
    show ?thesis
    proof (cases "\<exists>l rest. wk_logs w = Some (l # rest)")
      case True
      then obtain l rest where logs: "wk_logs w = Some (l # rest)" by blast
      define w1 where "w1 = w\<lparr>wk_logs := Some rest, wk_logPending := wk_logPending w @ [l]\<rparr>"
      have w1: "wk_logPending w1 = wk_logPending w @ [l]" "wk_batchSize w1 = wk_batchSize w"
        by (simp_all add: w1_def)
      have "almost_inv w1" "length (wk_pending w1) < wk_batchSize w1"
        using inv logs by (auto simp: worker_inv_almost almost_inv_def w1_def)
      then show ?thesis
        using almost_flush_logs [of w1 slog] w1
        by (auto simp: TakeLog gather_log_def logs w1_def [symmetric] Let_def worker_inv_almost almost_inv_def)
    next
      case False
      then show ?thesis
        using inv by (auto simp: TakeLog gather_log_def split: option.split list.split)
    qed
  next
    case Ticker
    then show ?thesis
      using inv by (auto simp: worker_inv_almost intro!: almost_flush_logs almost_flush_records)
  qed (use inv in \<open>auto simp: offer_record_def offer_log_def worker_inv_def split: option.split\<close>)
qed

fun worker_offer :: "('r, 'l) worker \<Rightarrow> ('r, 'l) worker_event \<Rightarrow> 'r list" where
  "worker_offer w (OfferRecord r) = [r]"
| "worker_offer w _ = []"

lemma flush_records_calls:
  "taken (wk_calls (flush_records srec w)) @ wk_queue w = taken (wk_calls w) @ wk_pending w @ wk_queue w \<and>
     refused (wk_calls (flush_records srec w)) = refused (wk_calls w) \<or>
   taken (wk_calls (flush_records srec w)) = taken (wk_calls w) \<and>
     refused (wk_calls (flush_records srec w)) = refused (wk_calls w) + length (wk_pending w)"
  by (auto simp: flush_records_def Let_def)

text \<open>Every step of a worker on the record side: one more record, a flush, or nothing.\<close>

lemma worker_step_records:
  fixes srec slog e
  assumes "worker_inv w"
  defines "w' \<equiv> worker_step srec slog e w"
  shows "(wk_pending w' @ wk_queue w' = wk_pending w @ wk_queue w @ worker_offer w e \<and>
       wk_calls w' = wk_calls w \<and> wk_dropped w' = wk_dropped w) \<or>
    (wk_pending w' @ wk_queue w' = wk_pending w @ wk_queue w \<and> wk_calls w' = wk_calls w \<and>
       wk_dropped w' = Suc (wk_dropped w) \<and> length (worker_offer w e) = 1) \<or>
    (worker_offer w e = [] \<and> wk_dropped w' = wk_dropped w \<and>
       (\<exists>xs ys ok. wk_pending w @ wk_queue w = xs @ ys \<and> wk_pending w' @ wk_queue w' = ys \<and>
          wk_calls w' = wk_calls w @ [(xs, ok)]))"
proof (cases e)
  case TakeRecord
  then show ?thesis
    by (auto simp: w'_def gather_record_def flush_records_def Let_def split: list.split)
next
  case Ticker
  then show ?thesis
    by (auto simp: w'_def flush_records_def Let_def)
next
  case TakeLog
  have "wk_pending (gather_log slog w) = wk_pending w" "wk_queue (gather_log slog w) = wk_queue w"
    "wk_calls (gather_log slog w) = wk_calls w" "wk_dropped (gather_log slog w) = wk_dropped w"
    by (simp_all add: gather_log_def Let_def split: option.split list.split)
  with TakeLog show ?thesis
    by (simp add: w'_def)
qed (auto simp: w'_def offer_record_def offer_log_def split: option.split)

interpretation exporting: lossy_queue
  "worker_step srec slog" worker_offer "\<lambda>w. wk_pending w @ wk_queue w" "\<lambda>w. taken (wk_calls w)" wk_dropped
  "\<lambda>w. refused (wk_calls w)" "\<lambda>w. wk_batchSize w + wk_queueSize w" worker_inv
  for srec :: "'r sink" and slog :: "'l sink"
proof
  fix w :: "('r, 'l) worker" and e
  assume inv: "worker_inv w"
  show "worker_inv (worker_step srec slog e w)"
    using inv by (rule worker_inv_step)
  show "length (wk_pending w @ wk_queue w) \<le> wk_batchSize w + wk_queueSize w"
    using inv by (simp add: worker_inv_def)
  note step = worker_step_records [OF inv, of srec slog e]
  show "length (taken (wk_calls (worker_step srec slog e w))) +
      length (wk_pending (worker_step srec slog e w) @ wk_queue (worker_step srec slog e w)) +
      wk_dropped (worker_step srec slog e w) + refused (wk_calls (worker_step srec slog e w)) =
    length (taken (wk_calls w)) + length (wk_pending w @ wk_queue w) + wk_dropped w + refused (wk_calls w) +
      length (worker_offer w e)"
    using step
  proof (elim disjE conjE exE)
    fix xs ys ok
    assume ws: "wk_pending w @ wk_queue w = xs @ ys"
      "wk_pending (worker_step srec slog e w) @ wk_queue (worker_step srec slog e w) = ys"
    assume "worker_offer w e = []" "wk_dropped (worker_step srec slog e w) = wk_dropped w"
      "wk_calls (worker_step srec slog e w) = wk_calls w @ [(xs, ok)]"
    then show ?thesis
      unfolding ws by simp
  next
    assume ws: "wk_pending (worker_step srec slog e w) @ wk_queue (worker_step srec slog e w) =
      wk_pending w @ wk_queue w @ worker_offer w e"
    assume "wk_calls (worker_step srec slog e w) = wk_calls w"
      "wk_dropped (worker_step srec slog e w) = wk_dropped w"
    then show ?thesis
      unfolding ws by simp
  next
    assume ws: "wk_pending (worker_step srec slog e w) @ wk_queue (worker_step srec slog e w) =
      wk_pending w @ wk_queue w"
    assume "wk_calls (worker_step srec slog e w) = wk_calls w"
      "wk_dropped (worker_step srec slog e w) = Suc (wk_dropped w)" "length (worker_offer w e) = 1"
    then show ?thesis
      unfolding ws by simp
  qed
  have skip: "subseq (xs @ zs) (xs @ ys @ zs)" for xs ys zs :: "'r list"
    by (rule list_emb_append_mono) (auto intro: list_emb_append2)
  have longer: "subseq (as @ bs @ cs) (as @ bs @ cs @ ds)" for as bs cs ds :: "'r list"
    using skip [of "as @ bs @ cs" "[]" ds] by simp
  show "subseq (taken (wk_calls (worker_step srec slog e w)) @
      (wk_pending (worker_step srec slog e w) @ wk_queue (worker_step srec slog e w)))
    (taken (wk_calls w) @ (wk_pending w @ wk_queue w) @ worker_offer w e)"
    using step skip longer by (elim disjE conjE exE) simp_all
  show "wk_dropped w \<le> wk_dropped (worker_step srec slog e w) \<and>
      refused (wk_calls w) \<le> refused (wk_calls (worker_step srec slog e w))"
    using step by (elim disjE conjE exE) simp_all
qed

text \<open>The records a run offers, and the field a run never changes.\<close>

definition offered_records :: "('r, 'l) worker_event list \<Rightarrow> 'r list" where
  "offered_records es = concat (map (\<lambda>e. case e of OfferRecord r \<Rightarrow> [r] | _ \<Rightarrow> []) es)"

lemma worker_offers: "exporting.offers srec slog w es = offered_records es"
proof (induction es arbitrary: w)
  case (Cons e es)
  then show ?case by (cases e) (simp_all add: offered_records_def)
qed (simp add: offered_records_def)

subsection \<open>Shutting a worker down\<close>

lemma gather_record_run:
  "(gather_record srec ^^ n) w = exporting.steps srec slog (replicate n TakeRecord) w"
  by (induction n arbitrary: w) (simp_all add: funpow_Suc_right del: funpow.simps)

lemma gather_record_queue: "wk_queue (gather_record srec w) = tl (wk_queue w)"
  by (simp add: gather_record_def Let_def split: list.split)

lemma gather_records_drain: "length (wk_queue w) \<le> n \<Longrightarrow> wk_queue ((gather_record srec ^^ n) w) = []"
  by (induction n arbitrary: w) (simp_all add: funpow_Suc_right gather_record_queue del: funpow.simps)

lemma gather_log_fields [simp]:
  "wk_queue (gather_log slog w) = wk_queue w" "wk_pending (gather_log slog w) = wk_pending w"
  "wk_calls (gather_log slog w) = wk_calls w" "wk_dropped (gather_log slog w) = wk_dropped w"
  by (simp_all add: gather_log_def Let_def split: option.split list.split)

lemma gather_logs_fields [simp]:
  "wk_queue ((gather_log slog ^^ n) w) = wk_queue w" "wk_pending ((gather_log slog ^^ n) w) = wk_pending w"
  "wk_calls ((gather_log slog ^^ n) w) = wk_calls w" "wk_dropped ((gather_log slog ^^ n) w) = wk_dropped w"
  by (induction n) simp_all

lemma gather_log_logs:
  "wk_logs (gather_log slog w) = map_option tl (wk_logs w)"
  by (auto simp: gather_log_def Let_def split: option.split list.split)

lemma gather_logs_drain:
  "wk_logs w = Some q \<Longrightarrow> length q \<le> n \<Longrightarrow> wk_logs ((gather_log slog ^^ n) w) = Some []"
proof (induction n arbitrary: w q)
  case (Suc n)
  show ?case
    using Suc.IH [of "gather_log slog w" "tl q"] Suc.prems
    by (simp add: funpow_Suc_right gather_log_logs del: funpow.simps)
qed simp

lemma gather_log_nil: "wk_logs w = None \<Longrightarrow> gather_log slog w = w"
  by (simp add: gather_log_def)

lemma Shutdown_records:
  "wk_queue (worker_Shutdown srec slog w) = [] \<and> wk_pending (worker_Shutdown srec slog w) = [] \<and>
   wk_logPending (worker_Shutdown srec slog w) = [] \<and>
   (\<forall>q. wk_logs (worker_Shutdown srec slog w) = Some q \<longrightarrow> q = [])"
proof -
  define v where "v = flush_records srec ((gather_record srec ^^ length (wk_queue w)) w)"
  have v: "wk_queue v = []" "wk_pending v = []"
    using gather_records_drain [of w "length (wk_queue w)" srec] by (simp_all add: v_def)
  show ?thesis
  proof (cases "wk_logs v")
    case None
    then show ?thesis
      by (simp add: worker_Shutdown_def v_def [symmetric] v Let_def)
  next
    case (Some q)
    then show ?thesis
      using gather_logs_drain [of v q "length q" slog]
      by (simp add: worker_Shutdown_def v_def [symmetric] v Let_def)
  qed
qed

lemma Shutdown_calls:
  "worker_inv w \<Longrightarrow>
     exporting.steps srec slog (replicate (length (wk_queue w)) TakeRecord @ [Ticker]) w = u \<Longrightarrow>
     wk_calls (worker_Shutdown srec slog w) = wk_calls u \<and> wk_dropped (worker_Shutdown srec slog w) = wk_dropped u \<and>
     wk_queue u = [] \<and> wk_pending u = []"
  using gather_records_drain [of w "length (wk_queue w)" srec]
  by (auto simp: worker_Shutdown_def gather_record_run [where srec = srec and slog = slog] Let_def exporting.steps_def)

text \<open>
  C14. An exporter gets everything or the loss is counted: after any interleaving of requests, log
  lines, ticks and exports, and after the shutdown, no record is left behind; each one offered was
  exported, in order, or is in the counters of dropped or failed records; memory never exceeded one
  batch and the queue; and no call carried an empty batch or one above the batch size.
\<close>

theorem exporter_accounts:
  fixes c :: exporter_cfg and es :: "('r, 'l) worker_event list"
    and srec :: "'r sink" and slog :: "'l sink" and takesLogs :: bool
  assumes "0 < ex_BatchSize c"
  defines "w \<equiv> exporting.steps srec slog es (new_worker c takesLogs)"
  defines "z \<equiv> worker_Shutdown srec slog w"
  shows "wk_queue z = [] \<and> wk_pending z = [] \<and> wk_logPending z = [] \<and>
    length (taken (wk_calls z)) + refused (wk_calls z) + wk_dropped z = length (offered_records es) \<and>
    subseq (taken (wk_calls z)) (offered_records es) \<and>
    length (wk_pending w) + length (wk_queue w) < wk_batchSize w + Suc (wk_queueSize w) \<and>
    wk_delivered w = length (taken (wk_calls w)) + length (taken (wk_logCalls w)) \<and>
    wk_failed w = refused (wk_calls w) + refused (wk_logCalls w) \<and>
    (\<forall>call \<in> set (wk_calls z). fst call \<noteq> [] \<and> length (fst call) \<le> wk_batchSize w)"
proof -
  let ?w0 = "new_worker c takesLogs :: ('r, 'l) worker"
  have inv0: "worker_inv ?w0"
    using assms(1) by (simp add: new_worker_def worker_inv_def)
  then have inv: "worker_inv w"
    unfolding w_def by (rule exporting.inv_steps)
  let ?fs = "es @ replicate (length (wk_queue w)) TakeRecord @ [Ticker]"
  define u where "u = exporting.steps srec slog ?fs ?w0"
  have u: "exporting.steps srec slog (replicate (length (wk_queue w)) TakeRecord @ [Ticker]) w = u"
    by (simp add: u_def w_def exporting.steps_def)
  note z = Shutdown_calls [OF inv u, folded z_def] Shutdown_records [of srec slog w, folded z_def]
  have offers: "offered_records ?fs = offered_records es"
    by (simp add: offered_records_def)
  have inv_u: "worker_inv u"
    unfolding u_def by (rule exporting.inv_steps [OF inv0])
  have "wk_batchSize (worker_step srec slog e v) = wk_batchSize v" for e and v :: "('r, 'l) worker"
    by (cases e) (simp_all add: offer_record_def offer_log_def gather_record_def gather_log_def Let_def
        split: option.split list.split)
  then have "wk_batchSize (exporting.steps srec slog fs v) = wk_batchSize v" for fs and v :: "('r, 'l) worker"
    by (induction fs arbitrary: v) simp_all
  then have "wk_batchSize u = wk_batchSize w"
    using u by metis
  moreover have w0: "wk_queue ?w0 = []" "wk_pending ?w0 = []" "wk_calls ?w0 = []" "wk_dropped ?w0 = 0"
    by (simp_all add: new_worker_def)
  note exporting.conserve_steps [OF inv0, of srec slog ?fs, folded u_def, unfolded worker_offers offers w0]
  moreover note exporting.order_steps [OF inv0, of srec slog ?fs, folded u_def, unfolded worker_offers offers w0]
  moreover have "length (wk_pending w) + length (wk_queue w) < wk_batchSize w + Suc (wk_queueSize w)"
    "wk_delivered w = length (taken (wk_calls w)) + length (taken (wk_logCalls w))"
    "wk_failed w = refused (wk_calls w) + refused (wk_logCalls w)"
    using inv by (auto simp: worker_inv_def)
  moreover have "\<forall>call \<in> set (wk_calls u). fst call \<noteq> [] \<and> length (fst call) \<le> wk_batchSize u"
    using inv_u by (simp add: worker_inv_def)
  ultimately show ?thesis
    using z by simp
qed

definition sample_exporter :: exporter_cfg where
  "sample_exporter = \<lparr>ex_Name = ''audit'', ex_Type = ''file'', ex_Path = ''/tmp/x'', ex_MaxSizeMB = 100,
     ex_URL = [], ex_Headers = [], ex_Command = [], ex_BatchSize = 2, ex_FlushInterval = [],
     ex_QueueSize = 8, ex_Settings = []\<rparr>"

theorem exporter_accounts_witness:
  "let w = exporting.steps (\<lambda>n _. n \<noteq> 0) (\<lambda>_ _. True) [OfferRecord (1::int), OfferRecord 2, TakeRecord, TakeRecord, OfferRecord 3]
        (new_worker sample_exporter True :: (int, string) worker)
   in wk_queue (worker_Shutdown (\<lambda>n _. n \<noteq> 0) (\<lambda>_ _. True) w) = [] \<and> wk_failed w = 2"
proof -
  have b: "0 < ex_BatchSize sample_exporter"
    by (simp add: sample_exporter_def)
  let ?w = "exporting.steps (\<lambda>n _. n \<noteq> 0) (\<lambda>_ _. True) [OfferRecord (1::int), OfferRecord 2, TakeRecord, TakeRecord, OfferRecord 3]
        (new_worker sample_exporter True :: (int, string) worker)"
  have "refused (wk_calls ?w) = 2" "refused (wk_logCalls ?w) = 0"
    by (simp_all add: new_worker_def sample_exporter_def offer_record_def gather_record_def flush_records_def refused_def Let_def)
  then show ?thesis
    using exporter_accounts [OF b, of "\<lambda>n _. n \<noteq> 0" "\<lambda>_ _. True"
        "[OfferRecord (1::int), OfferRecord 2, TakeRecord, TakeRecord, OfferRecord 3] :: (int, string) worker_event list"
        True]
    unfolding Let_def by presburger
qed

end
