(* ===== verification/Schema.thy ===== *)
theory Schema
  imports Json
begin

text \<open>
  The schema model of \<open>internal/spec/model.go\<close> and the inference of a schema from JSON values
  (\<open>internal/spec/infer.go\<close>): reference resolution, the fields a schema documents, the schema of a
  value, and the merge of two observations.  A property without a schema (a null in the document) is
  outside the model.
\<close>

datatype schema = Schema
  (sc_Ref: string)
  (sc_Type: string)
  (sc_Format: string)
  (sc_Enum: "json list")
  (sc_Properties: "(string \<times> schema) list option")
  (sc_Required: "string list")
  (sc_Items: "schema option")
  (sc_Nullable: bool)
  (sc_Example: "json option")

text \<open>The properties as a range loop reads them: a nil map has none.\<close>

definition props :: "schema \<Rightarrow> (string \<times> schema) list" where
  "props sc = (case sc_Properties sc of None \<Rightarrow> [] | Some ps \<Rightarrow> ps)"

definition any_schema :: schema where
  "any_schema = Schema [] [] [] [] None [] None False None"

definition scalar_schema :: "string \<Rightarrow> json option \<Rightarrow> schema" where
  "scalar_schema ty ex = Schema [] ty [] [] None [] None False ex"

subsection \<open>References and documented fields\<close>

text \<open>\<open>Resolve\<close> follows at most ten references.\<close>

fun resolve_ref :: "nat \<Rightarrow> schema gomap option \<Rightarrow> schema \<Rightarrow> schema" where
  "resolve_ref 0 comps sc = sc"
| "resolve_ref (Suc n) comps sc =
     (if sc_Ref sc = [] then sc
      else if \<not> has_prefix (sc_Ref sc) ''#/components/schemas/'' then sc
      else (case comps of
              None \<Rightarrow> sc
            | Some cs \<Rightarrow>
                (case lookup cs (trim_prefix (sc_Ref sc) ''#/components/schemas/'') of
                   None \<Rightarrow> sc
                 | Some target \<Rightarrow> resolve_ref n comps target)))"

definition Resolve_ref :: "schema gomap option \<Rightarrow> schema \<Rightarrow> schema" where
  "Resolve_ref comps sc = resolve_ref 10 comps sc"

definition dotted :: "string \<Rightarrow> string \<Rightarrow> string" where
  "dotted prefix name = (if prefix \<noteq> [] then prefix @ ''.'' @ name else name)"

function walkFields :: "schema gomap option \<Rightarrow> schema \<Rightarrow> string \<Rightarrow> nat \<Rightarrow> string list" where
  "walkFields comps sc0 prefix depth =
     (let sc = Resolve_ref comps sc0
      in if depth > 12 then []
         else if props sc \<noteq> [] then
           concat (map (\<lambda>(name, child).
             dotted prefix name # walkFields comps child (dotted prefix name) (Suc depth)) (props sc))
         else (case sc_Items sc of
                 None \<Rightarrow> []
               | Some it \<Rightarrow> walkFields comps it prefix (Suc depth)))"
  by pat_completeness auto
termination walkFields
  by (relation "measure (\<lambda>(_, _, _, depth). 13 - depth)") auto

declare walkFields.simps [simp del]

definition FieldPaths :: "schema gomap option \<Rightarrow> schema option \<Rightarrow> string list" where
  "FieldPaths comps sc = (case sc of None \<Rightarrow> [] | Some s \<Rightarrow> walkFields comps s [] 0)"

subsection \<open>Merging two observations\<close>

definition merge_type :: "string \<Rightarrow> string \<Rightarrow> string" where
  "merge_type a b =
     (if a = b then a
      else if a = [] then b
      else if b = [] then a
      else if (a = ''integer'' \<and> b = ''number'') \<or> (a = ''number'' \<and> b = ''integer'') then ''number''
      else [])"

lemma size_member: "(k, v) \<in> set ps \<Longrightarrow> size (v :: schema) < Suc (size_list (size_prod (\<lambda>_. 0) size) ps)"
  by (induction ps) auto

lemma size_items: "sc_Items sc = Some it \<Longrightarrow> size it < size (sc :: schema)"
  by (cases sc) auto

lemma size_prop: "(k, v) \<in> set (props sc) \<Longrightarrow> size (v :: schema) < size sc"
  by (cases sc) (auto simp: props_def split: option.splits dest!: size_member)

lemma size_prop_lookup: "lookup (props sc) k = Some v \<Longrightarrow> size (v :: schema) < size sc"
  by (drule map_of_SomeD) (rule size_prop)

function merge2 :: "schema \<Rightarrow> schema \<Rightarrow> schema" where
  "merge2 a b =
     Schema [] (merge_type (sc_Type a) (sc_Type b)) [] []
       (if sc_Properties a \<noteq> None \<or> sc_Properties b \<noteq> None then
          Some (map (\<lambda>(k, v). (k, case lookup (props b) k of None \<Rightarrow> v | Some w \<Rightarrow> merge2 v w)) (props a) @
                filter (\<lambda>(k, v). k \<notin> fst ` set (props a)) (props b))
        else None)
       (if sc_Properties a \<noteq> None \<or> sc_Properties b \<noteq> None
        then sort (filter (\<lambda>k. k \<in> set (sc_Required a)) (sc_Required b)) else [])
       (case sc_Items a of
          None \<Rightarrow> sc_Items b
        | Some i \<Rightarrow> (case sc_Items b of None \<Rightarrow> Some i | Some j \<Rightarrow> Some (merge2 i j)))
       (sc_Nullable a \<or> sc_Nullable b)
       (case sc_Example a of None \<Rightarrow> sc_Example b | Some e \<Rightarrow> Some e)"
  by pat_completeness auto
termination merge2
proof (relation "measure (\<lambda>(a, b). size a)", goal_cases)
  case (2 a b kv k v w)
  then show ?case
    using size_prop [of k v a] by (auto split: option.splits)
qed (auto dest: size_items)

declare merge2.simps [simp del]

lemma merge2_sel [simp]:
  "sc_Ref (merge2 a b) = []" "sc_Type (merge2 a b) = merge_type (sc_Type a) (sc_Type b)"
  "sc_Nullable (merge2 a b) \<longleftrightarrow> sc_Nullable a \<or> sc_Nullable b"
  by (simp_all add: merge2.simps [of a b])

lemma merge2_props:
  "props (merge2 a b) =
     map (\<lambda>(k, v). (k, case lookup (props b) k of None \<Rightarrow> v | Some w \<Rightarrow> merge2 v w)) (props a) @
     filter (\<lambda>(k, v). k \<notin> fst ` set (props a)) (props b)"
  by (cases "sc_Properties a"; cases "sc_Properties b") (simp_all add: props_def merge2.simps [of a b])

lemma merge2_items:
  "sc_Items (merge2 a b) =
     (case sc_Items a of
        None \<Rightarrow> sc_Items b
      | Some i \<Rightarrow> (case sc_Items b of None \<Rightarrow> Some i | Some j \<Rightarrow> Some (merge2 i j)))"
  by (simp add: merge2.simps [of a b])

lemma merge2_required:
  "set (sc_Required (merge2 a b)) =
     (if sc_Properties a = None \<and> sc_Properties b = None then {} else set (sc_Required a) \<inter> set (sc_Required b))"
  by (auto simp: merge2.simps [of a b])

definition mergeSchemas :: "schema option \<Rightarrow> schema option \<Rightarrow> schema option" where
  "mergeSchemas a b =
     (case a of None \<Rightarrow> b
      | Some x \<Rightarrow> (case b of None \<Rightarrow> a | Some y \<Rightarrow> Some (merge2 x y)))"

subsection \<open>The schema of a value\<close>

function schemaOfValue :: "json \<Rightarrow> nat \<Rightarrow> schema" where
  "schemaOfValue v depth =
     (if depth > 12 then any_schema
      else case v of
        JObj kvs \<Rightarrow>
          Schema [] ''object'' [] [] (Some (map (\<lambda>(k, child). (k, schemaOfValue child (Suc depth))) kvs))
            (sort (map fst kvs)) None False None
      | JArr xs \<Rightarrow>
          (let its = map (\<lambda>x. schemaOfValue x (Suc depth)) xs
           in Schema [] ''array'' [] [] None []
                (case foldl (\<lambda>acc s. mergeSchemas acc (Some s)) None its of
                   None \<Rightarrow> Some any_schema | Some s \<Rightarrow> Some s) False None)
      | JStr s \<Rightarrow>
          scalar_schema ''string'' (if s \<noteq> [] \<and> s \<noteq> RedactedPlaceholder then Some (JStr s) else None)
      | JNum n \<Rightarrow>
          if n = of_int \<lfloor>n\<rfloor> \<and> \<bar>n\<bar> < 10 ^ 15 then scalar_schema ''integer'' (Some (JNum n))
          else scalar_schema ''number'' (Some (JNum n))
      | JBool b \<Rightarrow> scalar_schema ''boolean'' None
      | JNull \<Rightarrow> Schema [] [] [] [] None [] None True None)"
  by pat_completeness auto
termination schemaOfValue
  by (relation "measure (\<lambda>(_, depth). 13 - depth)") auto

declare schemaOfValue.simps [simp del]

text \<open>The fields a body uses, \<open>walkJSONFields\<close> of \<open>internal/spec/check.go\<close>, one entry per use.\<close>

function walkJSONFields :: "json \<Rightarrow> string \<Rightarrow> nat \<Rightarrow> string list" where
  "walkJSONFields v prefix depth =
     (if depth > 12 then []
      else case v of
        JObj kvs \<Rightarrow>
          concat (map (\<lambda>(k, child).
            dotted prefix k # walkJSONFields child (dotted prefix k) (Suc depth)) kvs)
      | JArr xs \<Rightarrow> concat (map (\<lambda>x. walkJSONFields x prefix (Suc depth)) xs)
      | _ \<Rightarrow> [])"
  by pat_completeness auto
termination walkJSONFields
  by (relation "measure (\<lambda>(_, _, depth). 13 - depth)") auto

declare walkJSONFields.simps [simp del]

subsection \<open>Merged schemas document both observations\<close>

text \<open>
  Inferred schemas have no references and one schema per property; \<open>uniform\<close> says that no node
  stands for an object and an array at once.
\<close>

function wf_schema :: "schema \<Rightarrow> bool" where
  "wf_schema sc \<longleftrightarrow>
     sc_Ref sc = [] \<and> distinct (map fst (props sc)) \<and> list_all (\<lambda>(k, v). wf_schema v) (props sc) \<and>
     (case sc_Items sc of None \<Rightarrow> True | Some it \<Rightarrow> wf_schema it)"
  by pat_completeness auto
termination wf_schema
proof (relation "measure size", goal_cases)
  case (2 sc kv k v)
  then show ?case using size_prop [of k v sc] by simp
qed (auto dest: size_items)

function uniform :: "schema \<Rightarrow> bool" where
  "uniform sc \<longleftrightarrow>
     (props sc = [] \<or> sc_Items sc = None) \<and> list_all (\<lambda>(k, v). uniform v) (props sc) \<and>
     (case sc_Items sc of None \<Rightarrow> True | Some it \<Rightarrow> uniform it)"
  by pat_completeness auto
termination uniform
proof (relation "measure size", goal_cases)
  case (2 sc kv k v)
  then show ?case using size_prop [of k v sc] by simp
qed (auto dest: size_items)

declare wf_schema.simps [simp del] uniform.simps [simp del]

lemma wf_schemaD:
  assumes "wf_schema sc"
  shows "sc_Ref sc = []" "distinct (map fst (props sc))" "(k, v) \<in> set (props sc) \<Longrightarrow> wf_schema v"
    "sc_Items sc = Some it \<Longrightarrow> wf_schema it"
  using assms by (subst (asm) wf_schema.simps; force simp: list_all_iff)+

lemma uniformD:
  assumes "uniform sc"
  shows "props sc = [] \<or> sc_Items sc = None" "(k, v) \<in> set (props sc) \<Longrightarrow> uniform v"
    "sc_Items sc = Some it \<Longrightarrow> uniform it"
  using assms by (subst (asm) uniform.simps; force simp: list_all_iff)+

lemma merge2_induct [case_names merge]:
  assumes "\<And>a b. (\<And>k v w. (k, v) \<in> set (props a) \<Longrightarrow> lookup (props b) k = Some w \<Longrightarrow> P v w) \<Longrightarrow>
      (\<And>i j. sc_Items a = Some i \<Longrightarrow> sc_Items b = Some j \<Longrightarrow> P i j) \<Longrightarrow> P a b"
  shows "P a b"
proof (induction a arbitrary: b rule: measure_induct_rule [where f = size])
  case (less a)
  show ?case
    by (rule assms) (auto intro: less size_prop size_items)
qed

lemma props_merge_left:
  assumes "(k, v) \<in> set (props a)"
  obtains "(k, v) \<in> set (props (merge2 a b))"
  | w where "lookup (props b) k = Some w" "(k, merge2 v w) \<in> set (props (merge2 a b))"
proof (cases "lookup (props b) k")
  case None
  then have "(k, v) \<in> set (props (merge2 a b))"
    using assms unfolding merge2_props by force
  then show ?thesis by (rule that(1))
next
  case (Some w)
  then have "(k, merge2 v w) \<in> set (props (merge2 a b))"
    using assms unfolding merge2_props by force
  with Some show ?thesis by (rule that(2))
qed

lemma props_merge_right:
  assumes "(k, w) \<in> set (props b)" and "distinct (map fst (props b))"
  obtains "(k, w) \<in> set (props (merge2 a b))"
  | v where "(k, v) \<in> set (props a)" "lookup (props b) k = Some w" "(k, merge2 v w) \<in> set (props (merge2 a b))"
proof (cases "k \<in> fst ` set (props a)")
  case True
  then obtain v where v: "(k, v) \<in> set (props a)" by auto
  have w: "lookup (props b) k = Some w"
    using assms by simp
  have "(k, merge2 v w) \<in> set (props (merge2 a b))"
    using v w unfolding merge2_props by force
  with v w show ?thesis by (rule that(2))
next
  case False
  then have "(k, w) \<in> set (props (merge2 a b))"
    using assms(1) unfolding merge2_props by auto
  then show ?thesis by (rule that(1))
qed

lemma props_merge_cases:
  assumes "(k, u) \<in> set (props (merge2 a b))"
  obtains (left) "(k, u) \<in> set (props a)"
  | (both) v w where "(k, v) \<in> set (props a)" "lookup (props b) k = Some w" "u = merge2 v w"
  | (right) "(k, u) \<in> set (props b)"
proof -
  have "(\<exists>v. (k, v) \<in> set (props a) \<and> u = (case lookup (props b) k of None \<Rightarrow> v | Some w \<Rightarrow> merge2 v w)) \<or>
      (k, u) \<in> set (props b)"
    using assms unfolding merge2_props by auto
  then show ?thesis
  proof
    assume "\<exists>v. (k, v) \<in> set (props a) \<and> u = (case lookup (props b) k of None \<Rightarrow> v | Some w \<Rightarrow> merge2 v w)"
    then obtain v where "(k, v) \<in> set (props a)"
      "u = (case lookup (props b) k of None \<Rightarrow> v | Some w \<Rightarrow> merge2 v w)"
      by blast
    then show ?thesis
      using left both by (cases "lookup (props b) k") simp_all
  qed (rule right)
qed

lemma keys_merge: "fst ` set (props (merge2 a b)) = fst ` set (props a) \<union> fst ` set (props b)"
proof -
  have "fst ` set (filter (\<lambda>(k, v). k \<notin> X) ps) = fst ` set ps - X" for X and ps :: "(string \<times> schema) list"
    by force
  then show ?thesis
    by (simp add: merge2_props image_Un image_image case_prod_beta)
qed

lemma props_merge_Nil: "props (merge2 a b) = [] \<longleftrightarrow> props a = [] \<and> props b = []"
  using keys_merge [of a b] by auto

lemma distinct_merge:
  assumes "distinct (map fst (props a))" and "distinct (map fst (props b))"
  shows "distinct (map fst (props (merge2 a b)))"
proof -
  have "map fst (props (merge2 a b)) = map fst (props a) @ map fst (filter (\<lambda>(k, v). k \<notin> fst ` set (props a)) (props b))"
    by (simp add: merge2_props case_prod_beta)
  moreover have "distinct (map fst (filter (\<lambda>(k, v). k \<notin> fst ` set (props a)) (props b)))"
    using assms(2) by (simp add: distinct_map_filter)
  moreover have "set (map fst (props a)) \<inter> set (map fst (filter (\<lambda>(k, v). k \<notin> fst ` set (props a)) (props b))) = {}"
    by (force simp: image_iff)
  ultimately show ?thesis
    using assms(1) by simp
qed

lemma lookup_props: "lookup (props b) k = Some w \<Longrightarrow> (k, w) \<in> set (props b)"
  by (rule map_of_SomeD)

lemma wf_schemaI:
  assumes "sc_Ref sc = []" "distinct (map fst (props sc))" "\<And>k v. (k, v) \<in> set (props sc) \<Longrightarrow> wf_schema v"
    "\<And>it. sc_Items sc = Some it \<Longrightarrow> wf_schema it"
  shows "wf_schema sc"
  using assms by (subst wf_schema.simps) (auto simp: list_all_iff split: option.split)

lemma uniformI:
  assumes "props sc = [] \<or> sc_Items sc = None" "\<And>k v. (k, v) \<in> set (props sc) \<Longrightarrow> uniform v"
    "\<And>it. sc_Items sc = Some it \<Longrightarrow> uniform it"
  shows "uniform sc"
  using assms by (subst uniform.simps) (auto simp: list_all_iff split: option.split)

lemma items_merge_cases:
  assumes "sc_Items (merge2 a b) = Some it"
  obtains (left) "sc_Items a = Some it" "sc_Items b = None"
  | (right) "sc_Items a = None" "sc_Items b = Some it"
  | (both) i j where "sc_Items a = Some i" "sc_Items b = Some j" "it = merge2 i j"
  using assms that by (cases "sc_Items a"; cases "sc_Items b") (simp_all add: merge2_items)

lemma wf_merge: "wf_schema a \<Longrightarrow> wf_schema b \<Longrightarrow> wf_schema (merge2 a b)"
proof (induction a b rule: merge2_induct)
  case (merge a b)
  note a = wf_schemaD [OF merge.prems(1)] and b = wf_schemaD [OF merge.prems(2)]
  show ?case
  proof (rule wf_schemaI)
    fix k u
    assume "(k, u) \<in> set (props (merge2 a b))"
    then show "wf_schema u"
      by (cases rule: props_merge_cases) (auto intro: a(3) b(3) merge.IH(1) dest: lookup_props)
  next
    fix it
    assume "sc_Items (merge2 a b) = Some it"
    then show "wf_schema it"
      by (cases rule: items_merge_cases) (auto intro: a(4) b(4) merge.IH(2))
  qed (simp_all add: distinct_merge a(2) b(2))
qed

lemma uniform_merge: "uniform (merge2 a b) \<Longrightarrow> wf_schema b \<Longrightarrow> uniform a \<and> uniform b"
proof (induction a b rule: merge2_induct)
  case (merge a b)
  note m = uniformD [OF merge.prems(1)] and b = wf_schemaD [OF merge.prems(2)]
  have left: "uniform v" if v: "(k, v) \<in> set (props a)" for k v
    using v
  proof (cases rule: props_merge_left [where b = b])
    case (2 w)
    then show ?thesis
      using merge.IH(1) [OF v 2(1)] m(2) b(3) lookup_props by blast
  qed (rule m(2))
  have right: "uniform w" if w: "(k, w) \<in> set (props b)" for k w
    using w b(2)
  proof (cases rule: props_merge_right [where a = a])
    case (2 v)
    then show ?thesis
      using merge.IH(1) [OF 2(1,2)] m(2) b(3) w by blast
  qed (rule m(2))
  have li: "uniform i" if i: "sc_Items a = Some i" for i
  proof (cases "sc_Items b")
    case None
    then show ?thesis using m(3) [of i] i by (simp add: merge2_items)
  next
    case (Some j)
    then show ?thesis using m(3) [of "merge2 i j"] merge.IH(2) [OF i Some] b(4) i by (simp add: merge2_items)
  qed
  have ri: "uniform j" if j: "sc_Items b = Some j" for j
  proof (cases "sc_Items a")
    case None
    then show ?thesis using m(3) [of j] j by (simp add: merge2_items)
  next
    case (Some i)
    then show ?thesis using m(3) [of "merge2 i j"] merge.IH(2) [OF Some j] b(4) j by (simp add: merge2_items)
  qed
  have shape: "props a = [] \<or> sc_Items a = None" "props b = [] \<or> sc_Items b = None"
    using m(1) by (cases "sc_Items a"; cases "sc_Items b"; simp add: merge2_items props_merge_Nil)+
  have "uniform a"
    by (rule uniformI [OF shape(1)]) (erule left, erule li)
  moreover have "uniform b"
    by (rule uniformI [OF shape(2)]) (erule right, erule ri)
  ultimately show ?case ..
qed

lemma Resolve_plain [simp]: "sc_Ref sc = [] \<Longrightarrow> Resolve_ref comps sc = sc"
  by (simp add: Resolve_ref_def numeral_eq_Suc)

definition documented :: "schema \<Rightarrow> string \<Rightarrow> nat \<Rightarrow> string set" where
  "documented sc p d = set (walkFields None sc p d)"

lemma documented_props:
  "sc_Ref sc = [] \<Longrightarrow> props sc \<noteq> [] \<Longrightarrow> documented sc p d =
     (if 12 < d then {} else (\<Union>(k, v) \<in> set (props sc). insert (dotted p k) (documented v (dotted p k) (Suc d))))"
  unfolding documented_def by (subst walkFields.simps) (auto simp: Let_def)

lemma documented_items:
  "sc_Ref sc = [] \<Longrightarrow> props sc = [] \<Longrightarrow> documented sc p d =
     (if 12 < d then {} else case sc_Items sc of None \<Rightarrow> {} | Some it \<Rightarrow> documented it p (Suc d))"
  unfolding documented_def by (subst walkFields.simps) (auto simp: Let_def split: option.split)

lemma documented_deep: "12 < d \<Longrightarrow> documented sc p d = {}"
  unfolding documented_def by (subst walkFields.simps) (simp add: Let_def)

lemma documented_prop:
  assumes "sc_Ref sc = []" and "d \<le> 12" and "(k, v) \<in> set (props sc)"
  shows "insert (dotted p k) (documented v (dotted p k) (Suc d)) \<subseteq> documented sc p d"
proof -
  have "props sc \<noteq> []"
    using assms(3) by auto
  then show ?thesis
    using assms by (fastforce simp: documented_props)
qed

lemma documented_propsE:
  assumes "f \<in> documented sc p d" and "sc_Ref sc = []" and "props sc \<noteq> []"
  obtains k v where "(k, v) \<in> set (props sc)" "f \<in> insert (dotted p k) (documented v (dotted p k) (Suc d))"
  using assms by (force simp: documented_props split: if_splits)

lemma documented_subset:
  assumes "sc_Ref x = []" and "sc_Items x = None"
    and "\<And>k v. (k, v) \<in> set (props x) \<Longrightarrow> insert (dotted p k) (documented v (dotted p k) (Suc d)) \<subseteq> S"
  shows "documented x p d \<subseteq> S"
proof (cases "props x = []")
  case True
  then show ?thesis using assms(1,2) by (simp add: documented_items)
next
  case False
  show ?thesis
  proof
    fix f assume "f \<in> documented x p d"
    then show "f \<in> S"
      using assms(1) False by (rule documented_propsE) (use assms(3) in blast)
  qed
qed

lemma documented_merge:
  "uniform (merge2 a b) \<Longrightarrow> wf_schema a \<Longrightarrow> wf_schema b \<Longrightarrow>
     documented a p d \<union> documented b p d \<subseteq> documented (merge2 a b) p d"
proof (induction a b arbitrary: p d rule: merge2_induct)
  case (merge a b)
  note m = uniformD [OF merge.prems(1)] and a = wf_schemaD [OF merge.prems(2)] and b = wf_schemaD [OF merge.prems(3)]
  consider "12 < d" | "d \<le> 12" "props a = []" "props b = []" | "d \<le> 12" "props a \<noteq> [] \<or> props b \<noteq> []"
    by linarith
  then show ?case
  proof cases
    case 1
    then show ?thesis by (simp add: documented_deep)
  next
    case 2
    then show ?thesis
      using a(1,4) b(1,4) m(3) merge.IH(2)
      by (cases "sc_Items a"; cases "sc_Items b") (auto simp: documented_items merge2_items props_merge_Nil)
  next
    case d: 3
    then have items: "sc_Items a = None" "sc_Items b = None"
      using m(1) by (auto simp: merge2_items props_merge_Nil split: option.splits)
    note step = documented_prop [OF merge2_sel(1) d(1)]
    have left: "insert (dotted p k) (documented v (dotted p k) (Suc d)) \<subseteq> documented (merge2 a b) p d"
      if v: "(k, v) \<in> set (props a)" for k v
      using v
    proof (cases rule: props_merge_left [where b = b])
      case (2 w)
      then show ?thesis
        using step [OF 2(2), of p] merge.IH(1) [OF v 2(1), of "dotted p k" "Suc d"]
          m(2) [OF 2(2)] a(3) [OF v] b(3) [OF lookup_props [OF 2(1)]] by blast
    qed (rule step)
    have right: "insert (dotted p k) (documented w (dotted p k) (Suc d)) \<subseteq> documented (merge2 a b) p d"
      if w: "(k, w) \<in> set (props b)" for k w
      using w b(2)
    proof (cases rule: props_merge_right [where a = a])
      case (2 v)
      then show ?thesis
        using step [OF 2(3), of p] merge.IH(1) [OF 2(1,2), of "dotted p k" "Suc d"]
          m(2) [OF 2(3)] a(3) [OF 2(1)] b(3) [OF w] by blast
    qed (rule step)
    have "documented a p d \<subseteq> documented (merge2 a b) p d"
      using left by (rule documented_subset [OF a(1) items(1)])
    moreover have "documented b p d \<subseteq> documented (merge2 a b) p d"
      using right by (rule documented_subset [OF b(1) items(2)])
    ultimately show ?thesis by blast
  qed
qed

end
