(* ===== verification/SpecInfer.thy ===== *)
theory SpecInfer
  imports Schema Glob Url HttpRecord
begin

text \<open>
  Learning an OpenAPI document from recorded traffic (\<open>internal/spec/infer.go\<close>, \<open>model.go\<close>): the
  document, the templates of concrete paths, the accumulator \<open>Inferrer\<close> and the document it yields.
  \<open>unmarshal\<close> is \<open>json.Unmarshal\<close> into an \<open>any\<close>; a null operation, parameter or media entry of a
  parsed document is outside the model.
\<close>

record media =
  md_Schema :: "schema option"

record api_response =
  rs_Description :: string
  rs_Content :: "media gomap"

record request_body =
  rb_Required :: bool
  rb_Content :: "media gomap"

record param =
  pm_Name :: string
  pm_In :: string
  pm_Required :: bool
  pm_Schema :: "schema option"

record operation =
  op_Summary :: string
  op_OperationID :: string
  op_Parameters :: "param list"
  op_RequestBody :: "request_body option"
  op_Responses :: "api_response gomap"

record info =
  in_Title :: string
  in_Version :: string
  in_Description :: string

record spec =
  sp_OpenAPI :: string
  sp_Info :: info
  sp_Paths :: "operation gomap gomap"
  sp_Components :: "schema gomap option"

subsection \<open>Path templates\<close>

definition splitSegs :: "string \<Rightarrow> string list" where
  "splitSegs p = (let t = trim (\<lambda>c. c = CHR ''/'') p
     in if t = [] then [] else split_on (CHR ''/'') t)"

definition is_alnum :: "char \<Rightarrow> bool" where
  "is_alnum c \<longleftrightarrow> is_lower c \<or> is_upper c \<or> is_digit c"

definition paramNameFor :: "string \<Rightarrow> nat \<Rightarrow> string" where
  "paramNameFor resource ordinal =
     (let r = filter is_alnum (trim_suffix resource ''s'')
      in if r = [] then (if ordinal > 0 then ''id'' @ itoa (int ordinal + 1) else ''id'')
         else r @ ''Id'')"

text \<open>The loop of \<open>openAPIPath\<close>: the previous segment (as rewritten) and the placeholders so far.\<close>

fun template_segs :: "string option \<Rightarrow> nat \<Rightarrow> string list \<Rightarrow> string list" where
  "template_segs prev n [] = []"
| "template_segs prev n (s # segs) =
     (if s = '':id'' then
        (let name = (case prev of
               Some r \<Rightarrow> paramNameFor r n
             | None \<Rightarrow> if n > 0 then ''id'' @ itoa (int n + 1) else ''id'');
             t = ''{'' @ name @ ''}''
         in t # template_segs (Some t) (Suc n) segs)
      else s # template_segs (Some s) n segs)"

definition openAPIPath :: "string \<Rightarrow> string" where
  "openAPIPath p = ''/'' @ join ''/'' (template_segs None 0 (splitSegs (NormalizeRoute p)))"

definition is_brace :: "char \<Rightarrow> bool" where
  "is_brace c \<longleftrightarrow> c = CHR ''{'' \<or> c = CHR ''}''"

definition pathParams :: "string \<Rightarrow> string list" where
  "pathParams tmpl =
     map (trim is_brace) (filter (\<lambda>s. has_prefix s ''{'' \<and> has_suffix s ''}'') (splitSegs tmpl))"

text \<open>\<open>strings.FieldsFunc\<close>: the maximal runs of bytes outside \<open>p\<close>.\<close>

fun fields_func :: "(char \<Rightarrow> bool) \<Rightarrow> string \<Rightarrow> string \<Rightarrow> string list" where
  "fields_func p cur [] = (if cur = [] then [] else [cur])"
| "fields_func p cur (c # s) =
     (if p c then (if cur = [] then [] else [cur]) @ fields_func p [] s
      else fields_func p (cur @ [c]) s)"

definition exportName :: "string \<Rightarrow> string" where
  "exportName s =
     concat (map (\<lambda>p. to_upper (take 1 p) @ drop 1 p) (fields_func (\<lambda>c. \<not> is_alnum c) [] s))"

definition operationID :: "string \<Rightarrow> string \<Rightarrow> string" where
  "operationID method path =
     method @ concat (map (\<lambda>seg.
       if has_prefix seg ''{'' then ''By'' @ exportName (trim is_brace seg) else exportName seg)
       (splitSegs path))"

subsection \<open>The accumulator\<close>

definition schemaOfJSON :: "(string \<Rightarrow> json option) \<Rightarrow> string \<Rightarrow> schema option" where
  "schemaOfJSON unmarshal body =
     (if body = [] \<or> (hd body \<noteq> CHR ''{'' \<and> hd body \<noteq> CHR ''['') then None
      else (case unmarshal body of None \<Rightarrow> None | Some v \<Rightarrow> Some (schemaOfValue v 0)))"

record op_agg =
  oa_count :: int
  oa_reqSchema :: "schema option"
  oa_respByStatus :: "schema option gomap"
  oa_queryParams :: "int gomap"

definition new_agg :: op_agg where
  "new_agg = \<lparr>oa_count = 0, oa_reqSchema = None, oa_respByStatus = [], oa_queryParams = []\<rparr>"

definition count_in :: "int gomap \<Rightarrow> string \<Rightarrow> int" where
  "count_in m k = (case lookup m k of None \<Rightarrow> 0 | Some n \<Rightarrow> n)"

record inferrer =
  if_serviceName :: string
  if_ops :: "op_agg gomap gomap"

definition NewInferrer :: "string \<Rightarrow> inferrer" where
  "NewInferrer name = \<lparr>if_serviceName = name, if_ops = []\<rparr>"

definition query_names :: "string \<Rightarrow> string list" where
  "query_names q =
     (if q = [] then []
      else (case ParseQuery q of (vals, err) \<Rightarrow> if err then [] else keys vals))"

definition add_record :: "(string \<Rightarrow> json option) \<Rightarrow> http_record \<Rightarrow> op_agg \<Rightarrow> op_agg" where
  "add_record unmarshal rec agg =
     (let agg1 = agg\<lparr>oa_count := oa_count agg + 1,
            oa_queryParams := fold (\<lambda>k m. store k (count_in m k + 1) m) (query_names (hr_Query rec))
              (oa_queryParams agg)\<rparr>;
          agg2 = (case schemaOfJSON unmarshal (hr_RequestBody rec) of
              None \<Rightarrow> agg1
            | Some sc \<Rightarrow> agg1\<lparr>oa_reqSchema := mergeSchemas (oa_reqSchema agg1) (Some sc)\<rparr>);
          status = itoa (hr_Status rec); byStatus = oa_respByStatus agg2
      in case schemaOfJSON unmarshal (hr_ResponseBody rec) of
           Some sc \<Rightarrow> agg2\<lparr>oa_respByStatus := store status
               (mergeSchemas (case lookup byStatus status of None \<Rightarrow> None | Some old \<Rightarrow> old) (Some sc)) byStatus\<rparr>
         | None \<Rightarrow>
             if hr_Status rec \<noteq> 0 \<and> lookup byStatus status = None
             then agg2\<lparr>oa_respByStatus := store status None byStatus\<rparr>
             else agg2)"

definition Add :: "(string \<Rightarrow> json option) \<Rightarrow> http_record \<Rightarrow> inferrer \<Rightarrow> inferrer" where
  "Add unmarshal rec st =
     (let path = openAPIPath (hr_Path rec); method = to_lower (hr_Method rec);
          methods = (case lookup (if_ops st) path of None \<Rightarrow> [] | Some ms \<Rightarrow> ms);
          agg = (case lookup methods method of None \<Rightarrow> new_agg | Some a \<Rightarrow> a)
      in st\<lparr>if_ops := store path (store method (add_record unmarshal rec agg) methods) (if_ops st)\<rparr>)"

subsection \<open>The document\<close>

definition path_param :: "string \<Rightarrow> param" where
  "path_param p = \<lparr>pm_Name = p, pm_In = ''path'', pm_Required = True,
     pm_Schema = Some (scalar_schema ''string'' None)\<rparr>"

definition query_param :: "op_agg \<Rightarrow> string \<Rightarrow> param" where
  "query_param agg name = \<lparr>pm_Name = name, pm_In = ''query'',
     pm_Required = (count_in (oa_queryParams agg) name = oa_count agg),
     pm_Schema = Some (scalar_schema ''string'' None)\<rparr>"

definition json_content :: "schema option \<Rightarrow> media gomap" where
  "json_content sc = (case sc of None \<Rightarrow> [] | Some s \<Rightarrow> [(''application/json'', \<lparr>md_Schema = Some s\<rparr>)])"

definition observed_response :: "schema option \<Rightarrow> api_response" where
  "observed_response sc = \<lparr>rs_Description = ''Observed response'', rs_Content = json_content sc\<rparr>"

definition operation_of :: "string \<Rightarrow> string \<Rightarrow> op_agg \<Rightarrow> operation" where
  "operation_of path method agg =
     \<lparr>op_Summary = ''Observed '' @ itoa (oa_count agg) @ '' time(s)'',
      op_OperationID = operationID method path,
      op_Parameters = map path_param (pathParams path) @
        map (query_param agg) (sorted_keys (oa_queryParams agg)),
      op_RequestBody = (case oa_reqSchema agg of
          None \<Rightarrow> None
        | Some sc \<Rightarrow> Some \<lparr>rb_Required = True, rb_Content = json_content (Some sc)\<rparr>),
      op_Responses =
        (let rs = map (\<lambda>status. (status, observed_response
               (case lookup (oa_respByStatus agg) status of None \<Rightarrow> None | Some sc \<Rightarrow> sc)))
             (sorted_keys (oa_respByStatus agg))
         in if rs = [] then [(''default'', observed_response None)] else rs)\<rparr>"

definition inferred_description :: string where
  "inferred_description = ''Generated by OpticTrace from observed traffic. Bodies reflect governed telemetry: restricted routes contribute status codes only; redacted fields appear as strings.''"

definition spec_of :: "inferrer \<Rightarrow> spec" where
  "spec_of st =
     \<lparr>sp_OpenAPI = ''3.0.3'',
      sp_Info = \<lparr>in_Title = (if if_serviceName st = [] then ''API'' else if_serviceName st),
        in_Version = ''traffic-inferred'', in_Description = inferred_description\<rparr>,
      sp_Paths = map (\<lambda>(path, methods).
          (path, map (\<lambda>(method, agg). (method, operation_of path method agg)) methods)) (if_ops st),
      sp_Components = None\<rparr>"

definition Infer :: "(string \<Rightarrow> json option) \<Rightarrow> string \<Rightarrow> http_record list \<Rightarrow> spec" where
  "Infer unmarshal serviceName records =
     spec_of (fold (Add unmarshal) records (NewInferrer serviceName))"

subsection \<open>The schema of a value documents its fields\<close>

fun wf_json :: "json \<Rightarrow> bool" where
  "wf_json (JObj kvs) \<longleftrightarrow> distinct (map fst kvs) \<and> list_all (\<lambda>kv. wf_json (snd kv)) kvs"
| "wf_json (JArr xs) \<longleftrightarrow> list_all wf_json xs"
| "wf_json _ \<longleftrightarrow> True"

definition wf_opt :: "schema option \<Rightarrow> bool" where
  "wf_opt s \<longleftrightarrow> (case s of None \<Rightarrow> True | Some x \<Rightarrow> wf_schema x)"

lemma wf_opt_simps [simp]: "wf_opt None" "wf_opt (Some x) = wf_schema x"
  by (simp_all add: wf_opt_def)

lemma mergeSchemas_simps [simp]:
  "mergeSchemas None b = b" "mergeSchemas a None = a" "mergeSchemas (Some x) (Some y) = Some (merge2 x y)"
  by (simp_all add: mergeSchemas_def split: option.split)

lemma wf_mergeSchemas: "wf_opt a \<Longrightarrow> wf_opt b \<Longrightarrow> wf_opt (mergeSchemas a b)"
  by (cases a; cases b) (auto intro: wf_merge)

lemma wf_merge_all: "wf_opt acc \<Longrightarrow> list_all wf_opt xs \<Longrightarrow> wf_opt (foldl mergeSchemas acc xs)"
  by (induction xs arbitrary: acc) (auto intro: wf_mergeSchemas)

lemma merge_Some_not_None: "foldl mergeSchemas (Some z) zs \<noteq> None"
  by (induction zs arbitrary: z) (auto simp: mergeSchemas_def split: option.split)

lemma merge_all_not_None: "acc = Some z \<or> Some z \<in> set zs \<Longrightarrow> foldl mergeSchemas acc zs \<noteq> None"
proof (induction zs arbitrary: acc)
  case (Cons w zs)
  then show ?case
    using merge_Some_not_None [of _ zs] by (cases "w = Some z"; cases acc; cases w) auto
qed simp

lemma merge_all_documents:
  assumes "wf_opt acc" and "list_all wf_opt xs" and "foldl mergeSchemas acc xs = Some S" and "uniform S"
    and "acc = Some x \<or> Some x \<in> set xs"
  shows "uniform x \<and> documented x p d \<subseteq> documented S p d"
  using assms
proof (induction xs arbitrary: S rule: rev_induct)
  case Nil
  then show ?case by auto
next
  case (snoc y xs)
  define R where "R = foldl mergeSchemas acc xs"
  have R: "wf_opt R"
    unfolding R_def using snoc.prems by (intro wf_merge_all) auto
  have S: "mergeSchemas R y = Some S"
    using snoc.prems(3) by (simp add: R_def)
  have y: "wf_opt y"
    using snoc.prems(2) by simp
  have IH: "uniform x \<and> documented x p d \<subseteq> documented T p d" if "R = Some T" "uniform T" "acc = Some x \<or> Some x \<in> set xs" for T
    using snoc.IH [of T] snoc.prems that by (simp add: R_def)
  show ?case
  proof (cases R)
    case None
    then have "acc \<noteq> Some x" "Some x \<notin> set xs"
      using merge_all_not_None [of acc x xs] unfolding R_def by blast+
    then show ?thesis
      using snoc.prems(4,5) S None by auto
  next
    case T: (Some T)
    show ?thesis
    proof (cases y)
      case None
      then show ?thesis
        using IH [of T] S T snoc.prems(4,5) by auto
    next
      case Y: (Some Y)
      have "S = merge2 T Y"
        using S T Y by simp
      with snoc.prems(4) R y T Y show ?thesis
        using uniform_merge [of T Y] documented_merge [of T Y p d] IH [of T] snoc.prems(5) by auto
    qed
  qed
qed

lemma foldl_Some: "foldl (\<lambda>acc s. mergeSchemas acc (Some s)) a xs = foldl mergeSchemas a (map Some xs)"
  by (simp add: foldl_map)

lemma merge_all_None: "foldl mergeSchemas None (map Some xs) = None \<longleftrightarrow> xs = []"
  using merge_Some_not_None by (cases xs) auto

lemma wf_any [simp]: "wf_schema any_schema"
  by (subst wf_schema.simps) (simp add: any_schema_def props_def)

lemma wf_scalar [simp]: "wf_schema (scalar_schema ty ex)"
  by (subst wf_schema.simps) (simp add: scalar_schema_def props_def)

lemma wf_schemaOfValue: "wf_json v \<Longrightarrow> wf_schema (schemaOfValue v depth)"
proof (induction v depth rule: schemaOfValue.induct)
  case (1 v depth)
  show ?case
  proof (cases "depth > 12")
    case True
    then show ?thesis by (subst schemaOfValue.simps) simp
  next
    case False
    show ?thesis
    proof (cases v)
      case (JObj kvs)
      let ?S = "schemaOfValue v depth"
      have sc: "sc_Ref ?S = []" "sc_Items ?S = None"
        "props ?S = map (\<lambda>(k, child). (k, schemaOfValue child (Suc depth))) kvs"
        using False JObj by (subst schemaOfValue.simps; simp add: props_def)+
      have "distinct (map fst (props ?S))"
        using "1.prems" JObj unfolding sc by (simp add: comp_def case_prod_beta)
      moreover have "wf_schema u" if "(k, u) \<in> set (props ?S)" for k u
      proof -
        obtain child where child: "(k, child) \<in> set kvs" "u = schemaOfValue child (Suc depth)"
          using \<open>(k, u) \<in> set (props ?S)\<close> unfolding sc by auto
        moreover have "wf_json child"
          using "1.prems" JObj child by (auto simp: list_all_iff)
        ultimately show ?thesis
          using "1.IH"(2) [OF False JObj child(1) refl] by simp
      qed
      ultimately show ?thesis
        using sc(2) by (elim wf_schemaI [OF sc(1)]) simp_all
    next
      case (JArr xs)
      let ?its = "map (\<lambda>x. schemaOfValue x (Suc depth)) xs"
      have "list_all wf_opt (map Some ?its)"
        using "1.IH"(1) [OF False JArr] "1.prems" JArr by (auto simp: list_all_iff)
      then have "wf_opt (foldl mergeSchemas None (map Some ?its))"
        by (intro wf_merge_all) simp_all
      then have items: "wf_schema it" if "sc_Items (schemaOfValue v depth) = Some it" for it
        using that False JArr
        by (cases "foldl mergeSchemas None (map Some ?its)")
           (auto simp: schemaOfValue.simps [of "JArr xs" depth] foldl_Some Let_def simp del: map_map)
      have no_ref: "sc_Ref (schemaOfValue v depth) = []" and no_props: "props (schemaOfValue v depth) = []"
        using False JArr by (subst schemaOfValue.simps; simp add: props_def Let_def)+
      show ?thesis
        by (rule wf_schemaI [OF no_ref _ _ items]) (simp_all add: no_props)
    qed (use False in \<open>subst schemaOfValue.simps; simp add: wf_schema.simps [of "Schema _ _ _ _ _ _ _ _ _"] props_def\<close>)+
  qed
qed

lemma schemaOfValue_documents:
  "wf_json v \<Longrightarrow> uniform (schemaOfValue v depth) \<Longrightarrow>
     set (walkJSONFields v p depth) \<subseteq> documented (schemaOfValue v depth) p depth"
proof (induction v p depth rule: walkJSONFields.induct)
  case (1 v p depth)
  note wf = wf_schemaD(1) [OF wf_schemaOfValue [OF "1.prems"(1), of depth]]
  show ?case
  proof (cases "depth > 12")
    case True
    then show ?thesis by (subst walkJSONFields.simps) simp
  next
    case False
    then have depth: "depth \<le> 12" by simp
    show ?thesis
    proof (cases v)
      case (JObj kvs)
      have props: "props (schemaOfValue v depth) = map (\<lambda>(k, child). (k, schemaOfValue child (Suc depth))) kvs"
        using False JObj by (subst schemaOfValue.simps) (simp add: props_def)
      have "insert (dotted p k) (set (walkJSONFields child (dotted p k) (Suc depth))) \<subseteq>
          documented (schemaOfValue v depth) p depth" if kc: "(k, child) \<in> set kvs" for k child
      proof -
        have mem: "(k, schemaOfValue child (Suc depth)) \<in> set (props (schemaOfValue v depth))"
          using kc unfolding props by force
        have "wf_json child"
          using "1.prems"(1) JObj kc by (auto simp: list_all_iff)
        then have "set (walkJSONFields child (dotted p k) (Suc depth)) \<subseteq>
            documented (schemaOfValue child (Suc depth)) (dotted p k) (Suc depth)"
          using "1.IH"(2) [OF False JObj kc refl] uniformD(2) [OF "1.prems"(2) mem] by blast
        then show ?thesis
          using documented_prop [OF wf depth mem, of p] by blast
      qed
      then show ?thesis
        using False JObj by (subst walkJSONFields.simps) fastforce
    next
      case (JArr xs)
      show ?thesis
      proof (cases "xs = []")
        case True
        then show ?thesis
          using JArr by (subst walkJSONFields.simps) simp
      next
        case ne: False
        let ?its = "map (\<lambda>x. schemaOfValue x (Suc depth)) xs"
        obtain S where S: "foldl mergeSchemas None (map Some ?its) = Some S"
          using merge_all_None [of ?its] ne by auto
        have sc: "props (schemaOfValue v depth) = []" "sc_Items (schemaOfValue v depth) = Some S"
          using False JArr S by (subst schemaOfValue.simps; simp add: props_def foldl_Some Let_def del: map_map)+
        have S_uniform: "uniform S"
          using uniformD(3) [OF "1.prems"(2) sc(2)] .
        have its_wf: "list_all wf_opt (map Some ?its)"
          using "1.prems"(1) JArr by (auto simp: list_all_iff intro: wf_schemaOfValue)
        have "set (walkJSONFields x p (Suc depth)) \<subseteq> documented S p (Suc depth)" if x: "x \<in> set xs" for x
        proof -
          have "uniform (schemaOfValue x (Suc depth)) \<and>
              documented (schemaOfValue x (Suc depth)) p (Suc depth) \<subseteq> documented S p (Suc depth)"
            by (rule merge_all_documents [OF _ its_wf S S_uniform]) (use x in auto)
          then show ?thesis
            using "1.IH"(1) [OF False JArr x] "1.prems"(1) JArr x by (auto simp: list_all_iff)
        qed
        then show ?thesis
          using False JArr sc depth wf
          by (subst walkJSONFields.simps) (auto simp: documented_items)
      qed
    qed (subst walkJSONFields.simps; simp)+
  qed
qed

subsection \<open>The accumulator groups by template and method\<close>

definition in_group :: "string \<Rightarrow> string \<Rightarrow> http_record \<Rightarrow> bool" where
  "in_group p m r \<longleftrightarrow> openAPIPath (hr_Path r) = p \<and> to_lower (hr_Method r) = m"

definition op_at :: "op_agg gomap gomap \<Rightarrow> string \<Rightarrow> string \<Rightarrow> op_agg option" where
  "op_at ops p m = Option.bind (lookup ops p) (\<lambda>ms. lookup ms m)"

definition spec_op :: "spec \<Rightarrow> string \<Rightarrow> string \<Rightarrow> operation option" where
  "spec_op s p m = Option.bind (lookup (sp_Paths s) p) (\<lambda>ms. lookup ms m)"

lemma op_at_Add:
  "op_at (if_ops (Add u r st)) p m =
     (if in_group p m r
      then Some (add_record u r (case op_at (if_ops st) p m of None \<Rightarrow> new_agg | Some a \<Rightarrow> a))
      else op_at (if_ops st) p m)"
  by (auto simp: op_at_def Add_def in_group_def Let_def split: option.splits)

lemma op_at_fold:
  "op_at (if_ops (fold (Add u) rs st)) p m =
     (let g = filter (in_group p m) rs in
      if g = [] then op_at (if_ops st) p m
      else Some (fold (add_record u) g (case op_at (if_ops st) p m of None \<Rightarrow> new_agg | Some a \<Rightarrow> a)))"
  by (induction rs arbitrary: st) (simp_all add: op_at_Add Let_def)

lemma lookup_map_value: "lookup (map (\<lambda>(k, v). (k, f k v)) ps) k = map_option (f k) (lookup ps k)"
  by (induction ps) auto

lemma spec_op_spec_of: "spec_op (spec_of st) p m = map_option (operation_of p m) (op_at (if_ops st) p m)"
  by (simp add: spec_op_def spec_of_def op_at_def lookup_map_value Option.bind_map_option comp_def
      split: option.split split: bind_split)

lemma spec_op_Infer:
  "spec_op (Infer u n rs) p m =
     (let g = filter (in_group p m) rs in
      if g = [] then None else Some (operation_of p m (fold (add_record u) g new_agg)))"
  by (simp add: Infer_def spec_op_spec_of op_at_fold NewInferrer_def Let_def)
     (simp add: op_at_def)

lemma add_record_sel:
  "oa_count (add_record u r a) = oa_count a + 1"
  "oa_reqSchema (add_record u r a) = mergeSchemas (oa_reqSchema a) (schemaOfJSON u (hr_RequestBody r))"
  "oa_queryParams (add_record u r a) =
     fold (\<lambda>k m. store k (count_in m k + 1) m) (query_names (hr_Query r)) (oa_queryParams a)"
  by (simp_all add: add_record_def Let_def split: option.splits)

lemma fold_reqSchema:
  "oa_reqSchema (fold (add_record u) g a) =
     foldl mergeSchemas (oa_reqSchema a) (map (\<lambda>r. schemaOfJSON u (hr_RequestBody r)) g)"
  by (induction g arbitrary: a) (simp_all add: add_record_sel)

lemma fold_count: "oa_count (fold (add_record u) g a) = oa_count a + int (length g)"
  by (induction g arbitrary: a) (simp_all add: add_record_sel)

lemma count_in_store: "count_in (store k n m) j = (if j = k then n else count_in m j)"
  by (simp add: count_in_def)

lemma count_in_fold:
  "distinct ks \<Longrightarrow> count_in (fold (\<lambda>k m. store k (count_in m k + 1) m) ks m) j =
     count_in m j + (if j \<in> set ks then 1 else 0)"
  by (induction ks arbitrary: m) (auto simp: count_in_store)

lemma keys_fold_count: "fst ` set (fold (\<lambda>k m. store k (count_in m k + 1) m) ks m) = set ks \<union> fst ` set m"
  by (induction ks arbitrary: m) (auto simp: keys_store)

lemma distinct_parse_pair: "distinct (keys (fst acc)) \<Longrightarrow> distinct (keys (fst (parse_pair p acc)))"
  by (cases acc) (auto simp: parse_pair_def add_value_def Let_def split: prod.splits option.splits)

lemma distinct_query_names: "distinct (query_names q)"
proof -
  have "distinct (keys (fst (fold parse_pair ps acc)))" if "distinct (keys (fst acc))" for ps acc
    using that
  proof (induction ps arbitrary: acc)
    case (Cons p ps)
    show ?case
      using Cons.IH [OF distinct_parse_pair [OF Cons.prems]] by simp
  qed simp
  from this [of "([], False)" "split_on (CHR ''&'') q"] show ?thesis
    by (cases "ParseQuery q") (auto simp: query_names_def ParseQuery_def)
qed

lemma fold_queryParams:
  "count_in (oa_queryParams (fold (add_record u) g a)) k =
     count_in (oa_queryParams a) k + int (length (filter (\<lambda>r. k \<in> set (query_names (hr_Query r))) g))"
  "fst ` set (oa_queryParams (fold (add_record u) g a)) =
     fst ` set (oa_queryParams a) \<union> (\<Union>r \<in> set g. set (query_names (hr_Query r)))"
  by (induction g arbitrary: a)
     (auto simp: add_record_sel count_in_fold keys_fold_count distinct_query_names)

subsection \<open>Parameters and required fields\<close>

text \<open>
  An inferred operation lists as query parameters exactly the names some request of its group
  carried, and requires one exactly when every request of the group carried it.
\<close>

theorem inferred_query_params:
  assumes "spec_op (Infer u n rs) p m = Some op"
  shows "(\<exists>q \<in> set (op_Parameters op). pm_In q = ''query'' \<and> pm_Name q = name) \<longleftrightarrow>
      (\<exists>r \<in> set rs. in_group p m r \<and> name \<in> set (query_names (hr_Query r)))"
    and "\<And>q. q \<in> set (op_Parameters op) \<Longrightarrow> pm_In q = ''query'' \<Longrightarrow>
      (pm_Required q \<longleftrightarrow> (\<forall>r \<in> set rs. in_group p m r \<longrightarrow> pm_Name q \<in> set (query_names (hr_Query r))))"
proof -
  define g where "g = filter (in_group p m) rs"
  define agg where "agg = fold (add_record u) g new_agg"
  have op: "op = operation_of p m agg"
    using assms by (simp add: spec_op_Infer g_def agg_def Let_def split: if_splits)
  have names: "fst ` set (oa_queryParams agg) = (\<Union>r \<in> set g. set (query_names (hr_Query r)))"
    by (simp add: agg_def fold_queryParams new_agg_def)
  have query: "q \<in> set (op_Parameters op) \<and> pm_In q = ''query'' \<longleftrightarrow>
      (\<exists>k. k \<in> fst ` set (oa_queryParams agg) \<and> q = query_param agg k)" for q
    by (auto simp: op operation_of_def path_param_def query_param_def)
  show "(\<exists>q \<in> set (op_Parameters op). pm_In q = ''query'' \<and> pm_Name q = name) \<longleftrightarrow>
      (\<exists>r \<in> set rs. in_group p m r \<and> name \<in> set (query_names (hr_Query r)))"
  proof -
    have "(\<exists>q \<in> set (op_Parameters op). pm_In q = ''query'' \<and> pm_Name q = name) \<longleftrightarrow>
        name \<in> fst ` set (oa_queryParams agg)"
      using query by (metis query_param_def param.select_convs(1))
    then show ?thesis
      by (auto simp: names g_def)
  qed
  fix q
  assume "q \<in> set (op_Parameters op)" "pm_In q = ''query''"
  then obtain k where q: "q = query_param agg k"
    using query by blast
  have "int (length (filter (\<lambda>r. k \<in> set (query_names (hr_Query r))) g)) = int (length g) \<longleftrightarrow>
      (\<forall>r \<in> set g. k \<in> set (query_names (hr_Query r)))"
    by (metis filter_True length_filter_less nat_less_le of_nat_eq_iff)
  moreover have "count_in (oa_queryParams agg) k = int (length (filter (\<lambda>r. k \<in> set (query_names (hr_Query r))) g))"
    "oa_count agg = int (length g)"
    unfolding agg_def fold_queryParams fold_count by (simp_all add: new_agg_def count_in_def)
  ultimately have "pm_Required q \<longleftrightarrow> (\<forall>r \<in> set g. k \<in> set (query_names (hr_Query r)))"
    by (simp add: q query_param_def)
  then show "pm_Required q \<longleftrightarrow> (\<forall>r \<in> set rs. in_group p m r \<longrightarrow> pm_Name q \<in> set (query_names (hr_Query r)))"
    by (auto simp: q query_param_def g_def)
qed

definition json_body :: "(string \<Rightarrow> json option) \<Rightarrow> string \<Rightarrow> json option" where
  "json_body unmarshal body =
     (if body = [] \<or> (hd body \<noteq> CHR ''{'' \<and> hd body \<noteq> CHR ''['') then None else unmarshal body)"

lemma schemaOfJSON_body: "schemaOfJSON u body = map_option (\<lambda>v. schemaOfValue v 0) (json_body u body)"
  by (simp add: schemaOfJSON_def json_body_def split: option.split)

definition has_object :: "schema \<Rightarrow> bool" where
  "has_object s \<longleftrightarrow> sc_Properties s \<noteq> None"

lemma merge2_object: "has_object (merge2 a b) \<longleftrightarrow> has_object a \<or> has_object b"
  by (simp add: has_object_def merge2.simps [of a b])

lemma merge2_object_required:
  "has_object a \<Longrightarrow> set (sc_Required (merge2 a b)) = set (sc_Required a) \<inter> set (sc_Required b)"
  by (auto simp: has_object_def merge2_required)

lemma merge_all_required:
  assumes "\<And>s. acc = Some s \<or> Some s \<in> set xs \<Longrightarrow> has_object s"
    and "foldl mergeSchemas acc xs = Some S"
  shows "has_object S \<and>
    set (sc_Required S) = (\<Inter>s \<in> {s. acc = Some s \<or> Some s \<in> set xs}. set (sc_Required s))"
  using assms
proof (induction xs arbitrary: acc)
  case Nil
  then show ?case by auto
next
  case (Cons x xs)
  let ?acc = "mergeSchemas acc x"
  have objs: "has_object s" if "?acc = Some s \<or> Some s \<in> set xs" for s
    using that Cons.prems(1) by (cases acc; cases x) (auto simp: merge2_object)
  have S: "foldl mergeSchemas ?acc xs = Some S"
    using Cons.prems(2) by simp
  have "(\<Inter>s \<in> {s. ?acc = Some s \<or> Some s \<in> set xs}. set (sc_Required s)) =
      (\<Inter>s \<in> {s. acc = Some s \<or> Some s \<in> set (x # xs)}. set (sc_Required s))"
    using Cons.prems(1) by (cases acc; cases x) (auto simp: merge2_object_required)
  then show ?case
    using Cons.IH [OF objs S] by simp
qed

text \<open>
  A field of an object body is required exactly when every body observed for the operation had it.
\<close>

theorem inferred_required:
  assumes "spec_op (Infer u n rs) p m = Some op"
    and "op_RequestBody op = Some rb" and "lookup (rb_Content rb) ''application/json'' = Some md"
    and "md_Schema md = Some S"
    and "\<forall>r \<in> set rs. in_group p m r \<longrightarrow> json_body u (hr_RequestBody r) \<in> {None} \<union> (Some \<circ> JObj) ` UNIV"
  shows "k \<in> set (sc_Required S) \<longleftrightarrow>
    (\<forall>r \<in> set rs. in_group p m r \<longrightarrow> (\<forall>kvs. json_body u (hr_RequestBody r) = Some (JObj kvs) \<longrightarrow> k \<in> fst ` set kvs))"
proof -
  define g where "g = filter (in_group p m) rs"
  define xs where "xs = map (\<lambda>r. schemaOfJSON u (hr_RequestBody r)) g"
  have op: "op = operation_of p m (fold (add_record u) g new_agg)"
    using assms(1) by (simp add: spec_op_Infer g_def Let_def split: if_splits)
  have S: "foldl mergeSchemas None xs = Some S"
    using assms(2-4)
    by (auto simp: op operation_of_def fold_reqSchema new_agg_def xs_def json_content_def split: option.splits)
  have obj: "has_object (schemaOfValue (JObj kvs) 0)"
    "set (sc_Required (schemaOfValue (JObj kvs) 0)) = fst ` set kvs" for kvs
    by (subst schemaOfValue.simps; simp add: has_object_def)+
  have some: "Some s \<in> set xs \<longleftrightarrow> (\<exists>r \<in> set rs. in_group p m r \<and>
      (\<exists>kvs. json_body u (hr_RequestBody r) = Some (JObj kvs) \<and> s = schemaOfValue (JObj kvs) 0))" for s
    using assms(5) by (force simp: xs_def g_def schemaOfJSON_body)
  have objs: "has_object s" if "None = Some s \<or> Some s \<in> set xs" for s
    using that some obj(1) by auto
  have "set (sc_Required S) = (\<Inter>s \<in> {s. None = Some s \<or> Some s \<in> set xs}. set (sc_Required s))"
    using merge_all_required [OF objs S] by blast
  also have "k \<in> \<dots> \<longleftrightarrow> (\<forall>s. Some s \<in> set xs \<longrightarrow> k \<in> set (sc_Required s))"
    by auto
  also have "\<dots> \<longleftrightarrow> (\<forall>r \<in> set rs. in_group p m r \<longrightarrow>
      (\<forall>kvs. json_body u (hr_RequestBody r) = Some (JObj kvs) \<longrightarrow> k \<in> fst ` set kvs))"
    unfolding some using obj(2) by blast
  finally show ?thesis .
qed

text \<open>Two requests to the same template, the second without the field \<open>note\<close>.\<close>

definition sample_request :: "string \<Rightarrow> string \<Rightarrow> string \<Rightarrow> http_record" where
  "sample_request path query body =
     \<lparr>hr_ID = 0, hr_Time = 0, hr_Service = [], hr_Method = ''POST'', hr_Path = path, hr_Query = query,
      hr_Route = [], hr_Status = 200, hr_DurationMS = 0, hr_Remote = [], hr_Source = [], hr_TraceID = [],
      hr_SpanID = [], hr_ParentSpanID = [], hr_Stream = False, hr_RequestHeaders = [], hr_ResponseHeaders = [],
      hr_RequestBody = body, hr_ResponseBody = [], hr_ReqTruncated = False, hr_RespTruncated = False,
      hr_ReqBytes = 0, hr_RespBytes = 0, hr_Labels = [], hr_MatchedRules = [], hr_Meters = []\<rparr>"

definition sample_unmarshal :: "string \<Rightarrow> json option" where
  "sample_unmarshal s =
     (if s = ''{1}'' then Some (JObj [(''id'', JNum 1), (''note'', JStr ''x'')])
      else if s = ''{2}'' then Some (JObj [(''id'', JNum 2)])
      else None)"

definition sample_traffic :: "http_record list" where
  "sample_traffic = [sample_request ''/orders/1'' ''a=1&b=2'' ''{1}'', sample_request ''/orders/2'' ''a=3'' ''{2}'']"

definition sample_op :: operation where
  "sample_op = the (spec_op (Infer sample_unmarshal ''shop'' sample_traffic) ''/orders/{orderId}'' ''post'')"

lemma sample_op_eq:
  "spec_op (Infer sample_unmarshal ''shop'' sample_traffic) ''/orders/{orderId}'' ''post'' = Some sample_op"
  by code_simp

lemma inferred_query_params_witness:
  "(\<exists>q \<in> set (op_Parameters sample_op). pm_In q = ''query'' \<and> pm_Name q = ''b'') \<and>
   (\<forall>q \<in> set (op_Parameters sample_op). pm_In q = ''query'' \<longrightarrow> pm_Name q = ''b'' \<longrightarrow> \<not> pm_Required q)"
proof -
  have "list_ex (\<lambda>r. in_group ''/orders/{orderId}'' ''post'' r \<and> ''b'' \<in> set (query_names (hr_Query r))) sample_traffic"
    "list_ex (\<lambda>r. in_group ''/orders/{orderId}'' ''post'' r \<and> ''b'' \<notin> set (query_names (hr_Query r))) sample_traffic"
    by code_simp+
  then show ?thesis
    using inferred_query_params [OF sample_op_eq] by (auto simp: list_ex_iff)
qed

definition sample_schema :: schema where
  "sample_schema = the (md_Schema (the (lookup (rb_Content (the (op_RequestBody sample_op))) ''application/json'')))"

lemma inferred_required_witness:
  "''id'' \<in> set (sc_Required sample_schema) \<and> ''note'' \<notin> set (sc_Required sample_schema)"
proof -
  let ?rb = "the (op_RequestBody sample_op)"
  let ?md = "the (lookup (rb_Content ?rb) ''application/json'')"
  have rb: "op_RequestBody sample_op = Some ?rb"
    by code_simp
  have md: "lookup (rb_Content ?rb) ''application/json'' = Some ?md"
    by code_simp
  have sc: "md_Schema ?md = Some sample_schema"
    by code_simp
  have group: "in_group ''/orders/{orderId}'' ''post'' (sample_request ''/orders/1'' ''a=1&b=2'' ''{1}'')"
    "in_group ''/orders/{orderId}'' ''post'' (sample_request ''/orders/2'' ''a=3'' ''{2}'')"
    by code_simp+
  have bodies: "json_body sample_unmarshal ''{1}'' = Some (JObj [(''id'', JNum 1), (''note'', JStr ''x'')])"
    "json_body sample_unmarshal ''{2}'' = Some (JObj [(''id'', JNum 2)])"
    by code_simp+
  have objs: "\<forall>r \<in> set sample_traffic. in_group ''/orders/{orderId}'' ''post'' r \<longrightarrow>
      json_body sample_unmarshal (hr_RequestBody r) \<in> {None} \<union> (Some \<circ> JObj) ` UNIV"
    by (auto simp: sample_traffic_def sample_request_def bodies)
  show ?thesis
    using inferred_required [OF sample_op_eq rb md sc objs, of "''id''"]
      inferred_required [OF sample_op_eq rb md sc objs, of "''note''"] group
    by (simp add: sample_traffic_def bodies) (simp add: sample_request_def bodies)
qed

end
