(* ===== verification/SpecCheck.thy ===== *)
theory SpecCheck
  imports SpecInfer
begin

text \<open>
  Linting a document against recorded traffic (\<open>internal/spec/check.go\<close> and the lookups of
  \<open>model.go\<close>), and what ties it to the inference: a document learnt from a set of records is never
  reported as breaking the clients that sent them.
\<close>

subsection \<open>Lookups in the document\<close>

definition is_template :: "string \<Rightarrow> bool" where
  "is_template s \<longleftrightarrow> has_prefix s ''{'' \<and> has_suffix s ''}''"

definition templateMatches :: "string list \<Rightarrow> string list \<Rightarrow> bool" where
  "templateMatches tmpl segs \<longleftrightarrow>
     length tmpl = length segs \<and>
     list_all2 (\<lambda>t s. is_template t \<or> has_prefix s '':'' \<or> is_template s \<or> t = s) tmpl segs"

definition MatchPath :: "spec \<Rightarrow> string \<Rightarrow> string option" where
  "MatchPath s path =
     (if lookup (sp_Paths s) path \<noteq> None then Some path
      else find (\<lambda>tmpl. templateMatches (splitSegs tmpl) (splitSegs path)) (keys (sp_Paths s)))"

definition spec_schemas :: "spec \<Rightarrow> schema gomap option" where
  "spec_schemas s = sp_Components s"

definition media_schema :: "spec \<Rightarrow> media gomap \<Rightarrow> schema option" where
  "media_schema s content =
     (case lookup content ''application/json'' of
        None \<Rightarrow> None
      | Some m \<Rightarrow> map_option (Resolve_ref (spec_schemas s)) (md_Schema m))"

definition requestSchema :: "spec \<Rightarrow> operation \<Rightarrow> schema option" where
  "requestSchema s op =
     (case op_RequestBody op of None \<Rightarrow> None | Some rb \<Rightarrow> media_schema s (rb_Content rb))"

definition responseSchema :: "spec \<Rightarrow> operation \<Rightarrow> string \<Rightarrow> schema option" where
  "responseSchema s op status =
     (let r = (case lookup (op_Responses op) status of
                 Some r \<Rightarrow> Some r
               | None \<Rightarrow> (case find (\<lambda>(code, _). has_prefix code ''2'') (op_Responses op) of
                             Some (_, cand) \<Rightarrow> Some cand
                           | None \<Rightarrow> lookup (op_Responses op) ''default''))
      in case r of None \<Rightarrow> None | Some resp \<Rightarrow> media_schema s (rs_Content resp))"

subsection \<open>Findings\<close>

definition SevBreaking :: string where "SevBreaking = ''breaking''"
definition SevWarn :: string where "SevWarn = ''warn''"
definition SevInfo :: string where "SevInfo = ''info''"

record finding =
  fd_Severity :: string
  fd_Kind :: string
  fd_Method :: string
  fd_Path :: string
  fd_Field :: string
  fd_Count :: int
  fd_LastSeen :: int
  fd_Message :: string

definition sevRank :: "string \<Rightarrow> nat" where
  "sevRank s = (if s = SevBreaking then 0 else if s = SevWarn then 1 else 2)"

definition HasBreaking :: "finding list \<Rightarrow> bool" where
  "HasBreaking fs \<longleftrightarrow> list_ex (\<lambda>f. fd_Severity f = SevBreaking) fs"

text \<open>
  \<open>%q\<close> on text whose bytes above 127 belong to printable characters, and \<open>%.1f\<close> on the exact value
  (half to even).
\<close>

definition quote_char :: "char \<Rightarrow> string" where
  "quote_char c =
     (if c = CHR 0x22 then [CHR 0x5C, CHR 0x22]
      else if c = CHR 0x5C then [CHR 0x5C, CHR 0x5C]
      else if byte c = 7 then [CHR 0x5C, CHR ''a'']
      else if byte c = 8 then [CHR 0x5C, CHR ''b'']
      else if byte c = 9 then [CHR 0x5C, CHR ''t'']
      else if byte c = 10 then [CHR 0x5C, CHR ''n'']
      else if byte c = 11 then [CHR 0x5C, CHR ''v'']
      else if byte c = 12 then [CHR 0x5C, CHR ''f'']
      else if byte c = 13 then [CHR 0x5C, CHR ''r'']
      else if byte c < 32 \<or> byte c = 127 then
        [CHR 0x5C, CHR ''x'', to_lower [hex_upper (byte c div 16)] ! 0, to_lower [hex_upper (byte c mod 16)] ! 0]
      else [c])"

definition go_quote :: "string \<Rightarrow> string" where
  "go_quote s = CHR 0x22 # concat (map quote_char s) @ [CHR 0x22]"

definition round_even :: "rat \<Rightarrow> int" where
  "round_even q =
     (let w = \<lfloor>q\<rfloor>; r = q - of_int w
      in if r < 1 / 2 then w else if r > 1 / 2 then w + 1 else if even w then w else w + 1)"

definition fixed1 :: "rat \<Rightarrow> string" where
  "fixed1 q = (let t = round_even (10 * \<bar>q\<bar>)
     in (if q < 0 then ''-'' else []) @ itoa (t div 10) @ ''.'' @ itoa (t mod 10))"

text \<open>\<open>now\<close> is the clock \<open>time.Since\<close> reads, in nanoseconds.\<close>

definition ago :: "int \<Rightarrow> int \<Rightarrow> string" where
  "ago now t =
     (if t = 0 then ''unknown''
      else let d = now - t
        in if d < 60000000000
           then itoa (if d \<ge> 0 then d div 1000000000 else - ((- d) div 1000000000)) @ ''s''
           else if d < 3600000000000 then itoa (d div 60000000000) @ ''m''
           else fixed1 (of_int d / 3600000000000) @ ''h'')"

subsection \<open>What the traffic uses\<close>

record field_use =
  fu_count :: int
  fu_lastSeen :: int

record usage =
  us_count :: int
  us_lastSeen :: int
  us_reqFields :: "field_use gomap"
  us_respFields :: "field_use gomap"

definition use_field :: "int \<Rightarrow> string \<Rightarrow> field_use gomap \<Rightarrow> field_use gomap" where
  "use_field when p into =
     (let u = (case lookup into p of None \<Rightarrow> \<lparr>fu_count = 0, fu_lastSeen = 0\<rparr> | Some u \<Rightarrow> u)
      in store p \<lparr>fu_count = fu_count u + 1, fu_lastSeen = max (fu_lastSeen u) when\<rparr> into)"

definition collectFieldUse ::
    "(string \<Rightarrow> json option) \<Rightarrow> string \<Rightarrow> field_use gomap \<Rightarrow> int \<Rightarrow> field_use gomap" where
  "collectFieldUse unmarshal body into when =
     (if body = [] \<or> (hd body \<noteq> CHR ''{'' \<and> hd body \<noteq> CHR ''['') then into
      else (case unmarshal body of
              None \<Rightarrow> into
            | Some v \<Rightarrow> fold (use_field when) (walkJSONFields v [] 0) into))"

definition request_key :: "http_record \<Rightarrow> string" where
  "request_key rec = hr_Method rec @ '' '' @ openAPIPath (hr_Path rec)"

definition observe :: "(string \<Rightarrow> json option) \<Rightarrow> http_record \<Rightarrow> usage gomap \<Rightarrow> usage gomap" where
  "observe unmarshal rec observed =
     (let u = (case lookup observed (request_key rec) of
                 None \<Rightarrow> \<lparr>us_count = 0, us_lastSeen = 0, us_reqFields = [], us_respFields = []\<rparr>
               | Some u \<Rightarrow> u)
      in store (request_key rec)
           \<lparr>us_count = us_count u + 1, us_lastSeen = max (us_lastSeen u) (hr_Time rec),
            us_reqFields = collectFieldUse unmarshal (hr_RequestBody rec) (us_reqFields u) (hr_Time rec),
            us_respFields = (if 200 \<le> hr_Status rec \<and> hr_Status rec < 300
              then collectFieldUse unmarshal (hr_ResponseBody rec) (us_respFields u) (hr_Time rec)
              else us_respFields u)\<rparr> observed)"

definition lastCut :: "string \<Rightarrow> string option" where
  "lastCut s = (if CHR ''.'' \<in> set s
     then Some (rev (tl (dropWhile (\<lambda>c. c \<noteq> CHR ''.'') (rev s)))) else None)"

definition fieldFindings ::
    "int \<Rightarrow> field_use gomap \<Rightarrow> string list \<Rightarrow> string \<Rightarrow> string \<Rightarrow> string \<Rightarrow> string \<Rightarrow>
     (string \<Rightarrow> int \<Rightarrow> string \<Rightarrow> string) \<Rightarrow> finding list" where
  "fieldFindings now used specFields severity kind method path msg =
     concat (map (\<lambda>f.
       if f \<in> set specFields then []
       else if (case lastCut f of None \<Rightarrow> False
                | Some parent \<Rightarrow> parent \<notin> set specFields \<and> lookup used parent \<noteq> None) then []
       else (case lookup used f of
               None \<Rightarrow> []
             | Some u \<Rightarrow>
                 [\<lparr>fd_Severity = severity, fd_Kind = kind, fd_Method = method, fd_Path = path,
                   fd_Field = f, fd_Count = fu_count u, fd_LastSeen = fu_lastSeen u,
                   fd_Message = method @ '' '' @ path @ '': '' @ msg (go_quote f) (fu_count u) (ago now (fu_lastSeen u))\<rparr>]))
       (sorted_keys used))"

subsection \<open>The check\<close>

definition missing_endpoint :: "int \<Rightarrow> string \<Rightarrow> string \<Rightarrow> usage \<Rightarrow> finding" where
  "missing_endpoint now method path u =
     \<lparr>fd_Severity = SevBreaking, fd_Kind = ''endpoint-missing-from-spec'', fd_Method = method,
      fd_Path = path, fd_Field = [], fd_Count = us_count u, fd_LastSeen = us_lastSeen u,
      fd_Message = method @ '' '' @ path @ '' carried '' @ itoa (us_count u) @ '' request(s) (last '' @
        ago now (us_lastSeen u) @ '' ago) but is not in the spec '' @ map char_of [226, 128, 148 :: nat] @
        '' removing it breaks live consumers''\<rparr>"

definition request_msg :: "string \<Rightarrow> int \<Rightarrow> string \<Rightarrow> string" where
  "request_msg f n since =
     ''clients send request field '' @ f @ '' ('' @ itoa n @ '' time(s), last '' @ since @
     '' ago) but the spec omits it''"

definition response_msg :: "string \<Rightarrow> int \<Rightarrow> string \<Rightarrow> string" where
  "response_msg f n since =
     ''responses include field '' @ f @ '' ('' @ itoa n @ '' time(s), last '' @ since @
     '' ago) that the spec doesn't document''"

definition documented_responses :: "spec \<Rightarrow> operation \<Rightarrow> string list" where
  "documented_responses s op =
     concat (map (\<lambda>status. if has_prefix status ''2'' \<or> status = ''default''
         then FieldPaths (spec_schemas s) (responseSchema s op status) else [])
       (keys (op_Responses op)))"

definition key_findings :: "int \<Rightarrow> spec \<Rightarrow> string \<Rightarrow> usage \<Rightarrow> finding list" where
  "key_findings now s key u =
     (let (method, path, _) = cut_on (CHR '' '') key
      in case (case MatchPath s path of
                 None \<Rightarrow> None
               | Some tmpl \<Rightarrow>
                   (case lookup (sp_Paths s) tmpl of
                      None \<Rightarrow> None
                    | Some methods \<Rightarrow> map_option (Pair tmpl) (lookup methods (to_lower method)))) of
           None \<Rightarrow> [missing_endpoint now method path u]
         | Some (tmpl, op) \<Rightarrow>
             fieldFindings now (us_reqFields u) (FieldPaths (spec_schemas s) (requestSchema s op))
               SevBreaking ''request-field-missing-from-spec'' method tmpl request_msg @
             (if documented_responses s op \<noteq> [] then
                fieldFindings now (us_respFields u) (documented_responses s op)
                  SevWarn ''response-field-undocumented'' method tmpl response_msg
              else []))"

definition endpoint_seen :: "usage gomap \<Rightarrow> string \<Rightarrow> string \<Rightarrow> bool" where
  "endpoint_seen observed tmpl upper \<longleftrightarrow>
     list_ex (\<lambda>key. case cut_on (CHR '' '') key of (m, p, _) \<Rightarrow>
       m = upper \<and> templateMatches (splitSegs tmpl) (splitSegs p)) (keys observed)"

definition unused_findings :: "spec \<Rightarrow> usage gomap \<Rightarrow> finding list" where
  "unused_findings s observed =
     concat (map (\<lambda>tmpl.
       concat (map (\<lambda>method.
         let upper = to_upper method
         in if endpoint_seen observed tmpl upper then []
            else [\<lparr>fd_Severity = SevInfo, fd_Kind = ''endpoint-unused'', fd_Method = upper,
                   fd_Path = tmpl, fd_Field = [], fd_Count = 0, fd_LastSeen = 0,
                   fd_Message = upper @ '' '' @ tmpl @ '' has no observed traffic in this window''\<rparr>])
         (case lookup (sp_Paths s) tmpl of None \<Rightarrow> [] | Some ms \<Rightarrow> keys ms)))
       (sorted_keys (sp_Paths s)))"

definition observed_usage :: "(string \<Rightarrow> json option) \<Rightarrow> http_record list \<Rightarrow> usage gomap" where
  "observed_usage unmarshal records = fold (observe unmarshal) records []"

definition Check :: "(string \<Rightarrow> json option) \<Rightarrow> int \<Rightarrow> spec \<Rightarrow> http_record list \<Rightarrow> finding list" where
  "Check unmarshal now s records =
     (let observed = observed_usage unmarshal records;
          findings = concat (map (\<lambda>key. case lookup observed key of None \<Rightarrow> [] | Some u \<Rightarrow> key_findings now s key u)
            (sorted_keys observed)) @ unused_findings s observed
      in sort_key (\<lambda>f. sevRank (fd_Severity f)) findings)"

subsection \<open>What the observed fields come from\<close>

definition body_fields :: "(string \<Rightarrow> json option) \<Rightarrow> string \<Rightarrow> string list" where
  "body_fields unmarshal body =
     (case json_body unmarshal body of None \<Rightarrow> [] | Some v \<Rightarrow> walkJSONFields v [] 0)"

lemma keys_use_fields: "fst ` set (fold (use_field t) fs m) = set fs \<union> fst ` set m"
  by (induction fs arbitrary: m) (auto simp: use_field_def Let_def keys_store)

lemma keys_collectFieldUse:
  "fst ` set (collectFieldUse u body m t) = set (body_fields u body) \<union> fst ` set m"
  by (auto simp: collectFieldUse_def body_fields_def json_body_def keys_use_fields split: option.splits)

lemma keys_observe: "fst ` set (observe u r m) = insert (request_key r) (fst ` set m)"
  by (simp add: observe_def Let_def keys_store)

lemma keys_observed: "fst ` set (observed_usage u rs) = request_key ` set rs"
proof -
  have "fst ` set (fold (observe u) rs m) = request_key ` set rs \<union> fst ` set m" for m
    by (induction rs arbitrary: m) (auto simp: keys_observe)
  then show ?thesis by (simp add: observed_usage_def)
qed

text \<open>Every field the usage of a key counts was in the body of some record with that key.\<close>

definition request_fields :: "(string \<Rightarrow> json option) \<Rightarrow> http_record list \<Rightarrow> string \<Rightarrow> string set" where
  "request_fields u rs key =
     \<Union> (set (map (\<lambda>r. set (body_fields u (hr_RequestBody r))) (filter (\<lambda>r. request_key r = key) rs)))"

definition success :: "http_record \<Rightarrow> bool" where
  "success r \<longleftrightarrow> 200 \<le> hr_Status r \<and> hr_Status r < 300"

definition response_fields :: "(string \<Rightarrow> json option) \<Rightarrow> http_record list \<Rightarrow> string \<Rightarrow> string set" where
  "response_fields u rs key =
     \<Union> (set (map (\<lambda>r. set (body_fields u (hr_ResponseBody r)))
       (filter (\<lambda>r. request_key r = key \<and> success r) rs)))"

definition accounted :: "(string \<Rightarrow> json option) \<Rightarrow> http_record list \<Rightarrow> usage gomap \<Rightarrow> bool" where
  "accounted u rs m \<longleftrightarrow> (\<forall>key us. lookup m key = Some us \<longrightarrow>
     fst ` set (us_reqFields us) \<subseteq> request_fields u rs key \<and>
     fst ` set (us_respFields us) \<subseteq> response_fields u rs key)"

lemma request_fields_snoc:
  "request_fields u (rs @ [r]) key =
     (if request_key r = key then set (body_fields u (hr_RequestBody r)) else {}) \<union> request_fields u rs key"
  by (auto simp: request_fields_def)

lemma response_fields_snoc:
  "response_fields u (rs @ [r]) key =
     (if request_key r = key \<and> success r then set (body_fields u (hr_ResponseBody r)) else {}) \<union>
     response_fields u rs key"
  by (auto simp: response_fields_def)

lemma accounted_observe: 
  assumes "accounted u rs m"
  shows "accounted u (rs @ [r]) (observe u r m)"
  unfolding accounted_def
proof (intro allI impI)
  fix key us
  assume us: "lookup (observe u r m) key = Some us"
  note old = assms [unfolded accounted_def, rule_format, of key]
  show "fst ` set (us_reqFields us) \<subseteq> request_fields u (rs @ [r]) key \<and>
      fst ` set (us_respFields us) \<subseteq> response_fields u (rs @ [r]) key"
  proof (cases "key = request_key r")
    case False
    then have "lookup m key = Some us"
      using us by (simp add: observe_def Let_def)
    then show ?thesis
      using old [of us] by (auto simp: request_fields_snoc response_fields_snoc)
  next
    case True
    show ?thesis
    proof (cases "lookup m key")
      case None
      then have "us_reqFields us = collectFieldUse u (hr_RequestBody r) [] (hr_Time r)"
        "us_respFields us = (if success r then collectFieldUse u (hr_ResponseBody r) [] (hr_Time r) else [])"
        using us True by (auto simp: observe_def Let_def success_def)
      then show ?thesis
        using True by (auto simp: request_fields_snoc response_fields_snoc keys_collectFieldUse)
    next
      case (Some v)
      then have "us_reqFields us = collectFieldUse u (hr_RequestBody r) (us_reqFields v) (hr_Time r)"
        "us_respFields us =
           (if success r then collectFieldUse u (hr_ResponseBody r) (us_respFields v) (hr_Time r) else us_respFields v)"
        using us True by (auto simp: observe_def Let_def success_def)
      then show ?thesis
        using True old [OF Some] by (auto simp: request_fields_snoc response_fields_snoc keys_collectFieldUse)
    qed
  qed
qed

lemma accounted_observed: "accounted u rs (observed_usage u rs)"
  by (induction rs rule: rev_induct)
     (simp_all add: observed_usage_def accounted_observe, simp add: accounted_def)

lemma cut_request_key:
  "CHR '' '' \<notin> set (hr_Method r) \<Longrightarrow>
     cut_on (CHR '' '') (request_key r) = (hr_Method r, openAPIPath (hr_Path r), True)"
  by (simp add: request_key_def cut_on_append)

lemma request_key_eq:
  assumes "CHR '' '' \<notin> set (hr_Method r)" and "CHR '' '' \<notin> set (hr_Method r')" and "request_key r' = request_key r"
  shows "hr_Method r' = hr_Method r \<and> openAPIPath (hr_Path r') = openAPIPath (hr_Path r)"
  using cut_request_key [OF assms(1)] cut_request_key [OF assms(2)] assms(3) by simp

lemma fieldFindings_Nil:
  "fst ` set used \<subseteq> set specFields \<Longrightarrow> fieldFindings now used specFields sev kind method path msg = []"
  by (auto simp: fieldFindings_def)

subsection \<open>The inferred document covers its traffic\<close>

lemma fold_respByStatus:
  assumes "\<And>r. r \<in> set g \<Longrightarrow> itoa (hr_Status r) = st \<Longrightarrow>
    schemaOfJSON u (hr_ResponseBody r) \<noteq> None \<or> hr_Status r \<noteq> 0"
  shows "(case lookup (oa_respByStatus (fold (add_record u) g a)) st of None \<Rightarrow> None | Some x \<Rightarrow> x) =
     foldl mergeSchemas (case lookup (oa_respByStatus a) st of None \<Rightarrow> None | Some x \<Rightarrow> x)
       (map (\<lambda>r. schemaOfJSON u (hr_ResponseBody r)) (filter (\<lambda>r. itoa (hr_Status r) = st) g)) \<and>
     (lookup (oa_respByStatus (fold (add_record u) g a)) st = None \<longleftrightarrow>
      lookup (oa_respByStatus a) st = None \<and> filter (\<lambda>r. itoa (hr_Status r) = st) g = [])"
  using assms
proof (induction g arbitrary: a)
  case (Cons r g)
  have step: "(case lookup (oa_respByStatus (add_record u r a)) st of None \<Rightarrow> None | Some x \<Rightarrow> x) =
      (if itoa (hr_Status r) = st
       then mergeSchemas (case lookup (oa_respByStatus a) st of None \<Rightarrow> None | Some x \<Rightarrow> x)
              (schemaOfJSON u (hr_ResponseBody r))
       else (case lookup (oa_respByStatus a) st of None \<Rightarrow> None | Some x \<Rightarrow> x))"
    "lookup (oa_respByStatus (add_record u r a)) st = None \<longleftrightarrow>
      lookup (oa_respByStatus a) st = None \<and> itoa (hr_Status r) \<noteq> st"
    using Cons.prems [of r]
    by (cases "schemaOfJSON u (hr_ResponseBody r)"; cases "schemaOfJSON u (hr_RequestBody r)";
        auto simp: add_record_def Let_def split: option.splits)+
  show ?case
    using Cons.IH [of "add_record u r a"] Cons.prems by (simp add: step)
qed simp

definition uniform_opt :: "schema option \<Rightarrow> bool" where
  "uniform_opt s \<longleftrightarrow> (case s of None \<Rightarrow> True | Some x \<Rightarrow> uniform x)"

definition uniform_op :: "spec \<Rightarrow> operation \<Rightarrow> bool" where
  "uniform_op s op \<longleftrightarrow> uniform_opt (requestSchema s op) \<and>
     list_all (\<lambda>(status, _). uniform_opt (responseSchema s op status)) (op_Responses op)"

definition uniform_spec :: "spec \<Rightarrow> bool" where
  "uniform_spec s \<longleftrightarrow> list_all (\<lambda>(_, ms). list_all (\<lambda>(_, op). uniform_op s op) ms) (sp_Paths s)"

lemma FieldPaths_Some: "set (FieldPaths None (Some S)) = documented S [] 0"
  by (simp add: FieldPaths_def documented_def)

lemma wf_schemaOfJSON:
  assumes "\<And>s v. u s = Some v \<Longrightarrow> wf_json v"
  shows "wf_opt (schemaOfJSON u body)"
  using assms by (auto simp: schemaOfJSON_def wf_schemaOfValue split: option.split)

lemma wf_bodies:
  assumes "\<And>s v. u s = Some v \<Longrightarrow> wf_json v"
  shows "wf_opt (foldl mergeSchemas None (map (\<lambda>r. schemaOfJSON u (body r)) g))"
  by (rule wf_merge_all) (simp_all add: list_all_iff wf_schemaOfJSON [OF assms])

lemma merged_fields:
  assumes wf: "\<And>s v. u s = Some v \<Longrightarrow> wf_json v" and r: "r \<in> set g"
    and uni: "uniform_opt (foldl mergeSchemas None (map (\<lambda>r. schemaOfJSON u (body r)) g))"
  shows "set (body_fields u (body r)) \<subseteq>
    set (FieldPaths None (foldl mergeSchemas None (map (\<lambda>r. schemaOfJSON u (body r)) g)))"
proof (cases "json_body u (body r)")
  case None
  then show ?thesis by (simp add: body_fields_def)
next
  case (Some v)
  let ?xs = "map (\<lambda>r. schemaOfJSON u (body r)) g"
  have mem: "Some (schemaOfValue v 0) \<in> set ?xs"
    using r Some by (force simp: schemaOfJSON_body)
  have wfs: "list_all wf_opt ?xs"
    by (simp add: list_all_iff wf_schemaOfJSON [OF wf])
  have v: "wf_json v"
    using Some wf by (auto simp: json_body_def split: if_splits)
  obtain T where T: "foldl mergeSchemas None ?xs = Some T"
    using merge_all_not_None [of None "schemaOfValue v 0" ?xs] mem by blast
  then have "uniform T"
    using uni by (simp add: uniform_opt_def)
  then have "uniform (schemaOfValue v 0) \<and> documented (schemaOfValue v 0) [] 0 \<subseteq> documented T [] 0"
    using mem by (intro merge_all_documents [OF _ wfs T]) simp_all
  then show ?thesis
    using schemaOfValue_documents [OF v, of 0 "[]"] Some T
    by (auto simp: body_fields_def FieldPaths_Some)
qed

lemma Resolve_opt: "wf_opt S \<Longrightarrow> map_option (Resolve_ref comps) S = S"
  by (cases S) (auto dest: wf_schemaD(1))

lemma itoa_2xx: "200 \<le> n \<Longrightarrow> n < 300 \<Longrightarrow> has_prefix (itoa n) ''2''"
proof -
  assume n: "200 \<le> n" "n < 300"
  define k where "k = nat n"
  have k: "200 \<le> k" "k < 300"
    using n by (auto simp: k_def)
  have "nat_digits k = nat_digits (k div 10 div 10) @ [digit_char (k div 10 mod 10)] @ [digit_char (k mod 10)]"
    using k by (subst nat_digits.simps, subst nat_digits.simps) simp
  moreover have "k div 10 div 10 = 2"
    using k by simp
  moreover have "nat_digits 2 = ''2''"
    by code_simp
  ultimately show ?thesis
    using n by (simp add: itoa_def k_def has_prefix_def)
qed

text \<open>The operation inferred for a record's group, with its schemas.\<close>

definition operation_documents ::
    "(string \<Rightarrow> json option) \<Rightarrow> spec \<Rightarrow> http_record list \<Rightarrow> string \<Rightarrow> string \<Rightarrow> operation \<Rightarrow> bool" where
  "operation_documents u s rs p m op \<longleftrightarrow>
     requestSchema s op =
       foldl mergeSchemas None (map (\<lambda>r. schemaOfJSON u (hr_RequestBody r)) (filter (in_group p m) rs)) \<and>
     (\<forall>r' \<in> set rs. in_group p m r' \<longrightarrow> success r' \<longrightarrow>
        itoa (hr_Status r') \<in> fst ` set (op_Responses op) \<and>
        responseSchema s op (itoa (hr_Status r')) =
          foldl mergeSchemas None (map (\<lambda>r. schemaOfJSON u (hr_ResponseBody r))
            (filter (\<lambda>x. itoa (hr_Status x) = itoa (hr_Status r')) (filter (in_group p m) rs))))"

lemma inferred_op:
  assumes wf: "\<And>s v. u s = Some v \<Longrightarrow> wf_json v" and r: "r \<in> set rs"
    and s_def: "s = Infer u n rs" and p_def: "p = openAPIPath (hr_Path r)" and m_def: "m = to_lower (hr_Method r)"
  obtains ms op where "MatchPath s p = Some p" "lookup (sp_Paths s) p = Some ms" "lookup ms m = Some op"
    "operation_documents u s rs p m op"
proof -
  define g where "g = filter (in_group p m) rs"
  define agg where "agg = fold (add_record u) g new_agg"
  define op where "op = operation_of p m agg"
  have "g \<noteq> []"
    using r by (auto simp: g_def filter_empty_conv in_group_def p_def m_def)
  then have "spec_op s p m = Some op"
    by (simp add: s_def spec_op_Infer g_def agg_def op_def Let_def)
  then obtain ms where ms: "lookup (sp_Paths s) p = Some ms" "lookup ms m = Some op"
    by (auto simp: spec_op_def bind_eq_Some_conv)
  then have match: "MatchPath s p = Some p"
    by (simp add: MatchPath_def)
  have comps: "spec_schemas s = None"
    by (simp add: spec_schemas_def s_def Infer_def spec_of_def)
  have media: "media_schema s (json_content sc) = sc" if "wf_opt sc" for sc
    using Resolve_opt [OF that, of None]
    by (cases sc) (simp_all add: media_schema_def json_content_def comps)
  have req: "oa_reqSchema agg = foldl mergeSchemas None (map (\<lambda>r. schemaOfJSON u (hr_RequestBody r)) g)"
    by (simp add: agg_def fold_reqSchema new_agg_def)
  then have "wf_opt (oa_reqSchema agg)"
    using wf_bodies [OF wf] by simp
  then have "requestSchema s op = oa_reqSchema agg"
    by (cases "oa_reqSchema agg") (simp_all add: requestSchema_def op_def operation_of_def media)
  note request = this [unfolded req]
  have response: "itoa (hr_Status r') \<in> fst ` set (op_Responses op) \<and>
      responseSchema s op (itoa (hr_Status r')) =
        foldl mergeSchemas None (map (\<lambda>r. schemaOfJSON u (hr_ResponseBody r))
           (filter (\<lambda>x. itoa (hr_Status x) = itoa (hr_Status r')) g))"
    if r': "r' \<in> set rs" "in_group p m r'" "success r'" for r'
  proof -
    define st where "st = itoa (hr_Status r')"
    define sc where "sc = (case lookup (oa_respByStatus agg) st of None \<Rightarrow> None | Some x \<Rightarrow> x)"
    have entry: "sc = foldl mergeSchemas None (map (\<lambda>r. schemaOfJSON u (hr_ResponseBody r))
          (filter (\<lambda>x. itoa (hr_Status x) = st) g)) \<and> lookup (oa_respByStatus agg) st \<noteq> None"
    proof -
      have "r' \<in> set (filter (\<lambda>x. itoa (hr_Status x) = st) g)"
        using r' by (simp add: st_def g_def)
      then have "filter (\<lambda>x. itoa (hr_Status x) = st) g \<noteq> []"
        by (metis empty_iff empty_set)
      moreover have "schemaOfJSON u (hr_ResponseBody x) \<noteq> None \<or> hr_Status x \<noteq> 0"
        if "x \<in> set g" "itoa (hr_Status x) = st" for x
        using that r'(3) by (auto simp: st_def success_def)
      ultimately show ?thesis
        using fold_respByStatus [where g = g and u = u and st = st and a = new_agg] by (simp add: agg_def sc_def) (simp add: new_agg_def)
    qed
    then have "wf_opt sc"
      using wf_bodies [OF wf] by simp
    have key: "st \<in> set (sorted_keys (oa_respByStatus agg))"
      using entry by (simp add: map_of_eq_None_iff)
    then have "sorted_keys (oa_respByStatus agg) \<noteq> []"
      by (metis empty_iff empty_set)
    then have responses: "op_Responses op = map (\<lambda>st. (st, observed_response
        (case lookup (oa_respByStatus agg) st of None \<Rightarrow> None | Some x \<Rightarrow> x))) (sorted_keys (oa_respByStatus agg))"
      by (auto simp: op_def operation_of_def Let_def)
    have "lookup (op_Responses op) st = Some (observed_response sc)"
      using key unfolding responses sc_def by (simp add: map_of_map_keys [symmetric] map_of_map_restrict)
    then have "responseSchema s op st = sc"
      using media [OF \<open>wf_opt sc\<close>] by (simp add: responseSchema_def observed_response_def)
    moreover have "st \<in> fst ` set (op_Responses op)"
      using key unfolding responses by force
    ultimately show ?thesis
      using entry by (simp add: st_def)
  qed
  show ?thesis
    by (rule that [OF match ms]) (use request response in \<open>simp add: operation_documents_def g_def [symmetric]\<close>)
qed

lemma uniform_specD:
  assumes "uniform_spec s" and "lookup (sp_Paths s) p = Some ms" and "lookup ms m = Some op"
  shows "uniform_op s op"
  using assms map_of_SomeD [OF assms(2)] map_of_SomeD [OF assms(3)]
  by (auto simp: uniform_spec_def list_all_iff)

lemma inferred_components [simp]: "spec_schemas (Infer u n rs) = None"
  by (simp add: spec_schemas_def Infer_def spec_of_def)

lemma documented_status:
  "status \<in> fst ` set (op_Responses op) \<Longrightarrow> has_prefix status ''2'' \<Longrightarrow>
     set (FieldPaths (spec_schemas s) (responseSchema s op status)) \<subseteq> set (documented_responses s op)"
  unfolding documented_responses_def by force

lemma own_key_findings:
  assumes wf: "\<And>s v. u s = Some v \<Longrightarrow> wf_json v" and r: "r \<in> set rs"
    and methods: "\<And>r. r \<in> set rs \<Longrightarrow> CHR '' '' \<notin> set (hr_Method r)"
    and uni: "uniform_spec (Infer u n rs)"
    and us: "lookup (observed_usage u rs) (request_key r) = Some us"
  shows "key_findings now (Infer u n rs) (request_key r) us = []"
proof -
  let ?s = "Infer u n rs"
  let ?p = "openAPIPath (hr_Path r)"
  let ?m = "to_lower (hr_Method r)"
  obtain ms op where op: "MatchPath ?s ?p = Some ?p" "lookup (sp_Paths ?s) ?p = Some ms" "lookup ms ?m = Some op"
    and doc: "operation_documents u ?s rs ?p ?m op"
    by (rule inferred_op [OF wf r refl refl refl])
  have req: "requestSchema ?s op =
      foldl mergeSchemas None (map (\<lambda>r. schemaOfJSON u (hr_RequestBody r)) (filter (in_group ?p ?m) rs))"
    using doc by (simp add: operation_documents_def)
  have resp: "itoa (hr_Status r') \<in> fst ` set (op_Responses op) \<and>
       responseSchema ?s op (itoa (hr_Status r')) =
         foldl mergeSchemas None (map (\<lambda>r. schemaOfJSON u (hr_ResponseBody r))
           (filter (\<lambda>x. itoa (hr_Status x) = itoa (hr_Status r')) (filter (in_group ?p ?m) rs)))"
    if "r' \<in> set rs" "in_group ?p ?m r'" "success r'" for r'
    using doc that by (simp add: operation_documents_def)
  have u_op: "uniform_op ?s op"
    by (rule uniform_specD [OF uni op(2,3)])
  have group: "in_group ?p ?m r'" if "r' \<in> set rs" "request_key r' = request_key r" for r'
    using request_key_eq [OF methods [OF r] methods [OF that(1)] that(2)] by (simp add: in_group_def)
  have acc: "fst ` set (us_reqFields us) \<subseteq> request_fields u rs (request_key r)"
    "fst ` set (us_respFields us) \<subseteq> response_fields u rs (request_key r)"
    using accounted_observed [of u rs] us by (auto simp: accounted_def)
  have "request_fields u rs (request_key r) \<subseteq> set (FieldPaths None (requestSchema ?s op))"
  proof -
    have "set (body_fields u (hr_RequestBody r')) \<subseteq> set (FieldPaths None (requestSchema ?s op))"
      if r': "r' \<in> set rs" "request_key r' = request_key r" for r'
    proof -
      have mem: "r' \<in> set (filter (in_group ?p ?m) rs)"
        using r' group by simp
      show ?thesis
        using merged_fields [of u r' "filter (in_group ?p ?m) rs" hr_RequestBody] wf mem u_op
        unfolding req [symmetric] uniform_op_def by blast
    qed
    then show ?thesis by (auto simp: request_fields_def)
  qed
  with acc(1) have requests: "fst ` set (us_reqFields us) \<subseteq> set (FieldPaths None (requestSchema ?s op))"
    by blast
  have "response_fields u rs (request_key r) \<subseteq> set (documented_responses ?s op)"
  proof -
    have "set (body_fields u (hr_ResponseBody r')) \<subseteq> set (documented_responses ?s op)"
      if r': "r' \<in> set rs" "request_key r' = request_key r" "success r'" for r'
    proof -
      define st where "st = itoa (hr_Status r')"
      note status = resp [OF r'(1) group [OF r'(1,2)] r'(3), folded st_def]
      have mem: "r' \<in> set (filter (\<lambda>x. itoa (hr_Status x) = st) (filter (in_group ?p ?m) rs))"
        using r' group by (simp add: st_def)
      have "uniform_opt (responseSchema ?s op st)"
        using u_op status by (auto simp: uniform_op_def list_all_iff)
      then have "set (body_fields u (hr_ResponseBody r')) \<subseteq> set (FieldPaths None (responseSchema ?s op st))"
        using merged_fields [OF wf mem, where body = hr_ResponseBody] status by simp
      moreover have "has_prefix st ''2''"
        using r'(3) itoa_2xx by (simp add: st_def success_def)
      ultimately show ?thesis
        using documented_status [of st op "?s"] status by auto
    qed
    then show ?thesis by (auto simp: response_fields_def)
  qed
  with acc(2) have responses: "fst ` set (us_respFields us) \<subseteq> set (documented_responses ?s op)"
    by blast
  show ?thesis
    using cut_request_key [OF methods [OF r]] op
    by (simp add: key_findings_def fieldFindings_Nil requests responses)
qed

lemma templateMatches_refl: "templateMatches segs segs"
  by (simp add: templateMatches_def list_all2_conv_all_nth)

lemma own_unused_findings:
  assumes methods: "\<And>r. r \<in> set rs \<Longrightarrow> CHR '' '' \<notin> set (hr_Method r) \<and> to_upper (hr_Method r) = hr_Method r"
  shows "unused_findings (Infer u n rs) (observed_usage u rs) = []"
proof -
  let ?s = "Infer u n rs"
  have "endpoint_seen (observed_usage u rs) tmpl (to_upper verb)"
    if ms: "lookup (sp_Paths ?s) tmpl = Some ms" and verb: "(verb, x) \<in> set ms" for tmpl ms verb x
  proof -
    obtain op where "lookup ms verb = Some op"
      using weak_map_of_SomeI [OF verb] by blast
    then have "spec_op ?s tmpl verb = Some op"
      using ms by (simp add: spec_op_def)
    then have "filter (in_group tmpl verb) rs \<noteq> []"
      by (auto simp: spec_op_Infer Let_def split: if_splits)
    then obtain r where r: "r \<in> set rs" "in_group tmpl verb r"
      by (metis filter_empty_conv)
    then have "request_key r \<in> fst ` set (observed_usage u rs)"
      by (simp add: keys_observed)
    moreover have "cut_on (CHR '' '') (request_key r) = (hr_Method r, tmpl, True)"
      using methods [OF r(1)] r(2) cut_request_key by (simp add: in_group_def)
    moreover have "hr_Method r = to_upper verb"
      using methods [OF r(1)] r(2) to_upper_lower [of "hr_Method r"] by (simp add: in_group_def)
    ultimately show ?thesis
      using templateMatches_refl by (force simp: endpoint_seen_def list_ex_iff)
  qed
  then show ?thesis
    unfolding unused_findings_def Let_def concat_eq_Nil_conv
    by (auto split: option.splits dest!: sym [of "Some _" "lookup _ _"])
qed

text \<open>
  C10. The check has nothing to report, neither a breaking change nor a stale or unused entry, when the
  document is the one learnt from the same traffic, as long as no schema node stands for an object
  and an array at once.
\<close>

theorem check_own_traffic:
  assumes "\<And>s v. u s = Some v \<Longrightarrow> wf_json v" and "uniform_spec (Infer u n rs)"
    and "\<And>r. r \<in> set rs \<Longrightarrow> CHR '' '' \<notin> set (hr_Method r) \<and> to_upper (hr_Method r) = hr_Method r"
  shows "Check u now (Infer u n rs) rs = []"
proof -
  have "(case lookup (observed_usage u rs) key of None \<Rightarrow> [] | Some us \<Rightarrow> key_findings now (Infer u n rs) key us) = []"
    if key: "key \<in> fst ` set (observed_usage u rs)" for key
  proof -
    obtain r where r: "r \<in> set rs" "key = request_key r"
      using key by (auto simp: keys_observed)
    then show ?thesis
      using own_key_findings [OF assms(1) r(1) _ assms(2)] assms(3) by (auto split: option.split)
  qed
  then have "concat (map (\<lambda>key. case lookup (observed_usage u rs) key of None \<Rightarrow> []
      | Some us \<Rightarrow> key_findings now (Infer u n rs) key us) (sorted_keys (observed_usage u rs))) = []"
    unfolding concat_eq_Nil_conv by auto
  then show ?thesis
    using own_unused_findings [OF assms(3), of rs u n]
    unfolding Check_def Let_def by (simp only: append_Nil sort_key_simps)
qed

theorem check_own_traffic_witness:
  "Check sample_unmarshal 0 (Infer sample_unmarshal ''shop'' sample_traffic) sample_traffic = []"
proof (rule check_own_traffic)
  show "wf_json v" if "sample_unmarshal s = Some v" for s v
    using that by (auto simp: sample_unmarshal_def split: if_splits)
  show "uniform_spec (Infer sample_unmarshal ''shop'' sample_traffic)"
    by code_simp
  show "CHR '' '' \<notin> set (hr_Method r) \<and> to_upper (hr_Method r) = hr_Method r" if "r \<in> set sample_traffic" for r
  proof -
    have "list_all (\<lambda>r. CHR '' '' \<notin> set (hr_Method r) \<and> to_upper (hr_Method r) = hr_Method r) sample_traffic"
      by code_simp
    then show ?thesis
      using that by (simp add: list_all_iff)
  qed
qed

text \<open>
  Without the uniformity: one client posts an object and another an array to the same endpoint.  The
  merged node has properties and items, \<open>walkFields\<close> reads the properties only, and the document just
  learnt from this traffic is reported as breaking the second client.
\<close>

definition mixed_unmarshal :: "string \<Rightarrow> json option" where
  "mixed_unmarshal s =
     (if s = ''{1}'' then Some (JObj [(''id'', JNum 1)])
      else if s = ''[2]'' then Some (JArr [JObj [(''sku'', JNum 2)]])
      else None)"

definition mixed_traffic :: "http_record list" where
  "mixed_traffic = [sample_request ''/orders/1'' [] ''{1}'', sample_request ''/orders/2'' [] ''[2]'']"

lemma mixed_bodies_break_own_document:
  "HasBreaking (Check mixed_unmarshal 0 (Infer mixed_unmarshal ''shop'' mixed_traffic) mixed_traffic)"
  by code_simp

text \<open>
  The widening of mixed scalars to "any" is forgotten by the next observation: the untyped node is
  taken for one that observed nothing but null.
\<close>

lemma mixed_types_forgotten:
  "sc_Type (merge2 (merge2 (scalar_schema ''integer'' None) (scalar_schema ''string'' None)) (scalar_schema ''string'' None)) =
     ''string''"
  "sc_Type (merge2 (scalar_schema ''string'' None) (merge2 (scalar_schema ''string'' None) (scalar_schema ''integer'' None))) =
     ''string''"
  "sc_Type (merge2 (merge2 (scalar_schema ''string'' None) (scalar_schema ''string'' None)) (scalar_schema ''integer'' None)) =
     []"
  by (simp_all add: merge_type_def scalar_schema_def)

text \<open>Two identifiers below the same resource name give one template two parameters of the same name.\<close>

lemma duplicate_parameter_names:
  "pathParams (openAPIPath ''/users/1/users/2'') = [''userId'', ''userId'']"
  by code_simp

end
