(* ===== verification/Tally.thy ===== *)
theory Tally
  imports Prelude
begin

text \<open>
  The reports of the product group what they see: a map from a key to an entry that the first
  sighting creates and every later one updates.  The locale states that step once; suggestions, scan
  findings and policy changes are its instances.
\<close>

fun summarise :: "('s \<Rightarrow> 'v) \<Rightarrow> ('s \<Rightarrow> 'v \<Rightarrow> 'v) \<Rightarrow> 's list \<Rightarrow> 'v option" where
  "summarise first more [] = None"
| "summarise first more (n # ns) = Some (fold more ns (first n))"

lemma summarise_snoc:
  "summarise first more (ns @ [n]) =
     Some (case summarise first more ns of None \<Rightarrow> first n | Some v \<Rightarrow> more n v)"
  by (cases ns) simp_all

lemma summarise_None [simp]: "summarise first more ns = None \<longleftrightarrow> ns = []"
  by (cases ns) simp_all

locale tally =
  fixes key :: "'s \<Rightarrow> 'k"
    and first :: "'s \<Rightarrow> 'v"
    and more :: "'s \<Rightarrow> 'v \<Rightarrow> 'v"
    and step :: "'s \<Rightarrow> ('k \<times> 'v) list \<Rightarrow> ('k \<times> 'v) list"
  assumes step_lookup:
      "map_of (step n agg) k =
         (if k = key n then Some (case map_of agg k of None \<Rightarrow> first n | Some v \<Rightarrow> more n v)
          else map_of agg k)"
    and step_distinct: "distinct (map fst agg) \<Longrightarrow> distinct (map fst (step n agg))"
begin

lemma fold_lookup:
  "map_of (fold step ns []) k = summarise first more (filter (\<lambda>n. key n = k) ns)"
proof (induction ns rule: rev_induct)
  case Nil
  then show ?case by simp
next
  case (snoc n ns)
  show ?case
  proof (cases "key n = k")
    case True
    then have "map_of (fold step (ns @ [n]) []) k =
        Some (case map_of (fold step ns []) k of None \<Rightarrow> first n | Some v \<Rightarrow> more n v)"
      by (simp add: step_lookup)
    then show ?thesis
      unfolding snoc.IH using True by (simp add: summarise_snoc)
  next
    case False
    then show ?thesis
      using snoc.IH by (simp add: step_lookup)
  qed
qed

lemma fold_distinct: "distinct (map fst agg) \<Longrightarrow> distinct (map fst (fold step ns agg))"
  by (induction ns arbitrary: agg) (simp_all add: step_distinct)

lemma entries:
  "v \<in> snd ` set (fold step ns []) \<longleftrightarrow> (\<exists>k. summarise first more (filter (\<lambda>n. key n = k) ns) = Some v)"
proof -
  have d: "distinct (map fst (fold step ns []))"
    by (rule fold_distinct) simp
  have "v \<in> snd ` set (fold step ns []) \<longleftrightarrow> (\<exists>k. map_of (fold step ns []) k = Some v)"
    using d by (force dest: map_of_SomeD)
  then show ?thesis
    by (simp only: fold_lookup)
qed

text \<open>Nothing seen is left out: every sighting has an entry under its key.\<close>

lemma sighting_has_entry:
  assumes "n \<in> set ns"
  shows "map_of (fold step ns []) (key n) \<noteq> None"
proof -
  have "n \<in> set (filter (\<lambda>m. key m = key n) ns)"
    using assms by simp
  then have "filter (\<lambda>m. key m = key n) ns \<noteq> []"
    by (metis empty_iff empty_set)
  then show ?thesis
    unfolding fold_lookup by simp
qed

end

text \<open>A step that updates an association list at the key of the sighting is an instance.\<close>

lemma tally_update:
  assumes "\<And>n agg. step n agg = AList.update (key n) (case map_of agg (key n) of None \<Rightarrow> first n | Some v \<Rightarrow> more n v) agg"
  shows "tally key first more step"
  by standard (simp_all add: assms update_conv' distinct_update)

end
