(* ===== verification/Suggest.thy ===== *)
theory Suggest
  imports Redact SpecCheck Tally
begin

text \<open>
  Rule suggestions from field names (\<open>internal/suggest/suggest.go\<close>): the name heuristics, the fields of
  a recorded body, what existing rules already govern, the aggregation of \<open>Records\<close> and the
  rule blocks \<open>YAML\<close> prints.
\<close>

subsection \<open>Name heuristics\<close>

text \<open>The closures \<open>contains\<close>, \<open>exact\<close> and \<open>nested\<close> build.\<close>

datatype name_match =
    Contains "string list"
  | Exact "string list"
  | Nested "string list" "string list"

definition last_segment :: "string \<Rightarrow> string" where
  "last_segment n = rev (takeWhile (\<lambda>c. c \<noteq> CHR ''.'') (rev n))"

fun match_name :: "name_match \<Rightarrow> string \<Rightarrow> bool" where
  "match_name (Contains subs) name = list_ex (\<lambda>s. contains (to_lower name) s) subs"
| "match_name (Exact names) name = (last_segment (to_lower name) \<in> set names)"
| "match_name (Nested parents leaves) name =
     (let segs = split_on (CHR ''.'') (to_lower name)
      in if length segs < 2 then False
         else segs ! (length segs - 2) \<in> set parents \<and> segs ! (length segs - 1) \<in> set leaves)"

record name_rule =
  nr_match :: name_match
  nr_confidence :: string
  nr_why :: string

definition High :: string where "High = ''high''"
definition Medium :: string where "Medium = ''medium''"
definition Low :: string where "Low = ''low''"

definition fieldRules :: "name_rule list" where
  "fieldRules = [
     \<lparr>nr_match = Nested [''card'', ''creditcard'', ''credit_card'', ''debitcard'', ''debit_card'', ''payment_card'', ''paymentcard''] [''number'', ''no'', ''num'', ''pan''],
       nr_confidence = High, nr_why = ''payment card data is PCI-DSS scope''\<rparr>,
     \<lparr>nr_match = Nested [''account'', ''bank'', ''bank_account'', ''bankaccount''] [''number'', ''no'', ''num''],
       nr_confidence = High, nr_why = ''bank account details enable fraud if leaked''\<rparr>,
     \<lparr>nr_match = Contains [''password'', ''passwd'', ''secret'', ''private_key'', ''privatekey''],
       nr_confidence = High, nr_why = ''credentials must never be stored in telemetry''\<rparr>,
     \<lparr>nr_match = Contains [''api_key'', ''apikey'', ''access_token'', ''refresh_token'', ''auth_token'', ''bearer''],
       nr_confidence = High, nr_why = ''a token in telemetry is a replayable credential''\<rparr>,
     \<lparr>nr_match = Contains [''card_number'', ''cardnumber'', ''card_no''],
       nr_confidence = High, nr_why = ''payment card data is PCI-DSS scope''\<rparr>,
     \<lparr>nr_match = Exact [''pan'', ''cvv'', ''cvc''],
       nr_confidence = High, nr_why = ''payment card data is PCI-DSS scope''\<rparr>,
     \<lparr>nr_match = Contains [''ssn'', ''social_security'', ''national_id'', ''aadhaar'', ''tax_id''],
       nr_confidence = High, nr_why = ''national identifiers are regulated personal data''\<rparr>,
     \<lparr>nr_match = Exact [''iban'', ''account_number'', ''routing_number'', ''sort_code''],
       nr_confidence = High, nr_why = ''bank account details enable fraud if leaked''\<rparr>,
     \<lparr>nr_match = Contains [''email'', ''e_mail''],
       nr_confidence = Medium, nr_why = ''email addresses are personal data under GDPR and similar regimes''\<rparr>,
     \<lparr>nr_match = Contains [''phone'', ''mobile'', ''msisdn''],
       nr_confidence = Medium, nr_why = ''phone numbers are personal data''\<rparr>,
     \<lparr>nr_match = Contains [''address'', ''postcode'', ''zip_code'', ''street''],
       nr_confidence = Medium, nr_why = ''postal addresses are personal data''\<rparr>,
     \<lparr>nr_match = Contains [''dob'', ''date_of_birth'', ''birthdate''],
       nr_confidence = Medium, nr_why = ''dates of birth are personal data and aid identity theft''\<rparr>,
     \<lparr>nr_match = Contains [''latitude'', ''longitude'', ''geo_''],
       nr_confidence = Medium, nr_why = ''precise location is sensitive personal data''\<rparr>,
     \<lparr>nr_match = Exact [''name'', ''first_name'', ''last_name'', ''full_name''],
       nr_confidence = Low, nr_why = ''names are personal data; mask if this identifies end users''\<rparr>,
     \<lparr>nr_match = Contains [''session'', ''cookie''],
       nr_confidence = Medium, nr_why = ''session identifiers can be replayed''\<rparr>]"

definition headerRules :: "name_rule list" where
  "headerRules = [
     \<lparr>nr_match = Contains [''authorization'', ''x-api-key'', ''x-auth'', ''token''],
       nr_confidence = High, nr_why = ''authentication headers are credentials''\<rparr>,
     \<lparr>nr_match = Contains [''cookie'', ''set-cookie''],
       nr_confidence = High, nr_why = ''cookies carry session credentials''\<rparr>,
     \<lparr>nr_match = Contains [''x-forwarded-for'', ''x-real-ip''],
       nr_confidence = Low, nr_why = ''client IPs are personal data in several jurisdictions''\<rparr>]"

definition matchRules :: "name_rule list \<Rightarrow> string \<Rightarrow> name_rule option" where
  "matchRules rules name = find (\<lambda>r. match_name (nr_match r) name) rules"

text \<open>A classification is the confidence and the reason of the first rule that matches.\<close>

definition classify :: "name_rule list \<Rightarrow> string \<Rightarrow> (string \<times> string) option" where
  "classify rules name = map_option (\<lambda>r. (nr_confidence r, nr_why r)) (matchRules rules name)"

definition ClassifyField :: "string \<Rightarrow> (string \<times> string) option" where
  "ClassifyField name = classify fieldRules name"

definition ClassifyHeader :: "string \<Rightarrow> (string \<times> string) option" where
  "ClassifyHeader name = classify headerRules name"

subsection \<open>Fields, query keys and attributes of a record\<close>

function field_walk :: "json \<Rightarrow> string \<Rightarrow> nat \<Rightarrow> string list" where
  "field_walk n prefix depth =
     (if depth > 10 then []
      else case n of
        JObj kvs \<Rightarrow> concat (map (\<lambda>(k, child).
            (prefix @ ''.'' @ k) # field_walk child (prefix @ ''.'' @ k) (Suc depth)) kvs)
      | JArr xs \<Rightarrow> concat (map (\<lambda>x. field_walk x prefix (Suc depth)) xs)
      | _ \<Rightarrow> [])"
  by pat_completeness auto
termination field_walk
  by (relation "measure (\<lambda>(_, _, depth). 11 - depth)") auto

declare field_walk.simps [simp del]

definition jsonFieldPaths :: "(string \<Rightarrow> json option) \<Rightarrow> string \<Rightarrow> string list" where
  "jsonFieldPaths unmarshal body =
     (if body = [] \<or> (hd body \<noteq> CHR ''{'' \<and> hd body \<noteq> CHR ''['') then []
      else (case unmarshal body of None \<Rightarrow> [] | Some doc \<Rightarrow> field_walk doc ''$'' 0))"

definition queryKeys :: "string \<Rightarrow> string list" where
  "queryKeys q =
     (if q = [] then []
      else concat (map (\<lambda>pair. case cut_on (CHR ''='') pair of (k, _, ok) \<Rightarrow>
             if ok \<and> k \<noteq> [] then [k] else []) (split_on (CHR ''&'') q)))"

definition attrsOfRecord :: "http_record \<Rightarrow> attrs" where
  "attrsOfRecord rec =
     \<lparr>at_Method = hr_Method rec, at_Path = hr_Path rec,
      at_Headers = (if hr_RequestHeaders rec = [] then None
        else Some (fold (\<lambda>(k, v) h. header_Set k v h) (hr_RequestHeaders rec) [])),
      at_Query = (if hr_Query rec = [] then None
        else (case ParseQuery (hr_Query rec) of (q, err) \<Rightarrow> if err then None else Some q)),
      at_Operation = [], at_Body = JNull, at_BodyKnown = False\<rparr>"

definition fieldGoverned :: "policy \<Rightarrow> string \<Rightarrow> bool" where
  "fieldGoverned p field =
     list_ex (\<lambda>path. pathCovers path (split_on (CHR ''.'') (trim_prefix field ''$.'')))
       (pol_RedactJSONPaths p)"

subsection \<open>Suggestions\<close>

record suggestion =
  su_Route :: string
  su_Kind :: string
  su_Field :: string
  su_Confidence :: string
  su_Why :: string
  su_Seen :: int
  su_AlreadyGoverned :: bool

record report =
  re_Scanned :: int
  re_Suggestions :: "suggestion list"

definition Actionable :: "report \<Rightarrow> suggestion list" where
  "Actionable r = filter (\<lambda>s. \<not> su_AlreadyGoverned s) (re_Suggestions r)"

type_synonym sighting = "string \<times> string \<times> string \<times> string \<times> string \<times> bool"
type_synonym suggestion_map = "((string \<times> string \<times> string) \<times> suggestion) list"

text \<open>The closure \<open>note\<close>: the first sighting of a field fixes everything but the count.\<close>

definition note_sighting :: "sighting \<Rightarrow> suggestion_map \<Rightarrow> suggestion_map" where
  "note_sighting n agg = (case n of (route, kind, field, confidence, why, governed) \<Rightarrow>
     let s = (case map_of agg (route, kind, field) of
                Some s \<Rightarrow> s
              | None \<Rightarrow> \<lparr>su_Route = route, su_Kind = kind, su_Field = field, su_Confidence = confidence,
                  su_Why = why, su_Seen = 0, su_AlreadyGoverned = governed\<rparr>)
     in AList.update (route, kind, field) (s\<lparr>su_Seen := su_Seen s + 1\<rparr>) agg)"

definition named :: "string \<Rightarrow> string \<Rightarrow> name_rule list \<Rightarrow> (string \<Rightarrow> bool) \<Rightarrow> string \<Rightarrow> sighting list" where
  "named route kind rules governed name =
     (case matchRules rules name of
        None \<Rightarrow> []
      | Some r \<Rightarrow> [(route, kind, name, nr_confidence r, nr_why r, governed name)])"

definition record_sightings :: "(string \<Rightarrow> json option) \<Rightarrow> policy \<Rightarrow> http_record \<Rightarrow> sighting list" where
  "record_sightings unmarshal policy rec =
     concat (map (\<lambda>body. concat (map (named (hr_Route rec) ''json_field'' fieldRules (fieldGoverned policy))
         (jsonFieldPaths unmarshal body))) [hr_RequestBody rec, hr_ResponseBody rec]) @
     (if pol_CaptureHeaders policy then
        concat (map (named (hr_Route rec) ''header'' headerRules (\<lambda>h. h \<in> set (pol_RedactHeaders policy)))
          (keys (hr_RequestHeaders rec)))
      else []) @
     concat (map (named (hr_Route rec) ''query_param'' (fieldRules @ headerRules)
         (\<lambda>q. to_lower q \<in> set (pol_RedactQuery policy)))
       (queryKeys (hr_Query rec)))"

definition confidence_rank :: "string \<Rightarrow> nat" where
  "confidence_rank c = (if c = Medium then 1 else if c = Low then 2 else 0)"

definition Records :: "(string \<Rightarrow> json option) \<Rightarrow> http_record list \<Rightarrow> engine \<Rightarrow> report" where
  "Records unmarshal records eng =
     (let agg = fold (\<lambda>rec agg. fold note_sighting
                  (record_sightings unmarshal (evaluate eng (attrsOfRecord rec)) rec) agg) records [];
          out = map snd agg
      in \<lparr>re_Scanned = int (length records),
          re_Suggestions = sort_key (\<lambda>s. confidence_rank (su_Confidence s))
            (sort_key su_Route (sort_key su_Field out))\<rparr>)"

subsection \<open>Rule blocks\<close>

definition split_step :: "suggestion \<Rightarrow> (string list \<times> (string list \<times> string list \<times> string list)) \<Rightarrow>
    (string list \<times> (string list \<times> string list \<times> string list))" where
  "split_step s acc = (case acc of (seen, fs, hs, qs) \<Rightarrow>
     if su_Kind s @ su_Field s \<in> set seen then acc
     else (List.insert (su_Kind s @ su_Field s) seen,
           if su_Kind s = ''header'' then (fs, hs @ [su_Field s], qs)
           else if su_Kind s = ''query_param'' then (fs, hs, qs @ [su_Field s])
           else (fs @ [su_Field s], hs, qs)))"

definition split_suggestions :: "suggestion list \<Rightarrow> string list \<times> string list \<times> string list" where
  "split_suggestions ss =
     (case fold split_step ss ([], [], [], []) of
        (_, fs, hs, qs) \<Rightarrow> (sort fs, sort hs, sort qs))"

text \<open>\<open>strings.ReplaceAll (s, "--", "-")\<close>, and the loop that repeats it while a double dash is left.\<close>

fun single_dashes :: "string \<Rightarrow> string" where
  "single_dashes (a # b # s) =
     (if a = CHR ''-'' \<and> b = CHR ''-'' then CHR ''-'' # single_dashes s else a # single_dashes (b # s))"
| "single_dashes s = s"

lemma single_dashes_le: "length (single_dashes s) \<le> length s"
  by (induction s rule: single_dashes.induct) auto

lemma single_dashes_less: "contains s ''--'' \<Longrightarrow> length (single_dashes s) < length s"
proof (induction s rule: single_dashes.induct)
  case (1 a b s)
  then show ?case
    using single_dashes_le [of s] by (auto simp: has_prefix_def)
qed (auto simp: has_prefix_def)

function collapse_dashes :: "string \<Rightarrow> string" where
  "collapse_dashes s = (if contains s ''--'' then collapse_dashes (single_dashes s) else s)"
  by pat_completeness auto
termination collapse_dashes
  by (relation "measure length") (auto simp: single_dashes_less)

declare collapse_dashes.simps [simp del]

definition slug_char :: "char \<Rightarrow> char" where
  "slug_char c =
     (if is_lower c \<or> is_digit c then c
      else if is_upper c then lower_char c
      else CHR ''-'')"

definition slug :: "string \<Rightarrow> string" where
  "slug route =
     (let s = trim (\<lambda>c. c = CHR ''-'') (collapse_dashes (map slug_char route))
      in if s = [] then ''route'' else s)"

definition newline :: string where "newline = [CHR 0x0A]"

definition route_block :: "suggestion list \<Rightarrow> string \<Rightarrow> string" where
  "route_block actionable route =
     (case split_suggestions (filter (\<lambda>s. su_Route s = route) actionable) of (fs, hs, qs) \<Rightarrow>
        newline @ ''  - name: govern-'' @ slug route @ newline @
        ''    match:'' @ newline @ ''      path: '' @ go_quote route @ newline @
        ''    redact:'' @ newline @
        (if hs \<noteq> [] then ''      headers: ['' @ join '', '' hs @ '']'' @ newline else []) @
        (if qs \<noteq> [] then ''      query_params: ['' @ join '', '' qs @ '']'' @ newline else []) @
        (if fs \<noteq> [] then ''      json_fields:'' @ newline @
           concat (map (\<lambda>f. ''        - '' @ go_quote f @ newline) fs) else []))"

definition YAML :: "report \<Rightarrow> string" where
  "YAML r =
     (let actionable = Actionable r; routes = sort (remdups (map su_Route actionable))
      in if actionable = [] then []
         else ''# Proposed by `optictrace suggest` '' @ map char_of [226, 128, 148 :: nat] @
              '' review before committing.'' @ newline @
              ''# These are NAME-based heuristics; pair them with `optictrace scan`,'' @ newline @
              ''# which inspects values, for the other half of the coverage.'' @ newline @
              concat (map (route_block actionable) routes))"

subsection \<open>Heuristics ignore case\<close>

lemma matchRules_fold: "matchRules rules (to_lower name) = matchRules rules name"
proof -
  have "match_name m (to_lower name) = match_name m name" for m
    by (cases m) (simp_all add: Let_def)
  then show ?thesis by (simp add: matchRules_def)
qed

lemma ClassifyField_fold: "ClassifyField (to_lower name) = ClassifyField name"
  by (simp add: ClassifyField_def classify_def matchRules_fold)

subsection \<open>Every field is looked at\<close>

definition field_name :: "string list \<Rightarrow> string" where
  "field_name ks = concat (map (\<lambda>k. CHR ''.'' # k) ks)"

lemma field_name_simps [simp]: "field_name [] = []" "field_name (k # ks) = CHR ''.'' # k @ field_name ks"
  by (simp_all add: field_name_def)

lemma field_walk_sound:
  "f \<in> set (field_walk n prefix depth) \<Longrightarrow> \<exists>ks. ks \<noteq> [] \<and> f = prefix @ field_name ks \<and> values_at n ks \<noteq> []"
proof (induction n prefix depth rule: field_walk.induct)
  case (1 n prefix depth)
  show ?case
  proof (cases "depth > 10")
    case True
    then show ?thesis using "1.prems" by (simp add: field_walk.simps [of n prefix depth])
  next
    case False
    show ?thesis
    proof (cases n)
      case (JObj kvs)
      then obtain k child where kc: "(k, child) \<in> set kvs"
        and f: "f = prefix @ ''.'' @ k \<or> f \<in> set (field_walk child (prefix @ ''.'' @ k) (Suc depth))"
        using "1.prems" False by (auto simp: field_walk.simps [of "JObj kvs" prefix depth])
      from f show ?thesis
      proof
        assume f: "f = prefix @ ''.'' @ k"
        have "values_at n [k] \<noteq> []"
          using kc JObj by force
        with f show ?thesis
          by (intro exI [of _ "[k]"]) simp
      next
        assume "f \<in> set (field_walk child (prefix @ ''.'' @ k) (Suc depth))"
        then obtain ks where ks: "ks \<noteq> []" "f = (prefix @ ''.'' @ k) @ field_name ks" "values_at child ks \<noteq> []"
          using "1.IH"(2) [OF False JObj kc refl] by auto
        have "values_at n (k # ks) \<noteq> []"
          using kc ks(3) JObj by force
        with ks show ?thesis
          by (intro exI [of _ "k # ks"]) simp
      qed
    next
      case (JArr xs)
      then obtain x where x: "x \<in> set xs" "f \<in> set (field_walk x prefix (Suc depth))"
        using "1.prems" False by (auto simp: field_walk.simps [of "JArr xs" prefix depth])
      then obtain ks where ks: "ks \<noteq> []" "f = prefix @ field_name ks" "values_at x ks \<noteq> []"
        using "1.IH"(1) [OF False JArr x(1)] by auto
      then obtain k ks' where "ks = k # ks'" by (cases ks) auto
      then have "values_at n ks \<noteq> []"
        using ks(3) x(1) JArr by auto
      with ks show ?thesis by blast
    qed (use "1.prems" False in \<open>simp_all add: field_walk.simps [of _ prefix depth]\<close>)
  qed
qed

lemma field_walk_complete:
  "jdepth n + depth \<le> 11 \<Longrightarrow> ks \<noteq> [] \<Longrightarrow> values_at n ks \<noteq> [] \<Longrightarrow>
     prefix @ field_name ks \<in> set (field_walk n prefix depth)"
proof (induction n prefix depth arbitrary: ks rule: field_walk.induct)
  case (1 n prefix depth)
  obtain k ks' where ks: "ks = k # ks'"
    using "1.prems"(2) by (cases ks) auto
  have shallow: "\<not> depth > 10" if "jdepth n > 0"
    using "1.prems"(1) that by simp
  show ?case
  proof (cases n)
    case (JObj kvs)
    then have "jdepth n > 0" by simp
    note d = shallow [OF this]
    obtain child where child: "(k, child) \<in> set kvs" "values_at child ks' \<noteq> []"
      using "1.prems"(3) JObj ks by (auto split: if_splits)
    have "(prefix @ ''.'' @ k) @ field_name ks' \<in> set (field_walk child (prefix @ ''.'' @ k) (Suc depth))" if "ks' \<noteq> []"
      using "1.IH"(2) [OF d JObj child(1) refl _ that child(2)] jdepth_member [OF child(1)] "1.prems"(1) JObj by simp
    then show ?thesis
      using d JObj child(1) ks
      by (subst field_walk.simps) (cases "ks' = []"; force)
  next
    case (JArr xs)
    then have "jdepth n > 0" by simp
    note d = shallow [OF this]
    obtain x where x: "x \<in> set xs" "values_at x ks \<noteq> []"
      using "1.prems"(3) JArr ks by auto
    have "prefix @ field_name ks \<in> set (field_walk x prefix (Suc depth))"
      using "1.IH"(1) [OF d JArr x(1) _ "1.prems"(2) x(2)] jdepth_elem [OF x(1)] "1.prems"(1) JArr by simp
    then show ?thesis
      using d JArr x(1) by (subst field_walk.simps) auto
  qed (use "1.prems"(3) ks in auto)
qed

text \<open>
  The fields a suggestion run looks at are exactly the dotted names under which a body has a value,
  for bodies nested at most eleven levels deep.
\<close>

theorem jsonFieldPaths_complete:
  assumes "json_body u body = Some doc" and "jdepth doc \<le> 11"
  shows "f \<in> set (jsonFieldPaths u body) \<longleftrightarrow>
    (\<exists>ks. ks \<noteq> [] \<and> f = ''$'' @ field_name ks \<and> values_at doc ks \<noteq> [])"
proof -
  have "jsonFieldPaths u body = field_walk doc ''$'' 0"
    using assms(1) by (auto simp: jsonFieldPaths_def json_body_def split: if_splits)
  then show ?thesis
    using field_walk_sound [of f doc "''$''" 0] field_walk_complete [of doc 0 _ "''$''"] assms(2) by auto
qed

theorem jsonFieldPaths_complete_witness:
  "''$.user.pan'' \<in> set (jsonFieldPaths (\<lambda>_. Some (JObj [(''user'', JArr [JObj [(''pan'', JNull)]])])) ''{}'')"
proof -
  let ?doc = "JObj [(''user'', JArr [JObj [(''pan'', JNull)]])]"
  have "json_body (\<lambda>_. Some ?doc) ''{}'' = Some ?doc" "jdepth ?doc \<le> 11"
    by code_simp+
  from jsonFieldPaths_complete [OF this] show ?thesis
    by (simp add: exI [of _ "[''user'', ''pan'']"])
qed

subsection \<open>What counts as governed is masked\<close>

lemma pathCovers_refl: "pathCovers ks ks"
proof (induction ks)
  case (Cons k ks)
  show ?case
  proof (cases "k = ''**''")
    case True
    have "pathCovers (''**'' # ks) (k # ks)" if "ks \<noteq> []"
      using that Cons.IH unfolding pathCovers_star [OF that] by (intro exI [of _ 1]) simp
    then show ?thesis
      using True by (cases "ks = []") (simp_all add: pathCovers.simps(2))
  next
    case False
    then show ?thesis
      using Cons.IH by (simp add: pathCovers_Cons)
  qed
qed simp

lemma field_name_split:
  assumes "ks \<noteq> []" and "\<forall>k \<in> set ks. CHR ''.'' \<notin> set k"
  shows "split_on (CHR ''.'') (trim_prefix (''$'' @ field_name ks) ''$.'') = ks"
proof -
  have "field_name ks = CHR ''.'' # join ''.'' ks"
    using assms(1)
  proof (induction ks)
    case (Cons k ks)
    then show ?case by (cases ks) simp_all
  qed simp
  then have "trim_prefix (''$'' @ field_name ks) ''$.'' = join ''.'' ks"
    using trim_prefix_append [of "''$.''" "join ''.'' ks"] by simp
  then show ?thesis
    using split_on_join [OF assms] by simp
qed

lemma RedactJSONBody_masks:
  assumes "RedactJSONBody jc p body = (out, True)" and "body \<noteq> []"
    and "path \<in> set (pol_RedactJSONPaths p)" "path \<noteq> []" "last path \<noteq> ''**''" "pathCovers path ks"
  obtains doc where "jc_marshal jc doc = Some out" "masked_at doc ks"
proof -
  have "pol_RedactJSONPaths p \<noteq> []"
    using assms(3) by auto
  with assms(1,2) obtain doc where
    out: "jc_marshal jc (fold (\<lambda>path d. redactPath d path) (pol_RedactJSONPaths p) doc) = Some out"
    by (auto simp: RedactJSONBody_def split: option.splits)
  show ?thesis
    by (rule that [OF out]) (rule fold_redact_masks [OF assms(3-6)])
qed

text \<open>
  A field the report calls governed is stored as the placeholder, provided no member name on its way
  contains a dot and no rule path ends in \<open>**\<close>; and a path taken over from a suggestion governs the
  suggested field.
\<close>

theorem governed_is_masked:
  assumes "RedactJSONBody jc p body = (out, True)" and "body \<noteq> []"
    and "list_all (\<lambda>path. path \<noteq> [] \<and> last path \<noteq> ''**'') (pol_RedactJSONPaths p)"
    and "ks \<noteq> []" and "list_all (\<lambda>k. CHR ''.'' \<notin> set k) ks"
    and "fieldGoverned p (''$'' @ field_name ks)"
  shows "\<exists>doc. jc_marshal jc doc = Some out \<and> masked_at doc ks"
proof -
  obtain path where path: "path \<in> set (pol_RedactJSONPaths p)" "pathCovers path ks"
    using assms(4-6) field_name_split [of ks] by (auto simp: fieldGoverned_def list_ex_iff list_all_iff)
  then have "path \<noteq> []" "last path \<noteq> ''**''"
    using assms(3) by (auto simp: list_all_iff)
  then obtain doc where "jc_marshal jc doc = Some out" "masked_at doc ks"
    using RedactJSONBody_masks [OF assms(1,2) path(1) _ _ path(2)] by blast
  then show ?thesis by blast
qed

theorem governed_is_masked_witness:
  "\<exists>doc. jc_marshal sample_codec doc = Some RedactedPlaceholder \<and> masked_at doc [''card'', ''number'']"
proof -
  let ?p = "evaluate (engine_New sample_env sample_loaded) sample_attrs"
  have "RedactJSONBody sample_codec ?p ''{}'' = (RedactedPlaceholder, True)"
    and paths: "pol_RedactJSONPaths ?p = [[''card'', ''number'']]"
    by code_simp+
  moreover have "fieldGoverned ?p (''$'' @ field_name [''card'', ''number''])"
    unfolding fieldGoverned_def paths by code_simp
  ultimately show ?thesis
    using governed_is_masked [of sample_codec ?p "''{}''" RedactedPlaceholder "[''card'', ''number'']"] by simp
qed

text \<open>Adopting a suggested path closes the gap it reports: the next run calls the field governed.\<close>

theorem suggested_path_governs:
  assumes "SplitJSONPath field \<in> set (pol_RedactJSONPaths p)"
  shows "fieldGoverned p field"
  using assms pathCovers_refl by (auto simp: fieldGoverned_def SplitJSONPath_def list_ex_iff)

theorem suggested_path_governs_witness:
  "fieldGoverned (evaluate (engine_New sample_env sample_loaded) sample_attrs) ''$.card.number''"
proof (rule suggested_path_governs)
  show "SplitJSONPath ''$.card.number'' \<in>
      set (pol_RedactJSONPaths (evaluate (engine_New sample_env sample_loaded) sample_attrs))"
    by code_simp
qed

text \<open>
  A member whose name contains a dot reads as two segments: the report calls it governed, and the
  redaction, which compares whole names, leaves its value in clear.
\<close>

lemma dotted_member_governed_in_clear:
  "let p = (evaluate (engine_New sample_env sample_loaded) sample_attrs);
       doc = JObj [(''card.number'', JStr ''4111'')]
   in field_walk doc ''$'' 0 = [''$.card.number''] \<and> fieldGoverned p ''$.card.number'' \<and>
      fold (\<lambda>path d. redactPath d path) (pol_RedactJSONPaths p) doc = doc"
  by code_simp

subsection \<open>Counting sightings\<close>

definition sighting_key :: "sighting \<Rightarrow> string \<times> string \<times> string" where
  "sighting_key n = (case n of (route, kind, field, _) \<Rightarrow> (route, kind, field))"

definition suggested_by :: "sighting \<Rightarrow> suggestion" where
  "suggested_by n = (case n of (route, kind, field, confidence, why, governed) \<Rightarrow>
     \<lparr>su_Route = route, su_Kind = kind, su_Field = field, su_Confidence = confidence, su_Why = why,
      su_Seen = 1, su_AlreadyGoverned = governed\<rparr>)"

definition seen_again :: "sighting \<Rightarrow> suggestion \<Rightarrow> suggestion" where
  "seen_again n s = s\<lparr>su_Seen := su_Seen s + 1\<rparr>"

interpretation suggesting: tally sighting_key suggested_by seen_again note_sighting
  by (rule tally_update)
     (auto simp: note_sighting_def sighting_key_def suggested_by_def seen_again_def Let_def
       split: prod.split option.split)

lemma fold_seen_again: "fold seen_again ns s = s\<lparr>su_Seen := su_Seen s + int (length ns)\<rparr>"
  by (induction ns arbitrary: s) (simp_all add: seen_again_def)

definition sightings :: "(string \<Rightarrow> json option) \<Rightarrow> engine \<Rightarrow> http_record list \<Rightarrow> sighting list" where
  "sightings unmarshal eng records =
     concat (map (\<lambda>rec. record_sightings unmarshal (evaluate eng (attrsOfRecord rec)) rec) records)"

lemma fold_concat: "fold f (concat xss) a = fold (\<lambda>xs. fold f xs) xss a"
  by (induction xss arbitrary: a) simp_all

text \<open>
  The report has one suggestion per route, kind and name that was sighted, with the number of its
  sightings and the governance of the first of them, and lists the surest ones first.
\<close>

theorem Records_correct:
  "(s \<in> set (re_Suggestions (Records u rs eng)) \<longleftrightarrow>
     (\<exists>k n ns. filter (\<lambda>n. sighting_key n = k) (sightings u eng rs) = n # ns \<and>
        s = (suggested_by n)\<lparr>su_Seen := int (length (n # ns))\<rparr>)) \<and>
   sorted (map (\<lambda>s. confidence_rank (su_Confidence s)) (re_Suggestions (Records u rs eng)))"
proof -
  define agg where "agg = fold note_sighting (sightings u eng rs) []"
  have records: "re_Suggestions (Records u rs eng) = sort_key (\<lambda>s. confidence_rank (su_Confidence s))
      (sort_key su_Route (sort_key su_Field (map snd agg)))"
    by (simp add: Records_def agg_def sightings_def fold_concat fold_map comp_def Let_def)
  have one: "summarise suggested_by seen_again ns = Some s \<longleftrightarrow>
      (\<exists>m ms. ns = m # ms \<and> s = (suggested_by m)\<lparr>su_Seen := int (length (m # ms))\<rparr>)" for ns
    by (cases ns) (auto simp: fold_seen_again suggested_by_def split: prod.splits)
  have "s \<in> set (re_Suggestions (Records u rs eng)) \<longleftrightarrow>
     (\<exists>k n ns. filter (\<lambda>n. sighting_key n = k) (sightings u eng rs) = n # ns \<and>
        s = (suggested_by n)\<lparr>su_Seen := int (length (n # ns))\<rparr>)"
    unfolding records by (simp add: agg_def suggesting.entries one del: split_paired_Ex)
  moreover have "sorted (map (\<lambda>s. confidence_rank (su_Confidence s)) (re_Suggestions (Records u rs eng)))"
    unfolding records by simp
  ultimately show ?thesis by blast
qed

subsection \<open>Slugs\<close>

lemma collapse_dashes_set: "set (collapse_dashes s) \<subseteq> insert (CHR ''-'') (set s) \<and> \<not> contains (collapse_dashes s) ''--''"
proof (induction s rule: collapse_dashes.induct)
  case (1 s)
  have "set (single_dashes s) \<subseteq> insert (CHR ''-'') (set s)"
    by (induction s rule: single_dashes.induct) auto
  then show ?case
    using 1 by (subst (1 2) collapse_dashes.simps) auto
qed

lemma trim_infix: "\<exists>a b. s = a @ trim p s @ b"
proof -
  define u where "u = dropWhile p s"
  have "s = takeWhile p s @ u"
    by (simp add: u_def)
  moreover have "u = rev (dropWhile p (rev u)) @ rev (takeWhile p (rev u))"
    by (metis rev_append rev_rev_ident takeWhile_dropWhile_id)
  ultimately show ?thesis
    unfolding trim_def trim_left_def trim_right_def u_def [symmetric] by metis
qed

text \<open>
  The name of a generated rule block is never empty, uses lower-case letters, digits and single
  dashes only, and neither starts nor ends with a dash; the loop that collapses dashes ends.
\<close>

theorem slug_plain:
  "slug route \<noteq> [] \<and> list_all (\<lambda>c. is_lower c \<or> is_digit c \<or> c = CHR ''-'') (slug route) \<and>
   hd (slug route) \<noteq> CHR ''-'' \<and> last (slug route) \<noteq> CHR ''-'' \<and> \<not> contains (slug route) ''--''"
proof -
  define d where "d = collapse_dashes (map slug_char route)"
  define s where "s = trim (\<lambda>c. c = CHR ''-'') d"
  have slug: "slug route = (if s = [] then ''route'' else s)"
    by (simp add: slug_def s_def d_def)
  have "is_lower (slug_char c) \<or> is_digit (slug_char c) \<or> slug_char c = CHR ''-''" for c
    by (auto simp: slug_char_def is_upper_def is_lower_def lower_char_def)
  then have chars: "\<forall>c \<in> set s. is_lower c \<or> is_digit c \<or> c = CHR ''-''"
    using set_trim [of "\<lambda>c. c = CHR ''-''" d] collapse_dashes_set [of "map slug_char route"]
    by (fastforce simp: s_def d_def)
  obtain a b where "d = a @ s @ b"
    using trim_infix [of d "\<lambda>c. c = CHR ''-''"] unfolding s_def by blast
  then have single: "\<not> contains s ''--''"
    using collapse_dashes_set [of "map slug_char route"] contains_append [of s "''--''" a b] by (auto simp: d_def)
  have ends: "s = [] \<or> hd s \<noteq> CHR ''-'' \<and> last s \<noteq> CHR ''-''"
    using trim_cases [of "\<lambda>c. c = CHR ''-''" d] by (simp add: s_def)
  show ?thesis
  proof (cases "s = []")
    case True
    have "list_all (\<lambda>c. is_lower c \<or> is_digit c \<or> c = CHR ''-'') ''route''" "\<not> contains ''route'' ''--''"
      by code_simp+
    with True show ?thesis by (simp add: slug)
  next
    case False
    then show ?thesis using chars single ends by (simp add: slug list_all_iff)
  qed
qed

subsection \<open>The first sighting decides\<close>

text \<open>
  Two rules share a path pattern, one of them masks the card number of \<open>POST\<close> bodies.  The card number
  of a \<open>PUT\<close> is stored in clear, and once a \<open>POST\<close> has been read the run no longer proposes to mask it:
  the suggestion keeps the \<open>already_governed\<close> of the first sighting.
\<close>

definition two_rules :: engine where
  "two_rules = engine_New sample_env (sample_loaded\<lparr>c_Rules := c_Rules sample_loaded @
     [empty_rule\<lparr>r_Name := ''writes'', r_Match := empty_match\<lparr>m_Path := ''/api/v1/payments/**''\<rparr>\<rparr>]\<rparr>)"

definition payment :: "string \<Rightarrow> http_record" where
  "payment verb = (sample_request ''/api/v1/payments/42'' [] ''{}'')\<lparr>hr_Method := verb, hr_Route := ''/api/v1/payments/**''\<rparr>"

definition payment_unmarshal :: "string \<Rightarrow> json option" where
  "payment_unmarshal s = Some (JObj [(''card'', JObj [(''number'', JStr ''4111'')])])"

lemma ungoverned_sighting_hidden:
  "map su_Field (Actionable (Records payment_unmarshal [payment ''PUT''] two_rules)) = [''$.card.number'']"
  "Actionable (Records payment_unmarshal [payment ''POST'', payment ''PUT''] two_rules) = []"
  by code_simp+

end
