(* ===== verification/Scanner.thy ===== *)
theory Scanner
  imports Suggest ScanDetect AppLog Spans
begin

text \<open>
  The leak scanner (\<open>internal/scan/scan.go\<close>): the values it visits in a record, an application log
  line and an inner span, the findings it groups them into and the report.  A detector that panics
  makes the call panic, which is \<open>None\<close>.
\<close>

subsection \<open>The state\<close>

record scan_finding =
  sf_Kind :: string
  sf_Severity :: string
  sf_Why :: string
  sf_Method :: string
  sf_Route :: string
  sf_Location :: string
  sf_Field :: string
  sf_Count :: int
  sf_FirstAt :: int
  sf_LastAt :: int
  sf_Sample :: string
  sf_Suggest :: string

type_synonym scan_key = "string \<times> string \<times> string \<times> string \<times> string"

record scanner =
  sn_linesScanned :: int
  sn_spansScanned :: int
  sn_agg :: "(scan_key \<times> scan_finding) list"
  sn_scanned :: int
  sn_since :: int
  sn_detectors :: "detector list"

definition NewScannerWith :: "int \<Rightarrow> detector list \<Rightarrow> scanner" where
  "NewScannerWith since custom =
     \<lparr>sn_linesScanned = 0, sn_spansScanned = 0, sn_agg = [], sn_scanned = 0, sn_since = since,
      sn_detectors = (if custom = [] then Detectors else Detectors @ custom)\<rparr>"

definition NewScanner :: "int \<Rightarrow> scanner" where
  "NewScanner since = NewScannerWith since []"

subsection \<open>Suggested fixes\<close>

definition nl :: string where "nl = [CHR 0x0A]"

definition suggestSpanAttr :: "string \<Rightarrow> string" where
  "suggestSpanAttr field =
     (if field = ''error''
      then ''telemetry:'' @ nl @ ''  spans:'' @ nl @ ''    redact:'' @ nl @
        ''      patterns: ['' @ [CHR 0x27] @ ''<a regex matching this value>'' @ [CHR 0x27] @ '']''
      else ''telemetry:'' @ nl @ ''  spans:'' @ nl @ ''    redact:'' @ nl @ ''      fields: ['' @ field @ '']'')"

definition suggestAppLog :: "string \<Rightarrow> string" where
  "suggestAppLog field =
     (if field = ''message''
      then ''telemetry:'' @ nl @ ''  app_logs:'' @ nl @ ''    redact:'' @ nl @
        ''      patterns: ['' @ [CHR 0x27] @ ''<a regex matching this value>'' @ [CHR 0x27] @ '']''
      else ''telemetry:'' @ nl @ ''  app_logs:'' @ nl @ ''    redact:'' @ nl @ ''      fields: ['' @ field @ '']'')"

definition suggest_fix :: "string \<Rightarrow> string \<Rightarrow> string" where
  "suggest_fix location field =
     (if location = ''query'' then ''redact:'' @ nl @ ''  query_params: ['' @ field @ '']''
      else if location = ''request_headers'' \<or> location = ''response_headers''
      then ''redact:'' @ nl @ ''  headers: ['' @ field @ '']''
      else if field = ''(raw)'' then ''restrict: ['' @ trim_suffix location ''_body'' @ ''_body]''
      else ''redact:'' @ nl @ ''  json_fields: ['' @ go_quote field @ '']'')"

subsection \<open>Values\<close>

text \<open>\<open>%v\<close> of a float64: shortest digits, an exponent below \<open>1e-4\<close> and from \<open>1e21\<close> on.\<close>

fun decimal_exp :: "nat \<Rightarrow> rat \<Rightarrow> int" where
  "decimal_exp 0 q = 0"
| "decimal_exp (Suc n) q =
     (if q \<ge> 10 then decimal_exp n (q / 10) + 1
      else if q < 1 then decimal_exp n (q * 10) - 1
      else 0)"

definition exp_digits :: "int \<Rightarrow> string" where
  "exp_digits e = (if e < 10 then ''0'' @ itoa e else itoa e)"

definition format_v :: "rat \<Rightarrow> string" where
  "format_v q =
     (let e = decimal_exp 400 \<bar>q\<bar>
      in if q \<noteq> 0 \<and> (e < - 4 \<or> e \<ge> 21)
         then (if q < 0 then ''-'' else []) @
              format_float (if e < 0 then \<bar>q\<bar> * 10 ^ nat (- e) else \<bar>q\<bar> / 10 ^ nat e) @
              (if e < 0 then ''e-'' else ''e+'') @ exp_digits \<bar>e\<bar>
         else format_float q)"

definition formatNumber :: "rat \<Rightarrow> string" where
  "formatNumber q =
     (if q = of_int \<lfloor>q\<rfloor> \<and> \<bar>q\<bar> < 2 ^ 63 then itoa \<lfloor>q\<rfloor> else format_v q)"

function scan_walk :: "json \<Rightarrow> string \<Rightarrow> nat \<Rightarrow> (string \<times> string) list" where
  "scan_walk node path depth =
     (if depth > 12 then []
      else case node of
        JObj kvs \<Rightarrow> concat (map (\<lambda>(k, child). scan_walk child (path @ ''.'' @ k) (Suc depth)) kvs)
      | JArr xs \<Rightarrow> concat (map (\<lambda>x. scan_walk x path (Suc depth)) xs)
      | JStr s \<Rightarrow> [(path, s)]
      | JNum n \<Rightarrow> [(path, formatNumber n)]
      | _ \<Rightarrow> [])"
  by pat_completeness auto
termination scan_walk
  by (relation "measure (\<lambda>(_, _, depth). 13 - depth)") auto

declare scan_walk.simps [simp del]

definition scanBody :: "(string \<Rightarrow> json option) \<Rightarrow> string \<Rightarrow> (string \<times> string) list" where
  "scanBody unmarshal body =
     (if body = [] then []
      else (case unmarshal body of
              None \<Rightarrow> [(''(raw)'', body)]
            | Some doc \<Rightarrow> scan_walk doc ''$'' 0))"

subsection \<open>Findings\<close>

text \<open>One visit of a value: what it is grouped by, when it was seen, and the fix to suggest.\<close>

record visit =
  vi_Method :: string
  vi_Route :: string
  vi_Location :: string
  vi_Field :: string
  vi_Value :: string
  vi_Time :: int
  vi_Suggest :: string

type_synonym hit = "visit \<times> match"

definition hit_key :: "hit \<Rightarrow> scan_key" where
  "hit_key h = (case h of (v, m) \<Rightarrow>
     (mt_Kind m, vi_Method v, vi_Route v, vi_Location v, vi_Field v))"

text \<open>The closure \<open>record\<close> of the three operations, on one match.\<close>

definition record_hit :: "hit \<Rightarrow> (scan_key \<times> scan_finding) list \<Rightarrow> (scan_key \<times> scan_finding) list" where
  "record_hit h agg = (case h of (v, m) \<Rightarrow>
     let f = (case map_of agg (hit_key h) of
           Some f \<Rightarrow> f
         | None \<Rightarrow> \<lparr>sf_Kind = mt_Kind m, sf_Severity = mt_Severity m, sf_Why = mt_Why m,
             sf_Method = vi_Method v, sf_Route = vi_Route v, sf_Location = vi_Location v,
             sf_Field = vi_Field v, sf_Count = 0, sf_FirstAt = vi_Time v, sf_LastAt = 0,
             sf_Sample = mt_Masked m, sf_Suggest = vi_Suggest v\<rparr>)
     in AList.update (hit_key h)
          (f\<lparr>sf_Count := sf_Count f + 1,
             sf_FirstAt := (if vi_Time v < sf_FirstAt f then vi_Time v else sf_FirstAt f),
             sf_LastAt := (if vi_Time v > sf_LastAt f then vi_Time v else sf_LastAt f)\<rparr>) agg)"

fun hits_of :: "detector list \<Rightarrow> visit list \<Rightarrow> hit list option" where
  "hits_of dets [] = Some []"
| "hits_of dets (v # vs) =
     (case FindWith dets (vi_Value v) of
        None \<Rightarrow> None
      | Some ms \<Rightarrow>
          (case hits_of dets vs of
             None \<Rightarrow> None
           | Some hs \<Rightarrow> Some (map (Pair v) ms @ hs)))"

definition scan_visits :: "visit list \<Rightarrow> scanner \<Rightarrow> scanner option" where
  "scan_visits vs s =
     (case hits_of (sn_detectors s) vs of
        None \<Rightarrow> None
      | Some hs \<Rightarrow> Some (s\<lparr>sn_agg := fold record_hit hs (sn_agg s)\<rparr>))"

definition record_visit :: "http_record \<Rightarrow> string \<Rightarrow> string \<times> string \<Rightarrow> visit" where
  "record_visit rec location fv =
     \<lparr>vi_Method = hr_Method rec, vi_Route = hr_Route rec, vi_Location = location, vi_Field = fst fv,
      vi_Value = snd fv, vi_Time = hr_Time rec, vi_Suggest = suggest_fix location (fst fv)\<rparr>"

definition query_pairs :: "string \<Rightarrow> (string \<times> string) list" where
  "query_pairs q =
     (if q = [] then []
      else (case ParseQuery q of (vals, err) \<Rightarrow>
        if err then [] else concat (map (\<lambda>(name, vs). map (Pair name) vs) vals)))"

definition record_visits :: "(string \<Rightarrow> json option) \<Rightarrow> http_record \<Rightarrow> visit list" where
  "record_visits unmarshal rec =
     map (record_visit rec ''request_body'') (scanBody unmarshal (hr_RequestBody rec)) @
     map (record_visit rec ''response_body'') (scanBody unmarshal (hr_ResponseBody rec)) @
     map (record_visit rec ''query'') (query_pairs (hr_Query rec)) @
     map (record_visit rec ''request_headers'') (hr_RequestHeaders rec) @
     map (record_visit rec ''response_headers'') (hr_ResponseHeaders rec)"

definition scanner_Add :: "(string \<Rightarrow> json option) \<Rightarrow> http_record \<Rightarrow> scanner \<Rightarrow> scanner option" where
  "scanner_Add unmarshal rec s =
     scan_visits (record_visits unmarshal rec) (s\<lparr>sn_scanned := sn_scanned s + 1\<rparr>)"

definition log_visits :: "app_log \<Rightarrow> visit list" where
  "log_visits l =
     map (\<lambda>(field, value). \<lparr>vi_Method = l_Service l, vi_Route = ''log:'' @ l_Level l,
         vi_Location = ''app_log'', vi_Field = field, vi_Value = value, vi_Time = l_Time l,
         vi_Suggest = suggestAppLog field\<rparr>)
       ((''message'', l_Message l) # l_Fields l)"

definition AddAppLog :: "app_log \<Rightarrow> scanner \<Rightarrow> scanner option" where
  "AddAppLog l s = scan_visits (log_visits l) (s\<lparr>sn_linesScanned := sn_linesScanned s + 1\<rparr>)"

definition span_visits :: "span \<Rightarrow> visit list" where
  "span_visits sp =
     map (\<lambda>(field, value). \<lparr>vi_Method = s_Service sp, vi_Route = ''span:'' @ s_Name sp,
         vi_Location = ''span_attr'', vi_Field = field, vi_Value = value, vi_Time = s_Start sp,
         vi_Suggest = suggestSpanAttr field\<rparr>)
       (s_Attrs sp @ [(''error'', s_Error sp)])"

definition AddSpan :: "span \<Rightarrow> scanner \<Rightarrow> scanner option" where
  "AddSpan sp s = scan_visits (span_visits sp) (s\<lparr>sn_spansScanned := sn_spansScanned s + 1\<rparr>)"

subsection \<open>The report\<close>

record scan_report =
  sr_Scanned :: int
  sr_LinesScanned :: int
  sr_SpansScanned :: int
  sr_Since :: int
  sr_Findings :: "scan_finding list"

definition severity_rank :: "string \<Rightarrow> nat" where
  "severity_rank sev = (if sev = SevHigh then 1 else if sev = SevMedium then 2 else 0)"

definition scanner_Report :: "scanner \<Rightarrow> scan_report" where
  "scanner_Report s =
     \<lparr>sr_Scanned = sn_scanned s, sr_LinesScanned = sn_linesScanned s, sr_SpansScanned = sn_spansScanned s,
      sr_Since = sn_since s,
      sr_Findings = sort_key (\<lambda>f. severity_rank (sf_Severity f))
        (sort_key (\<lambda>f. - sf_Count f) (sort_key sf_Field (map snd (sn_agg s))))\<rparr>"

definition count_severity :: "string \<Rightarrow> scan_finding list \<Rightarrow> int" where
  "count_severity sev fs = int (length (filter (\<lambda>f. sf_Severity f = sev) fs))"

definition Counts :: "scan_report \<Rightarrow> int \<times> int \<times> int" where
  "Counts r = (count_severity SevCritical (sr_Findings r), count_severity SevHigh (sr_Findings r),
     count_severity SevMedium (sr_Findings r))"

definition gate_rank :: "string \<Rightarrow> nat" where
  "gate_rank sev = (if sev = SevMedium then 1 else if sev = SevHigh then 2 else if sev = SevCritical then 3 else 0)"

definition HasAtLeast :: "scan_report \<Rightarrow> string \<Rightarrow> bool" where
  "HasAtLeast r sev \<longleftrightarrow> list_ex (\<lambda>f. gate_rank (sf_Severity f) \<ge> gate_rank sev) (sr_Findings r)"

fun add_records :: "(string \<Rightarrow> json option) \<Rightarrow> http_record list \<Rightarrow> scanner \<Rightarrow> scanner option" where
  "add_records unmarshal [] s = Some s"
| "add_records unmarshal (r # rs) s = Option.bind (scanner_Add unmarshal r s) (add_records unmarshal rs)"

definition scan_Records :: "(string \<Rightarrow> json option) \<Rightarrow> http_record list \<Rightarrow> int \<Rightarrow> scan_report option" where
  "scan_Records unmarshal records since = map_option scanner_Report (add_records unmarshal records (NewScanner since))"

subsection \<open>What the report says\<close>

definition first_finding :: "hit \<Rightarrow> scan_finding" where
  "first_finding h = (case h of (v, m) \<Rightarrow>
     \<lparr>sf_Kind = mt_Kind m, sf_Severity = mt_Severity m, sf_Why = mt_Why m,
      sf_Method = vi_Method v, sf_Route = vi_Route v, sf_Location = vi_Location v,
      sf_Field = vi_Field v, sf_Count = 1, sf_FirstAt = vi_Time v,
      sf_LastAt = (if vi_Time v > 0 then vi_Time v else 0),
      sf_Sample = mt_Masked m, sf_Suggest = vi_Suggest v\<rparr>)"

definition more_finding :: "hit \<Rightarrow> scan_finding \<Rightarrow> scan_finding" where
  "more_finding h f = (case h of (v, m) \<Rightarrow>
     f\<lparr>sf_Count := sf_Count f + 1,
       sf_FirstAt := (if vi_Time v < sf_FirstAt f then vi_Time v else sf_FirstAt f),
       sf_LastAt := (if vi_Time v > sf_LastAt f then vi_Time v else sf_LastAt f)\<rparr>)"

interpretation scanning: tally hit_key first_finding more_finding record_hit
  by (rule tally_update)
     (auto simp: record_hit_def first_finding_def more_finding_def Let_def split: prod.split option.split)

definition finding_key :: "scan_finding \<Rightarrow> scan_key" where
  "finding_key f = (sf_Kind f, sf_Method f, sf_Route f, sf_Location f, sf_Field f)"

lemma more_findings:
  "finding_key (fold more_finding hs f) = finding_key f \<and> sf_Sample (fold more_finding hs f) = sf_Sample f \<and>
   sf_Severity (fold more_finding hs f) = sf_Severity f \<and>
   sf_Count (fold more_finding hs f) = sf_Count f + int (length hs)"
  by (induction hs arbitrary: f) (simp_all add: more_finding_def finding_key_def split: prod.split)

lemma first_finding_key: "finding_key (first_finding h) = hit_key h"
  by (cases h) (simp add: first_finding_def finding_key_def hit_key_def)

lemma summarised_finding:
  assumes "summarise first_finding more_finding (filter (\<lambda>h. hit_key h = k) hs) = Some f"
  shows "finding_key f = k \<and> sf_Count f = int (length (filter (\<lambda>h. hit_key h = k) hs)) \<and> 0 < sf_Count f \<and>
    (\<exists>h \<in> set hs. sf_Sample f = mt_Masked (snd h))"
proof -
  obtain h hs' where split: "filter (\<lambda>h. hit_key h = k) hs = h # hs'"
    and f: "f = fold more_finding hs' (first_finding h)"
    using assms by (cases "filter (\<lambda>h. hit_key h = k) hs") auto
  have h: "h \<in> set hs" "hit_key h = k"
    using arg_cong [OF split, of set] by auto
  have "sf_Count (first_finding h) = 1" "sf_Sample (first_finding h) = mt_Masked (snd h)"
    by (cases h; simp add: first_finding_def)+
  with h more_findings [of hs' "first_finding h"] show ?thesis
    by (auto simp: f split first_finding_key)
qed

lemma hits_of_append:
  "hits_of dets (vs @ ws) =
     (case hits_of dets vs of None \<Rightarrow> None
      | Some hs \<Rightarrow> (case hits_of dets ws of None \<Rightarrow> None | Some hs' \<Rightarrow> Some (hs @ hs')))"
  by (induction vs) (auto split: option.split)

lemma hits_of_sound:
  "hits_of dets vs = Some hs \<Longrightarrow> h \<in> set hs \<Longrightarrow>
     \<exists>v \<in> set vs. \<exists>ms. FindWith dets (vi_Value v) = Some ms \<and> fst h = v \<and> snd h \<in> set ms"
  by (induction vs arbitrary: hs) (force split: option.splits)+

lemma hits_of_complete:
  "hits_of dets vs = Some hs \<Longrightarrow> v \<in> set vs \<Longrightarrow>
     \<exists>ms. FindWith dets (vi_Value v) = Some ms \<and> (\<forall>m \<in> set ms. (v, m) \<in> set hs)"
  by (induction vs arbitrary: hs) (force split: option.splits)+

lemma add_records_hits:
  "add_records u rs s = Some s' \<Longrightarrow>
     \<exists>hs. hits_of (sn_detectors s) (concat (map (record_visits u) rs)) = Some hs \<and>
       sn_agg s' = fold record_hit hs (sn_agg s) \<and> sn_scanned s' = sn_scanned s + int (length rs)"
proof (induction rs arbitrary: s)
  case (Cons r rs)
  from Cons.prems obtain hs where hs: "hits_of (sn_detectors s) (record_visits u r) = Some hs"
    and rest: "add_records u rs (s\<lparr>sn_scanned := sn_scanned s + 1, sn_agg := fold record_hit hs (sn_agg s)\<rparr>) = Some s'"
    by (auto simp: scanner_Add_def scan_visits_def bind_eq_Some_conv split: option.splits)
  from Cons.IH [OF rest] hs show ?case
    by (auto simp: hits_of_append)
qed simp

text \<open>
  C20. The report has a finding exactly for each class of value, method, route, location and field at which
  some detector fired, counts every match of it, and shows no value but masked pieces of what was
  scanned.
\<close>

theorem scan_report_correct:
  assumes "scan_Records u rs since = Some rep"
  shows "sr_Scanned rep = int (length rs) \<and>
    (\<exists>hs. hits_of Detectors (concat (map (record_visits u) rs)) = Some hs \<and>
      (\<forall>h \<in> set hs. \<exists>f \<in> set (sr_Findings rep). finding_key f = hit_key h) \<and>
      (\<forall>f \<in> set (sr_Findings rep).
         sf_Count f = int (length (filter (\<lambda>h. hit_key h = finding_key f) hs)) \<and> 0 < sf_Count f \<and>
         (\<exists>r \<in> set rs. \<exists>v \<in> set (record_visits u r). \<exists>i j.
            sf_Sample f = Mask (slice (vi_Value v) i j))))"
proof -
  obtain s where s: "add_records u rs (NewScanner since) = Some s" and rep: "rep = scanner_Report s"
    using assms by (auto simp: scan_Records_def)
  obtain hs where hits: "hits_of Detectors (concat (map (record_visits u) rs)) = Some hs"
    and agg: "sn_agg s = fold record_hit hs []" and scanned: "sn_scanned s = int (length rs)"
    using add_records_hits [OF s] by (auto simp: NewScanner_def NewScannerWith_def)
  have members: "f \<in> set (sr_Findings rep) \<longleftrightarrow>
      (\<exists>k. summarise first_finding more_finding (filter (\<lambda>h. hit_key h = k) hs) = Some f)" for f
    by (simp add: rep scanner_Report_def agg scanning.entries del: split_paired_Ex)
  have "\<exists>f \<in> set (sr_Findings rep). finding_key f = hit_key h" if h: "h \<in> set hs" for h
  proof -
    obtain f where f: "summarise first_finding more_finding (filter (\<lambda>h'. hit_key h' = hit_key h) hs) = Some f"
      using scanning.sighting_has_entry [OF h] unfolding scanning.fold_lookup by blast
    then have "f \<in> set (sr_Findings rep)"
      unfolding members by blast
    with summarised_finding [OF f] show ?thesis by blast
  qed
  moreover have "sf_Count f = int (length (filter (\<lambda>h. hit_key h = finding_key f) hs)) \<and> 0 < sf_Count f \<and>
      (\<exists>r \<in> set rs. \<exists>v \<in> set (record_visits u r). \<exists>i j. sf_Sample f = Mask (slice (vi_Value v) i j))"
    if f: "f \<in> set (sr_Findings rep)" for f
  proof -
    obtain k where k: "summarise first_finding more_finding (filter (\<lambda>h. hit_key h = k) hs) = Some f"
      using f unfolding members by blast
    obtain h where h: "h \<in> set hs" "sf_Sample f = mt_Masked (snd h)"
      using summarised_finding [OF k] by blast
    obtain v ms where v: "v \<in> set (concat (map (record_visits u) rs))"
      and ms: "FindWith Detectors (vi_Value v) = Some ms" "snd h \<in> set ms"
      using hits_of_sound [OF hits h(1)] by blast
    from ms have "find_each Detectors (vi_Value v) = Some ms"
      by (auto simp: FindWith_def split: if_splits)
    from find_each_sound [OF this ms(2)] obtain d i j where
      "d \<in> set Detectors" "mt_Masked (snd h) = Mask (slice (vi_Value v) i j)"
      by blast
    with v h(2) summarised_finding [OF k] show ?thesis by auto
  qed
  moreover have "sr_Scanned rep = int (length rs)"
    by (simp add: rep scanner_Report_def scanned)
  ultimately show ?thesis
    using hits by blast
qed

definition leaky_record :: http_record where
  "leaky_record = (sample_request ''/pay/1'' [] ''{1}'')\<lparr>hr_RequestHeaders := [(''X-Card'', ''4111111111111111'')]\<rparr>"

text \<open>A record with a card number in a header.\<close>

theorem scan_report_correct_witness:
  "\<exists>rep. scan_Records (\<lambda>_. None) [leaky_record] 0 = Some rep \<and> sr_Scanned rep = 1 \<and>
     (\<exists>f \<in> set (sr_Findings rep). sf_Field f = ''X-Card'')"
proof -
  let ?u = "\<lambda>_. None :: json option"
  let ?v = "record_visit leaky_record ''request_headers'' (''X-Card'', ''4111111111111111'')"
  have runs: "scan_Records ?u [leaky_record] 0 \<noteq> None"
    by code_simp
  then obtain rep where rep: "scan_Records ?u [leaky_record] 0 = Some rep"
    by blast
  note R = scan_report_correct [OF rep]
  obtain hs where hs: "hits_of Detectors (concat (map (record_visits ?u) [leaky_record])) = Some hs"
    and found: "\<forall>h \<in> set hs. \<exists>f \<in> set (sr_Findings rep). finding_key f = hit_key h"
    using R by blast
  have "?v \<in> set (concat (map (record_visits ?u) [leaky_record]))"
    by (simp add: record_visits_def leaky_record_def)
  from hits_of_complete [OF hs this] obtain ms where
    "FindWith Detectors (vi_Value ?v) = Some ms" "\<forall>m \<in> set ms. (?v, m) \<in> set hs"
    by blast
  moreover have "map mt_Kind (the (FindWith Detectors ''4111111111111111'')) \<noteq> []"
    by code_simp
  ultimately obtain m where "(?v, m) \<in> set hs"
    by (cases ms) (auto simp: record_visit_def)
  then obtain f where "f \<in> set (sr_Findings rep)" "finding_key f = hit_key (?v, m)"
    using found by blast
  with R rep show ?thesis
    by (auto simp: finding_key_def hit_key_def record_visit_def)
qed

subsection \<open>The suggested fix removes the finding\<close>

fun plain_doc :: "json \<Rightarrow> bool" where
  "plain_doc (JObj kvs) \<longleftrightarrow> list_all (\<lambda>kv. CHR ''.'' \<notin> set (fst kv) \<and> plain_doc (snd kv)) kvs"
| "plain_doc (JArr xs) \<longleftrightarrow> list_all plain_doc xs"
| "plain_doc _ \<longleftrightarrow> True"

lemma field_name_inject:
  assumes "\<forall>k \<in> set ks. CHR ''.'' \<notin> set k" and "\<forall>k \<in> set ks'. CHR ''.'' \<notin> set k"
    and "ks \<noteq> []" and "ks' \<noteq> []" and "field_name ks = field_name ks'"
  shows "ks = ks'"
  using field_name_split [OF assms(3,1)] field_name_split [OF assms(4,2)] assms(5) by simp

lemma scan_walk_path:
  "(f, v) \<in> set (scan_walk n path depth) \<Longrightarrow> plain_doc n \<Longrightarrow>
     \<exists>ks. f = path @ field_name ks \<and> (\<forall>k \<in> set ks. CHR ''.'' \<notin> set k)"
proof (induction n path depth rule: scan_walk.induct)
  case (1 n path depth)
  show ?case
  proof (cases "depth > 12")
    case True
    then show ?thesis using "1.prems"(1) by (simp add: scan_walk.simps [of n path depth])
  next
    case False
    show ?thesis
    proof (cases n)
      case (JObj kvs)
      then obtain k c where kc: "(k, c) \<in> set kvs" and f: "(f, v) \<in> set (scan_walk c (path @ ''.'' @ k) (Suc depth))"
        using "1.prems"(1) False by (auto simp: scan_walk.simps [of "JObj kvs" path depth])
      have plain: "CHR ''.'' \<notin> set k" "plain_doc c"
        using "1.prems"(2) kc JObj by (auto simp: list_all_iff)
      obtain ks where "f = (path @ ''.'' @ k) @ field_name ks" "\<forall>k \<in> set ks. CHR ''.'' \<notin> set k"
        using "1.IH"(2) [OF False JObj kc refl f plain(2)] by blast
      with plain(1) show ?thesis
        by (intro exI [of _ "k # ks"]) simp
    next
      case (JArr xs)
      then obtain x where x: "x \<in> set xs" and f: "(f, v) \<in> set (scan_walk x path (Suc depth))"
        using "1.prems"(1) False by (auto simp: scan_walk.simps [of "JArr xs" path depth])
      then show ?thesis
        using "1.IH"(1) [OF False JArr x f] "1.prems"(2) JArr by (auto simp: list_all_iff)
    qed (use "1.prems"(1) False in \<open>auto simp: scan_walk.simps [of _ path depth] intro: exI [of _ "[]"]\<close>)
  qed
qed

lemma scan_walk_masked:
  "(path @ field_name ks, v) \<in> set (scan_walk n path depth) \<Longrightarrow> plain_doc n \<Longrightarrow> masked_at n ks \<Longrightarrow>
     \<forall>k \<in> set ks. CHR ''.'' \<notin> set k \<Longrightarrow> ks \<noteq> [] \<Longrightarrow> v = RedactedPlaceholder"
proof (induction n path depth arbitrary: ks rule: scan_walk.induct)
  case (1 n path depth)
  obtain k ks' where ks: "ks = k # ks'"
    using "1.prems"(5) by (cases ks) auto
  have d: "\<not> depth > 12"
    using "1.prems"(1) by (auto simp: scan_walk.simps [of n path depth] split: if_splits)
  show ?case
  proof (cases n)
    case (JObj kvs)
    then obtain k' c where kc: "(k', c) \<in> set kvs"
      and f: "(path @ field_name ks, v) \<in> set (scan_walk c (path @ ''.'' @ k') (Suc depth))"
      using "1.prems"(1) d by (auto simp: scan_walk.simps [of "JObj kvs" path depth])
    have plain: "CHR ''.'' \<notin> set k'" "plain_doc c"
      using "1.prems"(2) kc JObj by (auto simp: list_all_iff)
    obtain ks2 where ks2: "path @ field_name ks = (path @ ''.'' @ k') @ field_name ks2" "\<forall>k \<in> set ks2. CHR ''.'' \<notin> set k"
      using scan_walk_path [OF f plain(2)] by blast
    have "ks = k' # ks2"
      by (rule field_name_inject) (use "1.prems"(4,5) ks2 plain in auto)
    then have eq: "k' = k" "ks2 = ks'"
      using ks by auto
    have masked: "masked_at c ks'"
      using "1.prems"(3) kc eq JObj ks by (auto simp: masked_at_obj)
    show ?thesis
    proof (cases "ks' = []")
      case True
      then have "c = JStr RedactedPlaceholder"
        using masked by (simp add: masked_at_Nil)
      then show ?thesis
        using f by (simp add: scan_walk.simps [of "JStr RedactedPlaceholder"] split: if_splits)
    next
      case False
      have "((path @ ''.'' @ k') @ field_name ks', v) \<in> set (scan_walk c (path @ ''.'' @ k') (Suc depth))"
        using f ks eq by simp
      then show ?thesis
        using "1.IH"(2) [OF d JObj kc refl _ plain(2) masked] "1.prems"(4) ks False by simp
    qed
  next
    case (JArr xs)
    then obtain x where x: "x \<in> set xs" and f: "(path @ field_name ks, v) \<in> set (scan_walk x path (Suc depth))"
      using "1.prems"(1) d by (auto simp: scan_walk.simps [of "JArr xs" path depth])
    have "plain_doc x" "masked_at x ks"
      using "1.prems"(2,3) JArr x ks by (auto simp: list_all_iff masked_at_arr)
    then show ?thesis
      using "1.IH"(1) [OF d JArr x f] "1.prems"(4,5) by simp
  qed (use "1.prems"(1,5) d ks in \<open>auto simp: scan_walk.simps [of _ path depth]\<close>)
qed

lemma placeholder_clean: "FindWith dets RedactedPlaceholder = Some []"
proof -
  have "contains RedactedPlaceholder RedactedPlaceholder" "length RedactedPlaceholder < 24"
    by code_simp+
  then show ?thesis
    unfolding FindWith_def by simp
qed


definition fixed_doc :: json where
  "fixed_doc = JObj [(''card'', JObj [(''number'', JStr RedactedPlaceholder)])]"

definition fixing_codec :: json_codec where
  "fixing_codec = \<lparr>
     jc_unmarshal = (\<lambda>s. if s = ''out'' then Some fixed_doc
       else Some (JObj [(''card'', JObj [(''number'', JStr ''4111111111111111'')])])),
     jc_marshal = (\<lambda>d. if d = fixed_doc then Some ''out'' else None),
     jc_valid = (\<lambda>_. True)\<rparr>"


text \<open>
  The advice cannot work for a value at the root of a body or in an array at the root: its field is
  \<open>$\<close>, and that path masks nothing.
\<close>

lemma root_advice_masks_nothing:
  "scan_walk (JArr [JStr s]) ''$'' 0 = [(''$'', s)] \<and>
   redactPath (JArr [JStr s]) (SplitJSONPath ''$'') = JArr [JStr s]"
  by (simp add: scan_walk.simps redactPath_arr)

end
