(* ===== verification/Review.thy ===== *)
theory Review
  imports Scanner Config
begin

text \<open>
  The pull-request review (\<open>internal/review/review.go\<close> and \<open>markdown.go\<close>): coverage of the observed
  traffic, the replay of that traffic under the policy before and after the change, the gate, and the
  comment it prints.
\<close>

definition SevBlocking :: string where "SevBlocking = ''blocking''"

subsection \<open>The report\<close>

record policy_change =
  pc_Severity :: string
  pc_Method :: string
  pc_Route :: string
  pc_What :: string
  pc_Affected :: int

record coverage =
  cv_Requests :: int
  cv_GovernedRequests :: int
  cv_Routes :: int
  cv_GovernedRoutes :: int
  cv_SensitiveFields :: int
  cv_GovernedFields :: int
  cv_UngovernedRoutes :: "string list"
  cv_NotFound :: int

definition RequestPct :: "coverage \<Rightarrow> rat" where
  "RequestPct c = (if cv_Requests c = 0 then 0 else of_int (cv_GovernedRequests c) / of_int (cv_Requests c) * 100)"

definition FieldPct :: "coverage \<Rightarrow> rat" where
  "FieldPct c = (if cv_SensitiveFields c = 0 then 100
     else of_int (cv_GovernedFields c) / of_int (cv_SensitiveFields c) * 100)"

record review_report =
  rr_Window :: string
  rr_Coverage :: coverage
  rr_PolicyChanges :: "policy_change list"
  rr_Leaks :: "scan_finding list"
  rr_LogLinesReviewed :: int
  rr_Suggestions :: "suggestion list"
  rr_SpecFindings :: "finding list"
  rr_ComparedBase :: bool

record review_options =
  ro_Records :: "http_record list"
  ro_AppLogs :: "app_log list"
  ro_Head :: config
  ro_Base :: "config option"
  ro_Spec :: "spec option"
  ro_Window :: string

subsection \<open>Coverage\<close>

definition review_routeOf :: "http_record \<Rightarrow> policy \<Rightarrow> string" where
  "review_routeOf rec p =
     (if pol_RoutePattern p \<noteq> [] then pol_RoutePattern p
      else if hr_Route rec \<noteq> [] then hr_Route rec
      else NormalizeRoute (hr_Path rec))"

definition cover_record :: "engine \<Rightarrow> http_record \<Rightarrow> coverage \<times> bool gomap \<Rightarrow> coverage \<times> bool gomap" where
  "cover_record eng rec acc = (case acc of (c, routes) \<Rightarrow>
     if hr_Status rec = 404 then (c\<lparr>cv_NotFound := cv_NotFound c + 1\<rparr>, routes)
     else
       let p = evaluate eng (attrsOfRecord rec);
           governed = pol_MatchedRules p \<noteq> [];
           key = hr_Method rec @ '' '' @ review_routeOf rec p
       in (c\<lparr>cv_Requests := cv_Requests c + 1,
             cv_GovernedRequests := cv_GovernedRequests c + (if governed then 1 else 0)\<rparr>,
           (case lookup routes key of
              None \<Rightarrow> store key governed routes
            | Some was \<Rightarrow> if \<not> was \<and> governed then store key governed routes else routes)))"

definition no_coverage :: coverage where
  "no_coverage = \<lparr>cv_Requests = 0, cv_GovernedRequests = 0, cv_Routes = 0, cv_GovernedRoutes = 0,
     cv_SensitiveFields = 0, cv_GovernedFields = 0, cv_UngovernedRoutes = [], cv_NotFound = 0\<rparr>"

definition review_coverage :: "(string \<Rightarrow> json option) \<Rightarrow> http_record list \<Rightarrow> engine \<Rightarrow> coverage" where
  "review_coverage unmarshal records eng =
     (let (c, routes) = fold (cover_record eng) records (no_coverage, []);
          sug = Suggest.Records unmarshal records eng;
          sensitive = int (length (re_Suggestions sug))
      in c\<lparr>cv_Routes := int (length routes),
           cv_GovernedRoutes := int (length (filter snd routes)),
           cv_UngovernedRoutes := take 8 (sort (map fst (filter (\<lambda>r. \<not> snd r) routes))),
           cv_SensitiveFields := sensitive,
           cv_GovernedFields := sensitive - int (length (Actionable sug))\<rparr>)"

subsection \<open>The policy diff\<close>

definition pathSet :: "string list list \<Rightarrow> string list" where
  "pathSet paths = remdups (map (join ''.'') paths)"

text \<open>What one record shows: severity and description of each difference, in the order of the code.\<close>

definition flag_change :: "string \<times> bool \<times> bool \<Rightarrow> (string \<times> string) list" where
  "flag_change f = (case f of (name, was, isNow) \<Rightarrow>
     if \<not> was \<and> isNow then [(SevWarn, ''now captures '' @ name @ '' (was restricted)'')]
     else if was \<and> \<not> isNow then [(SevInfo, ''no longer captures '' @ name)]
     else [])"

definition quoted :: "string \<Rightarrow> string" where
  "quoted s = ''`'' @ s @ ''`''"

definition flags_diff :: "policy \<Rightarrow> policy \<Rightarrow> (string \<times> string) list" where
  "flags_diff bp hp = concat (map flag_change [
     (''request bodies'', pol_CaptureRequestBody bp, pol_CaptureRequestBody hp),
     (''response bodies'', pol_CaptureResponseBody bp, pol_CaptureResponseBody hp),
     (''headers'', pol_CaptureHeaders bp, pol_CaptureHeaders hp),
     (''query strings'', pol_CaptureQuery bp, pol_CaptureQuery hp)])"

definition headers_diff :: "policy \<Rightarrow> policy \<Rightarrow> (string \<times> string) list" where
  "headers_diff bp hp = map (\<lambda>h. (SevBlocking, ''stops redacting header '' @ quoted h))
     (filter (\<lambda>h. h \<notin> set (pol_RedactHeaders hp) \<and> pol_CaptureHeaders hp) (pol_RedactHeaders bp))"

definition query_diff :: "policy \<Rightarrow> policy \<Rightarrow> (string \<times> string) list" where
  "query_diff bp hp = map (\<lambda>q. (SevBlocking, ''stops redacting query param '' @ quoted q))
     (filter (\<lambda>q. q \<notin> set (pol_RedactQuery hp) \<and> pol_CaptureQuery hp) (pol_RedactQuery bp))"

definition paths_diff :: "policy \<Rightarrow> policy \<Rightarrow> (string \<times> string) list" where
  "paths_diff bp hp =
     (let basePaths = pathSet (pol_RedactJSONPaths bp); headPaths = pathSet (pol_RedactJSONPaths hp)
      in map (\<lambda>p. (SevBlocking, ''stops redacting '' @ quoted (''$.'' @ p)))
           (filter (\<lambda>p. p \<notin> set headPaths) basePaths) @
         map (\<lambda>p. (SevInfo, ''now redacts '' @ quoted (''$.'' @ p)))
           (filter (\<lambda>p. p \<notin> set basePaths) headPaths))"

definition attribution_diff :: "policy \<Rightarrow> policy \<Rightarrow> (string \<times> string) list" where
  "attribution_diff bp hp =
     map (\<lambda>l. (SevWarn, ''drops label '' @ quoted l @ '' (breaks its Prometheus dimension)''))
       (filter (\<lambda>l. lookup (pol_Labels hp) l = None) (keys (pol_Labels bp))) @
     map (\<lambda>m. (SevWarn, ''drops meter '' @ quoted m @ '' (usage and cost stop being attributed)''))
       (filter (\<lambda>m. lookup (pol_Meters hp) m = None) (keys (pol_Meters bp)))"

definition policy_diff :: "policy \<Rightarrow> policy \<Rightarrow> (string \<times> string) list" where
  "policy_diff bp hp =
     flags_diff bp hp @ headers_diff bp hp @ query_diff bp hp @ paths_diff bp hp @ attribution_diff bp hp"

text \<open>A sighting: method, route, severity, description.\<close>

type_synonym change_sighting = "string \<times> string \<times> string \<times> string"

definition change_key :: "change_sighting \<Rightarrow> string" where
  "change_key n = (case n of (method, route, sev, what) \<Rightarrow> method @ ''|'' @ route @ ''|'' @ what)"

definition note_change :: "change_sighting \<Rightarrow> policy_change gomap \<Rightarrow> policy_change gomap" where
  "note_change n seen = (case n of (method, route, sev, what) \<Rightarrow>
     let c = (case map_of seen (change_key n) of
                Some c \<Rightarrow> c
              | None \<Rightarrow> \<lparr>pc_Severity = sev, pc_Method = method, pc_Route = route, pc_What = what, pc_Affected = 0\<rparr>)
     in AList.update (change_key n) (c\<lparr>pc_Affected := pc_Affected c + 1\<rparr>) seen)"

definition record_changes :: "engine \<Rightarrow> engine \<Rightarrow> http_record \<Rightarrow> change_sighting list" where
  "record_changes base head rec =
     (let bp = evaluate base (attrsOfRecord rec); hp = evaluate head (attrsOfRecord rec);
          route = review_routeOf rec hp
      in map (\<lambda>(sev, what). (hr_Method rec, route, sev, what)) (policy_diff bp hp))"

definition change_rank :: "string \<Rightarrow> nat" where
  "change_rank sev = (if sev = SevWarn then 1 else if sev = SevInfo then 2 else 0)"

definition diffPolicies :: "http_record list \<Rightarrow> engine \<Rightarrow> engine \<Rightarrow> policy_change list" where
  "diffPolicies records base head =
     (let seen = fold (\<lambda>rec seen. fold note_change (record_changes base head rec) seen) records []
      in sort_key (\<lambda>c. change_rank (pc_Severity c))
           (sort_key (\<lambda>c. - pc_Affected c) (sort_key pc_What (map snd seen))))"

subsection \<open>The analysis\<close>

fun add_logs :: "app_log list \<Rightarrow> scanner \<Rightarrow> scanner option" where
  "add_logs [] s = Some s"
| "add_logs (l # ls) s = Option.bind (AddAppLog l s) (add_logs ls)"

definition review_Run ::
    "sysenv \<Rightarrow> (string \<Rightarrow> json option) \<Rightarrow> int \<Rightarrow> review_options \<Rightarrow> review_report option" where
  "review_Run env unmarshal now opts =
     (let head = engine_New env (ro_Head opts); records = ro_Records opts;
          custom = (case cfg_Detectors env (c_Scan (ro_Head opts)) of Inl _ \<Rightarrow> [] | Inr ds \<Rightarrow> ds)
      in case Option.bind (add_records unmarshal records (NewScannerWith 0 custom)) (add_logs (ro_AppLogs opts)) of
           None \<Rightarrow> None
         | Some sc \<Rightarrow> Some
             \<lparr>rr_Window = ro_Window opts,
              rr_Coverage = review_coverage unmarshal records head,
              rr_PolicyChanges = (case ro_Base opts of
                 None \<Rightarrow> [] | Some b \<Rightarrow> diffPolicies records (engine_New env b) head),
              rr_Leaks = sr_Findings (scanner_Report sc),
              rr_LogLinesReviewed = sr_LinesScanned (scanner_Report sc),
              rr_Suggestions = Actionable (Suggest.Records unmarshal records head),
              rr_SpecFindings = (case ro_Spec opts of None \<Rightarrow> [] | Some s \<Rightarrow> Check unmarshal now s records),
              rr_ComparedBase = (ro_Base opts \<noteq> None)\<rparr>)"

subsection \<open>The gate\<close>

definition FailOnRegression :: string where "FailOnRegression = ''regression''"
definition FailOnCritical :: string where "FailOnCritical = ''critical''"
definition FailOnHigh :: string where "FailOnHigh = ''high''"
definition FailOnNever :: string where "FailOnNever = ''never''"

definition Regressions :: "review_report \<Rightarrow> int" where
  "Regressions r = int (length (filter (\<lambda>c. pc_Severity c = SevBlocking) (rr_PolicyChanges r)))"

definition filterBreaking :: "finding list \<Rightarrow> finding list" where
  "filterBreaking fs = filter (\<lambda>f. fd_Severity f = SevBreaking) fs"

definition BreakingForClients :: "review_report \<Rightarrow> int" where
  "BreakingForClients r = int (length (filter (\<lambda>f. fd_Severity f = SevBreaking) (rr_SpecFindings r)))"

definition Attributable :: "review_report \<Rightarrow> bool" where
  "Attributable r \<longleftrightarrow> Regressions r > 0 \<or> BreakingForClients r > 0"

definition Blocking :: "review_report \<Rightarrow> string \<Rightarrow> bool" where
  "Blocking r failOn =
     (if failOn = FailOnNever then False
      else if Attributable r then True
      else if failOn = FailOnCritical then list_ex (\<lambda>f. sf_Severity f = SevCritical) (rr_Leaks r)
      else if failOn = FailOnHigh then
        list_ex (\<lambda>f. sf_Severity f = SevCritical \<or> sf_Severity f = SevHigh) (rr_Leaks r)
      else False)"

subsection \<open>A review without regressions protects what was masked\<close>

definition first_change :: "change_sighting \<Rightarrow> policy_change" where
  "first_change n = (case n of (method, route, sev, what) \<Rightarrow>
     \<lparr>pc_Severity = sev, pc_Method = method, pc_Route = route, pc_What = what, pc_Affected = 1\<rparr>)"

definition more_change :: "change_sighting \<Rightarrow> policy_change \<Rightarrow> policy_change" where
  "more_change n c = c\<lparr>pc_Affected := pc_Affected c + 1\<rparr>"

interpretation reviewing: tally change_key first_change more_change note_change
  by (rule tally_update)
     (auto simp: note_change_def change_key_def first_change_def more_change_def Let_def
       split: prod.split option.split)

definition all_changes :: "engine \<Rightarrow> engine \<Rightarrow> http_record list \<Rightarrow> change_sighting list" where
  "all_changes base head records = concat (map (record_changes base head) records)"

lemma diffPolicies_entries:
  "c \<in> set (diffPolicies records base head) \<longleftrightarrow>
     (\<exists>k. summarise first_change more_change (filter (\<lambda>n. change_key n = k) (all_changes base head records)) = Some c)"
proof -
  have "fold (\<lambda>rec seen. fold note_change (record_changes base head rec) seen) records [] =
      fold note_change (all_changes base head records) []"
    by (simp add: all_changes_def fold_concat fold_map comp_def)
  then show ?thesis
    by (simp add: diffPolicies_def reviewing.entries Let_def)
qed

definition change_what :: "change_sighting \<Rightarrow> string" where
  "change_what n = (case n of (_, _, _, what) \<Rightarrow> what)"

definition change_sev :: "change_sighting \<Rightarrow> string" where
  "change_sev n = (case n of (_, _, sev, _) \<Rightarrow> sev)"

lemma change_key_what:
  assumes "change_key n = change_key n'" and "CHR ''|'' \<notin> set (change_what n)" and "CHR ''|'' \<notin> set (change_what n')"
  shows "change_what n = change_what n'"
proof -
  have "change_what m = rev (takeWhile (\<lambda>c. c \<noteq> CHR ''|'') (rev (change_key m)))"
    if "CHR ''|'' \<notin> set (change_what m)" for m
    using that by (cases m) (auto simp: change_key_def change_what_def takeWhile_append takeWhile_eq_all_conv)
  with assms show ?thesis by metis
qed

text \<open>Blocking descriptions are told apart from the others by their first letter.\<close>

definition blocking_what :: "string \<Rightarrow> bool" where
  "blocking_what what \<longleftrightarrow> what \<noteq> [] \<and> hd what = CHR ''s''"

lemma severities [simp]:
  "SevWarn \<noteq> SevBlocking" "SevInfo \<noteq> SevBlocking" "SevBlocking \<noteq> SevWarn" "SevBlocking \<noteq> SevInfo"
  by (simp_all add: SevBlocking_def SevWarn_def SevInfo_def)

lemma policy_diff_what:
  assumes "d \<in> set (policy_diff bp hp)"
  shows "fst d = SevBlocking \<longleftrightarrow> blocking_what (snd d)"
proof -
  have flag: "fst d = SevBlocking \<longleftrightarrow> blocking_what (snd d)" if "d \<in> set (flag_change f)" for f
    using that by (cases f) (auto simp: flag_change_def blocking_what_def split: if_splits)
  have flags: "fst d = SevBlocking \<longleftrightarrow> blocking_what (snd d)" if "d \<in> set (flags_diff bp hp)"
    using that flag by (fastforce simp: flags_diff_def)
  have headers: "fst d = SevBlocking \<longleftrightarrow> blocking_what (snd d)" if "d \<in> set (headers_diff bp hp)"
    using that by (auto simp: headers_diff_def blocking_what_def)
  have query: "fst d = SevBlocking \<longleftrightarrow> blocking_what (snd d)" if "d \<in> set (query_diff bp hp)"
    using that by (auto simp: query_diff_def blocking_what_def)
  have paths: "fst d = SevBlocking \<longleftrightarrow> blocking_what (snd d)" if "d \<in> set (paths_diff bp hp)"
    using that by (auto simp: paths_diff_def blocking_what_def Let_def)
  have attribution: "fst d = SevBlocking \<longleftrightarrow> blocking_what (snd d)" if "d \<in> set (attribution_diff bp hp)"
    using that by (auto simp: attribution_diff_def blocking_what_def)
  show ?thesis
    using assms flags headers query paths attribution by (auto simp: policy_diff_def)
qed

lemma all_changes_what:
  assumes "n \<in> set (all_changes base head records)"
  shows "change_sev n = SevBlocking \<longleftrightarrow> blocking_what (change_what n)"
proof -
  obtain r d where d: "d \<in> set (policy_diff (evaluate base (attrsOfRecord r)) (evaluate head (attrsOfRecord r)))"
    and n: "change_sev n = fst d" "change_what n = snd d"
    using assms by (auto simp: all_changes_def record_changes_def change_sev_def change_what_def Let_def)
  show ?thesis
    using policy_diff_what [OF d] n by simp
qed

lemma fold_more_change: "pc_Severity (fold more_change ns c) = pc_Severity c"
  by (induction ns arbitrary: c) (simp_all add: more_change_def)

lemma no_regression_no_blocking:
  assumes "filter (\<lambda>c. pc_Severity c = SevBlocking) (diffPolicies records base head) = []"
    and "\<forall>n \<in> set (all_changes base head records). CHR ''|'' \<notin> set (change_what n)"
    and "n \<in> set (all_changes base head records)"
  shows "change_sev n \<noteq> SevBlocking"
proof
  assume blocking: "change_sev n = SevBlocking"
  let ?same = "filter (\<lambda>m. change_key m = change_key n) (all_changes base head records)"
  obtain m ms where m: "?same = m # ms"
    using assms(3) by (cases ?same) (auto simp: filter_empty_conv)
  have "m \<in> set ?same"
    using m by simp
  then have in_m: "m \<in> set (all_changes base head records)" "change_key m = change_key n"
    by simp_all
  have "change_what m = change_what n"
    using change_key_what in_m assms(2,3) by blast
  then have "change_sev m = SevBlocking"
    using all_changes_what [OF in_m(1)] all_changes_what [OF assms(3)] blocking by simp
  moreover have entry: "fold more_change ms (first_change m) \<in> set (diffPolicies records base head)"
    unfolding diffPolicies_entries using m by (intro exI [of _ "change_key n"]) simp
  moreover have "pc_Severity (first_change m) = change_sev m"
    by (cases m) (simp add: first_change_def change_sev_def)
  ultimately have "pc_Severity (fold more_change ms (first_change m)) = SevBlocking"
    by (simp add: fold_more_change)
  with entry assms(1) show False
    by (auto simp: filter_empty_conv)
qed

lemma compiled_paths:
  assumes "path \<in> set (pol_RedactJSONPaths (evaluate (engine_New env cfg) a))"
  shows "path \<noteq> [] \<and> (\<forall>s \<in> set path. CHR ''.'' \<notin> set s)"
proof -
  have "\<exists>r \<in> set (c_Rules cfg). path \<in> set (cr_redactPaths (compile_rule env r))"
    using assms by (auto simp: evaluate_fold policy_fields default_policy_def matched_def engine_New_def)
  then obtain s where "path = split_on (CHR ''.'') s"
    by (auto simp: compile_rule_def Let_def split: option.splits)
  then show ?thesis
    using split_on_elem by auto
qed

lemma pathSet_member:
  assumes "path \<in> set (pol_RedactJSONPaths (evaluate (engine_New env cfg) a))"
    and "join ''.'' path \<in> set (pathSet (pol_RedactJSONPaths (evaluate (engine_New env' cfg') a')))"
  shows "path \<in> set (pol_RedactJSONPaths (evaluate (engine_New env' cfg') a'))"
proof -
  obtain path' where path': "path' \<in> set (pol_RedactJSONPaths (evaluate (engine_New env' cfg') a'))"
    "join ''.'' path = join ''.'' path'"
    using assms(2) by (auto simp: pathSet_def)
  have "split_on (CHR ''.'') (join ''.'' path) = path"
    by (rule split_on_join) (use compiled_paths [OF assms(1)] in blast)+
  moreover have "split_on (CHR ''.'') (join ''.'' path') = path'"
    by (rule split_on_join) (use compiled_paths [OF path'(1)] in blast)+
  ultimately have "path = path'"
    using path'(2) by metis
  then show ?thesis
    using path'(1) by simp
qed

lemma policy_diff_blocks:
  "h \<in> set (pol_RedactHeaders bp) \<Longrightarrow> h \<notin> set (pol_RedactHeaders hp) \<Longrightarrow> pol_CaptureHeaders hp \<Longrightarrow>
     \<exists>what. (SevBlocking, what) \<in> set (policy_diff bp hp)"
  "q \<in> set (pol_RedactQuery bp) \<Longrightarrow> q \<notin> set (pol_RedactQuery hp) \<Longrightarrow> pol_CaptureQuery hp \<Longrightarrow>
     \<exists>what. (SevBlocking, what) \<in> set (policy_diff bp hp)"
  "path \<in> set (pol_RedactJSONPaths bp) \<Longrightarrow> join ''.'' path \<notin> set (pathSet (pol_RedactJSONPaths hp)) \<Longrightarrow>
     \<exists>what. (SevBlocking, what) \<in> set (policy_diff bp hp)"
proof -
  show "\<exists>what. (SevBlocking, what) \<in> set (policy_diff bp hp)"
    if "h \<in> set (pol_RedactHeaders bp)" "h \<notin> set (pol_RedactHeaders hp)" "pol_CaptureHeaders hp"
  proof -
    have "(SevBlocking, ''stops redacting header '' @ quoted h) \<in> set (headers_diff bp hp)"
      using that by (simp add: headers_diff_def)
    then show ?thesis by (auto simp: policy_diff_def)
  qed
  show "\<exists>what. (SevBlocking, what) \<in> set (policy_diff bp hp)"
    if "q \<in> set (pol_RedactQuery bp)" "q \<notin> set (pol_RedactQuery hp)" "pol_CaptureQuery hp"
  proof -
    have "(SevBlocking, ''stops redacting query param '' @ quoted q) \<in> set (query_diff bp hp)"
      using that by (simp add: query_diff_def)
    then show ?thesis by (auto simp: policy_diff_def)
  qed
  show "\<exists>what. (SevBlocking, what) \<in> set (policy_diff bp hp)"
    if "path \<in> set (pol_RedactJSONPaths bp)" "join ''.'' path \<notin> set (pathSet (pol_RedactJSONPaths hp))"
  proof -
    have "join ''.'' path \<in> set (pathSet (pol_RedactJSONPaths bp))"
      using that(1) by (simp add: pathSet_def)
    then have "(SevBlocking, ''stops redacting '' @ quoted (''$.'' @ join ''.'' path)) \<in> set (paths_diff bp hp)"
      using that(2) by (simp add: paths_diff_def Let_def)
    then show ?thesis by (auto simp: policy_diff_def)
  qed
qed

text \<open>
  C8. When a review compared with a base reports no regression, then on every record it replayed the new
  policy still masks each header and query parameter the old one masked, as long as it captures them at
  all, and every body it lets through has the placeholder at every field the old policy masked.  The
  descriptions must contain no vertical bar, the separator of the keys they are grouped by.
\<close>

theorem review_protects:
  assumes "review_Run env u now opts = Some rep" and "ro_Base opts = Some b" and "Regressions rep = 0"
    and "r \<in> set (ro_Records opts)"
    and "list_all (\<lambda>n. CHR ''|'' \<notin> set (change_what n))
      (all_changes (engine_New env b) (engine_New env (ro_Head opts)) (ro_Records opts))"
  defines "bp \<equiv> evaluate (engine_New env b) (attrsOfRecord r)"
    and "hp \<equiv> evaluate (engine_New env (ro_Head opts)) (attrsOfRecord r)"
  shows "(pol_CaptureHeaders hp \<longrightarrow> set (pol_RedactHeaders bp) \<subseteq> set (pol_RedactHeaders hp)) \<and>
    (pol_CaptureQuery hp \<longrightarrow> set (pol_RedactQuery bp) \<subseteq> set (pol_RedactQuery hp)) \<and>
    (\<forall>jc body out path ks. RedactJSONBody jc hp body = (out, True) \<and> body \<noteq> [] \<and>
       path \<in> set (pol_RedactJSONPaths bp) \<and> last path \<noteq> ''**'' \<and> pathCovers path ks \<longrightarrow>
       (\<exists>doc. jc_marshal jc doc = Some out \<and> masked_at doc ks))"
proof -
  let ?base = "engine_New env b" and ?head = "engine_New env (ro_Head opts)"
  have changes: "rr_PolicyChanges rep = diffPolicies (ro_Records opts) ?base ?head"
    using assms(1,2) by (auto simp: review_Run_def Let_def split: option.splits)
  then have none: "filter (\<lambda>c. pc_Severity c = SevBlocking) (diffPolicies (ro_Records opts) ?base ?head) = []"
    using assms(3) by (simp add: Regressions_def)
  have quiet: "fst d \<noteq> SevBlocking" if "d \<in> set (policy_diff bp hp)" for d
  proof -
    have "(hr_Method r, review_routeOf r hp, fst d, snd d) \<in> set (all_changes ?base ?head (ro_Records opts))"
      using that assms(4) by (force simp: all_changes_def record_changes_def bp_def hp_def Let_def)
    from no_regression_no_blocking [OF none _ this] assms(5) show ?thesis
      by (cases d) (simp add: change_sev_def list_all_iff)
  qed
  have no_block: "(SevBlocking, what) \<notin> set (policy_diff bp hp)" for what
    using quiet by fastforce
  have headers: "pol_CaptureHeaders hp \<longrightarrow> set (pol_RedactHeaders bp) \<subseteq> set (pol_RedactHeaders hp)"
    using policy_diff_blocks(1) no_block by blast
  have queries: "pol_CaptureQuery hp \<longrightarrow> set (pol_RedactQuery bp) \<subseteq> set (pol_RedactQuery hp)"
    using policy_diff_blocks(2) no_block by blast
  have paths: "path \<in> set (pol_RedactJSONPaths hp)" if "path \<in> set (pol_RedactJSONPaths bp)" for path
  proof -
    have "join ''.'' path \<in> set (pathSet (pol_RedactJSONPaths hp))"
      using policy_diff_blocks(3) [OF that] no_block by blast
    then show ?thesis
      using pathSet_member that unfolding bp_def hp_def by blast
  qed
  have masks: "\<exists>doc. jc_marshal jc doc = Some out \<and> masked_at doc ks"
    if "RedactJSONBody jc hp body = (out, True)" "body \<noteq> []" "path \<in> set (pol_RedactJSONPaths bp)"
      "last path \<noteq> ''**''" "pathCovers path ks" for jc body out path ks
  proof -
    have "path \<noteq> []"
      using compiled_paths that(3) unfolding bp_def by blast
    then show ?thesis
      using RedactJSONBody_masks [OF that(1,2) paths [OF that(3)] _ that(4,5)] by blast
  qed
  show ?thesis
    using headers queries masks by blast
qed

definition sample_review :: review_options where
  "sample_review = \<lparr>ro_Records = [payment ''POST''], ro_AppLogs = [], ro_Head = sample_loaded,
     ro_Base = Some sample_loaded, ro_Spec = None, ro_Window = ''24h''\<rparr>"

definition sample_review_report :: review_report where
  "sample_review_report = the (review_Run sample_env payment_unmarshal 0 sample_review)"

lemma sample_review_runs:
  "review_Run sample_env payment_unmarshal 0 sample_review = Some sample_review_report"
  "Regressions sample_review_report = 0"
proof -
  have "map_option Regressions (review_Run sample_env payment_unmarshal 0 sample_review) = Some 0"
    by code_simp
  then show "review_Run sample_env payment_unmarshal 0 sample_review = Some sample_review_report"
    and "Regressions sample_review_report = 0"
    unfolding sample_review_report_def by auto
qed

theorem review_protects_witness:
  "\<exists>doc. jc_marshal fixing_codec doc = Some ''out'' \<and> masked_at doc [''card'', ''number'']"
proof -
  let ?p = "evaluate (engine_New sample_env sample_loaded) (attrsOfRecord (payment ''POST''))"
  have base: "ro_Base sample_review = Some sample_loaded" and head: "ro_Head sample_review = sample_loaded"
    and records: "ro_Records sample_review = [payment ''POST'']"
    by (simp_all add: sample_review_def)
  have member: "payment ''POST'' \<in> set (ro_Records sample_review)"
    by (simp add: records)
  have bars: "list_all (\<lambda>n. CHR ''|'' \<notin> set (change_what n))
      (all_changes (engine_New sample_env sample_loaded) (engine_New sample_env (ro_Head sample_review))
        (ro_Records sample_review))"
    by code_simp
  have path: "[''card'', ''number''] \<in> set (pol_RedactJSONPaths ?p)"
    by code_simp
  have out: "RedactJSONBody fixing_codec ?p ''{}'' = (''out'', True)"
    by code_simp
  have covers: "pathCovers [''card'', ''number''] [''card'', ''number'']"
    by (rule pathCovers_refl)
  note P = review_protects [OF sample_review_runs(1) base sample_review_runs(2) member bars, unfolded head]
  show ?thesis
    using P path out covers by fastforce
qed

subsection \<open>What the replay does not see\<close>

text \<open>
  A change of the sampling, of the capture limit or of the expression a label reads leaves no trace,
  and the comment then says that the traffic is governed identically before and after.
\<close>

lemma diff_blind:
  "policy_diff p (p\<lparr>pol_SampleRate := rate, pol_KeepErrors := keep, pol_KeepSlowerThan := slow,
     pol_CaptureLimitBytes := limit, pol_Labels := map (\<lambda>(k, v). (k, f k v)) (pol_Labels p)\<rparr>) = []"
proof -
  have flags: "flags_diff p (p\<lparr>pol_SampleRate := rate, pol_KeepErrors := keep, pol_KeepSlowerThan := slow,
     pol_CaptureLimitBytes := limit, pol_Labels := map (\<lambda>(k, v). (k, f k v)) (pol_Labels p)\<rparr>) = []"
    by (simp add: flags_diff_def flag_change_def)
  have known: "lookup m k \<noteq> None" if "(k, v) \<in> set m" for k v and m :: "'x gomap"
    using weak_map_of_SomeI [OF that] by simp
  have labels: "filter (\<lambda>l. lookup (map (\<lambda>(k, v). (k, f k v)) (pol_Labels p)) l = None) (keys (pol_Labels p)) = []"
    using known by (fastforce simp: filter_empty_conv lookup_map_value)
  have meters: "filter (\<lambda>l. lookup (pol_Meters p) l = None) (keys (pol_Meters p)) = []"
    using known by (fastforce simp: filter_empty_conv)
  show ?thesis
    unfolding policy_diff_def flags
    by (simp add: headers_diff_def query_diff_def paths_diff_def attribution_diff_def labels meters)
qed

text \<open>Lifting every restriction is a warning on each record and never a regression.\<close>

lemma lifted_restrictions_not_blocking:
  assumes "\<not> pol_CaptureRequestBody p" and "\<not> pol_CaptureResponseBody p" and "\<not> pol_CaptureQuery p"
  shows "set (policy_diff p (p\<lparr>pol_CaptureRequestBody := True, pol_CaptureResponseBody := True, pol_CaptureQuery := True\<rparr>)) =
    {(SevWarn, ''now captures request bodies (was restricted)''),
     (SevWarn, ''now captures response bodies (was restricted)''),
     (SevWarn, ''now captures query strings (was restricted)'')}"
proof -
  have known: "lookup m k \<noteq> None" if "(k, v) \<in> set m" for k v and m :: "'x gomap"
    using weak_map_of_SomeI [OF that] by simp
  have quiet: "filter (\<lambda>l. lookup (pol_Labels p) l = None) (keys (pol_Labels p)) = []"
    "filter (\<lambda>l. lookup (pol_Meters p) l = None) (keys (pol_Meters p)) = []"
    using known by (fastforce simp: filter_empty_conv)+
  show ?thesis
    using assms
    by (auto simp: policy_diff_def flags_diff_def flag_change_def headers_diff_def query_diff_def paths_diff_def
        attribution_diff_def quiet)
qed

subsection \<open>The comment\<close>

definition CommentMarker :: string where
  "CommentMarker = ''<!-- optictrace-governance-review -->''"

definition cross :: string where "cross = [CHR 0xE2, CHR 0x9C, CHR 0x97]"
definition tick :: string where "tick = [CHR 0xE2, CHR 0x9C, CHR 0x93]"
definition warning_sign :: string where "warning_sign = [CHR 0xE2, CHR 0x9A, CHR 0xA0]"
definition middle_dot :: string where "middle_dot = [CHR 0xC2, CHR 0xB7]"
definition full_block :: string where "full_block = [CHR 0xE2, CHR 0x96, CHR 0x88]"
definition light_block :: string where "light_block = [CHR 0xE2, CHR 0x96, CHR 0x91]"
definition ellipsis :: string where "ellipsis = [CHR 0xE2, CHR 0x80, CHR 0xA6]"

text \<open>\<open>%.0f\<close> on the exact value.\<close>

definition fixed0 :: "rat \<Rightarrow> string" where
  "fixed0 q = itoa (round_even q)"

definition review_bar :: "rat \<Rightarrow> string" where
  "review_bar p =
     (let filled = trunc_int (p / 100 * 12 + 1 / 2);
          filled = (if filled > 12 then 12 else filled);
          filled = (if filled < 0 then 0 else filled)
      in ''`'' @ concat (replicate (nat filled) full_block) @ concat (replicate (12 - nat filled) light_block) @
         ''` '' @ fixed0 p @ ''%'')"

definition review_pct :: "int \<Rightarrow> int \<Rightarrow> rat" where
  "review_pct a b = (if b = 0 then 0 else of_int a / of_int b * 100)"

definition review_icon :: "string \<Rightarrow> string" where
  "review_icon sev = (if sev = SevBlocking then cross else if sev = SevWarn then warning_sign else middle_dot)"

definition leakIcon :: "string \<Rightarrow> string" where
  "leakIcon sev = (if sev = SevCritical then cross else if sev = SevHigh then warning_sign else middle_dot)"

definition inlineYAML :: "string \<Rightarrow> string" where
  "inlineYAML s = ''`'' @ join '' '' (fields_func is_space [] (map (\<lambda>c. if c = CHR 0x0A then CHR '' '' else c) s)) @ ''`''"

definition countLeaks :: "scan_finding list \<Rightarrow> int \<times> int \<times> int" where
  "countLeaks fs =
     (let crit = int (length (filter (\<lambda>f. sf_Severity f = SevCritical) fs));
          high = int (length (filter (\<lambda>f. sf_Severity f = SevHigh) fs))
      in (crit, high, int (length fs) - crit - high))"

definition review_Summary :: "review_report \<Rightarrow> string" where
  "review_Summary r =
     (if Attributable r then
        cross @ '' '' @ join '', ''
          ((if Regressions r > 0 then [itoa (Regressions r) @ '' governance regression(s)''] else []) @
           (if BreakingForClients r > 0 then [itoa (BreakingForClients r) @ '' breaking change(s)''] else []))
      else
        (case countLeaks (rr_Leaks r) of (crit, high, _) \<Rightarrow>
           tick @ '' no regressions '' @ middle_dot @ '' '' @ fixed0 (RequestPct (rr_Coverage r)) @ ''% of traffic governed'' @
           (if crit + high > 0 then '' ('' @ itoa (crit + high) @ '' pre-existing critical/high finding(s))'' else [])))"

definition review_verdict :: "review_report \<Rightarrow> string" where
  "review_verdict r =
     (if Regressions r > 0 then
        ''> ### '' @ cross @ '' This change weakens governance on '' @ itoa (Regressions r) @ '' point(s)'' @ nl @ ''>'' @ nl @
        ''> Each one below was verified by replaying real traffic. If it's deliberate, say so in the PR.'' @ nl @ nl
      else if BreakingForClients r > 0 then
        ''> ### '' @ cross @ '' This change breaks '' @ itoa (BreakingForClients r) @ '' thing(s) live clients rely on'' @ nl @ ''>'' @ nl @
        ''> Usage counts are from observed traffic, not guesses.'' @ nl @ nl
      else if rr_Leaks r \<noteq> [] \<or> rr_Suggestions r \<noteq> [] then
        ''> ### '' @ tick @ '' This change doesn't weaken governance'' @ nl @ ''>'' @ nl @
        ''> Some pre-existing findings are listed below for context '' @ em_dash @ '' they aren't caused by this PR.'' @ nl @ nl
      else
        ''> ### '' @ tick @ '' No governance concerns'' @ nl @ ''>'' @ nl @
        ''> Checked against '' @ rr_Window r @ '' of observed traffic.'' @ nl @ nl)"

definition coverage_row :: "string \<Rightarrow> int \<Rightarrow> int \<Rightarrow> rat \<Rightarrow> string" where
  "coverage_row name n whole p = ''| '' @ name @ '' | '' @ itoa n @ '' | '' @ itoa whole @ '' | '' @ review_bar p @ '' |'' @ nl"

definition review_coverage_text :: "coverage \<Rightarrow> string" where
  "review_coverage_text c =
     ''### Coverage'' @ nl @ nl @ ''| | Covered | Total | |'' @ nl @ ''|---|--:|--:|---|'' @ nl @
     coverage_row ''Requests governed by a rule'' (cv_GovernedRequests c) (cv_Requests c) (RequestPct c) @
     coverage_row ''Routes with a rule'' (cv_GovernedRoutes c) (cv_Routes c) (review_pct (cv_GovernedRoutes c) (cv_Routes c)) @
     coverage_row ''Sensitive-looking fields handled'' (cv_GovernedFields c) (cv_SensitiveFields c) (FieldPct c) @
     (if cv_NotFound c > 0 then nl @ ''<sub>'' @ itoa (cv_NotFound c) @
        '' request(s) excluded: the upstream returned 404, so those paths aren't part of the API surface.</sub>'' @ nl else []) @
     nl @
     (if cv_UngovernedRoutes c \<noteq> [] then ''<details><summary>Routes with no matching rule</summary>'' @ nl @ nl @
        concat (map (\<lambda>r. ''- '' @ quoted r @ nl) (cv_UngovernedRoutes c)) @ nl @ ''</details>'' @ nl @ nl else [])"

definition change_row :: "policy_change \<Rightarrow> string" where
  "change_row ch = ''| '' @ review_icon (pc_Severity ch) @ '' | '' @ quoted (pc_Method ch @ '' '' @ pc_Route ch) @ '' | '' @
     pc_What ch @ '' | '' @ itoa (pc_Affected ch) @ '' |'' @ nl"

definition review_changes_text :: "review_report \<Rightarrow> string" where
  "review_changes_text r =
     (if \<not> rr_ComparedBase r then []
      else ''### What this PR changes about governance'' @ nl @ nl @
        (if rr_PolicyChanges r = [] then ''No behavioural change: the same traffic is governed identically before and after.'' @ nl @ nl
         else
           ''Measured by replaying the same captured traffic under both policies.'' @ nl @ nl @
           ''| | Route | Change | Requests affected |'' @ nl @ ''|---|---|---|--:|'' @ nl @
           concat (map change_row (take 15 (rr_PolicyChanges r))) @
           (if length (rr_PolicyChanges r) > 15
            then nl @ ''_'' @ ellipsis @ ''and '' @ itoa (int (length (rr_PolicyChanges r)) - 15) @ '' more._'' @ nl else []) @
           nl))"

text \<open>The rows stop once the comment is longer than 40000 bytes.\<close>

fun leak_rows :: "string \<Rightarrow> scan_finding list \<Rightarrow> string" where
  "leak_rows b [] = b"
| "leak_rows b (f # fs) =
     (if length b > 40000 then b
      else leak_rows (b @ ''| '' @ leakIcon (sf_Severity f) @ '' | '' @ quoted (sf_Method f @ '' '' @ sf_Route f) @ '' | '' @
             quoted (sf_Location f @ ''.'' @ sf_Field f) @ '' | '' @ itoa (sf_Count f) @ '' | '' @
             inlineYAML (sf_Suggest f) @ '' |'' @ nl) fs)"

definition review_leaks_text :: "review_report \<Rightarrow> string \<Rightarrow> string" where
  "review_leaks_text r b =
     (if rr_Leaks r = [] then b
      else (case countLeaks (rr_Leaks r) of (crit, high, med) \<Rightarrow>
        leak_rows (b @ ''### Sensitive values already in stored telemetry'' @ nl @ nl @
          itoa crit @ '' critical '' @ middle_dot @ '' '' @ itoa high @ '' high '' @ middle_dot @ '' '' @ itoa med @
          '' medium '' @ em_dash @ '' pre-existing, not introduced by this PR. Samples are masked.'' @ nl @ nl @
          (if rr_LogLinesReviewed r > 0 then ''<sub>Includes '' @ itoa (rr_LogLinesReviewed r) @
             '' application log line(s). A log line is free text, '' @
             ''so its fix is a pattern or field name under `app_logs.redact` rather than a JSON path.</sub>'' @ nl @ nl
           else []) @
          ''| | Where | Field | Seen | Fix |'' @ nl @ ''|---|---|---|--:|---|'' @ nl) (rr_Leaks r) @ nl))"

definition review_breaking_text :: "review_report \<Rightarrow> string" where
  "review_breaking_text r =
     (if filterBreaking (rr_SpecFindings r) = [] then []
      else ''### Live clients depend on this'' @ nl @ nl @
        concat (map (\<lambda>f. ''- '' @ cross @ '' '' @ fd_Message f @ nl) (filterBreaking (rr_SpecFindings r))) @ nl)"

definition review_suggestions_text :: "review_report \<Rightarrow> string" where
  "review_suggestions_text r =
     (if rr_Suggestions r = [] then []
      else ''<details><summary>'' @ itoa (int (length (rr_Suggestions r))) @
        '' ungoverned field(s) that look sensitive '' @ em_dash @ '' suggested rules'' @
        ''</summary>'' @ nl @ nl @
        concat (map (\<lambda>s. ''- **'' @ su_Confidence s @ ''** '' @ quoted (su_Field s) @ '' on '' @ quoted (su_Route s) @
          '' '' @ em_dash @ '' '' @ su_Why s @ nl) (take 20 (rr_Suggestions r))) @
        nl @ ''</details>'' @ nl @ nl)"

definition Markdown :: "review_report \<Rightarrow> string" where
  "Markdown r =
     review_leaks_text r
       (CommentMarker @ nl @ ''## OpticTrace governance review'' @ nl @ nl @
        review_verdict r @ review_coverage_text (rr_Coverage r) @ review_changes_text r) @
     review_breaking_text r @ review_suggestions_text r @
     ''---'' @ nl @ ''<sub>Analysed '' @ itoa (cv_Requests (rr_Coverage r)) @ '' captured request(s) over '' @ rr_Window r @
     '' '' @ middle_dot @ '' '' @ ''`optictrace review` '' @ middle_dot @ '' governance is declared in `optic.yaml`</sub>'' @ nl"

text \<open>The headline and the exit code agree: the comment opens with a cross exactly when the default gate fails.\<close>

lemma headline_matches_gate:
  "Blocking r FailOnRegression \<longleftrightarrow> has_prefix (review_verdict r) (''> ### '' @ cross)"
  by (simp add: Blocking_def Attributable_def review_verdict_def FailOnRegression_def FailOnNever_def
      FailOnCritical_def FailOnHigh_def has_prefix_def cross_def tick_def)

lemma summary_matches_gate: "Blocking r FailOnRegression \<longleftrightarrow> has_prefix (review_Summary r) cross"
  by (auto simp: Blocking_def Attributable_def review_Summary_def FailOnRegression_def FailOnNever_def
      FailOnCritical_def FailOnHigh_def has_prefix_def cross_def tick_def split: prod.split)

end
