(* ===== verification/Access.thy ===== *)
theory Access
  imports LabelSource
begin

text \<open>
  Access control of the admin surface (\<open>ext/auth.go\<close> and \<open>internal/admin/access.go\<close>): identities,
  capabilities, the extension registries, and the chain authenticate, authorise, serve, audit that wraps
  every route.  Authenticators, authorisers, auditors and handlers are extension code: what they answer
  is a function of the request, a panic included.
\<close>

subsection \<open>Identities and capabilities\<close>

record identity =
  id_Subject :: string
  id_Name :: string
  id_Email :: string
  id_Groups :: "string list"
  id_Method :: string
  id_Attrs :: "string gomap"

definition InGroup :: "identity option \<Rightarrow> string \<Rightarrow> bool" where
  "InGroup i name = (case i of None \<Rightarrow> False | Some x \<Rightarrow> list_ex (\<lambda>g. g = name) (id_Groups x))"

type_synonym capability = string

definition CapPublic :: capability where "CapPublic = ''public''"
definition CapMetrics :: capability where "CapMetrics = ''metrics''"
definition CapReadStats :: capability where "CapReadStats = ''read:stats''"
definition CapReadPayload :: capability where "CapReadPayload = ''read:payload''"
definition CapExport :: capability where "CapExport = ''export''"
definition CapAnalyse :: capability where "CapAnalyse = ''analyse''"
definition CapReadConfig :: capability where "CapReadConfig = ''read:config''"
definition CapIngest :: capability where "CapIngest = ''ingest''"
definition CapAdmin :: capability where "CapAdmin = ''admin''"
definition CapUI :: capability where "CapUI = ''ui''"

definition Capabilities :: "capability list" where
  "Capabilities = sort [CapPublic, CapMetrics, CapReadStats, CapReadPayload, CapExport, CapAnalyse,
     CapReadConfig, CapIngest, CapAdmin, CapUI]"

record action =
  ac_Capability :: capability
  ac_Method :: string
  ac_Path :: string

datatype outcome = OutcomeAllowed | OutcomeDenied | OutcomeUnauthorized

subsection \<open>Access notes\<close>

record accessed =
  acd_Count :: int
  acd_RecordIDs :: "int list"
  acd_Filter :: string
  acd_Consumer :: string

definition no_access :: accessed where
  "no_access = \<lparr>acd_Count = 0, acd_RecordIDs = [], acd_Filter = [], acd_Consumer = []\<rparr>"

definition NoteAccess :: "accessed \<Rightarrow> accessed \<Rightarrow> accessed" where
  "NoteAccess a rec =
     \<lparr>acd_Count = acd_Count rec + acd_Count a,
      acd_RecordIDs = acd_RecordIDs rec @ acd_RecordIDs a,
      acd_Filter = (if acd_Filter a \<noteq> [] then acd_Filter a else acd_Filter rec),
      acd_Consumer = (if acd_Consumer a \<noteq> [] then acd_Consumer a else acd_Consumer rec)\<rparr>"

record audit_event =
  ev_Identity :: "identity option"
  ev_Action :: action
  ev_Outcome :: outcome
  ev_Reason :: string
  ev_Status :: int
  ev_Remote :: string
  ev_Accessed :: accessed

subsection \<open>Extensions\<close>

text \<open>\<open>ErrNoCredentials\<close>, \<open>ErrResponseWritten\<close>, and any other error by its text.\<close>

datatype authn_error = ErrNoCredentials | ErrResponseWritten | AuthnError string

definition error_text :: "authn_error \<Rightarrow> string" where
  "error_text e = (case e of
     ErrNoCredentials \<Rightarrow> ''ext: no credentials for this authenticator''
   | ErrResponseWritten \<Rightarrow> ''ext: authenticator wrote the response''
   | AuthnError s \<Rightarrow> s)"

definition ErrForbidden :: string where "ErrForbidden = ''ext: forbidden''"

text \<open>An answer comes with the status the extension wrote to the response, 0 if it wrote none.\<close>

datatype authn_answer = Identified "identity option" | Refused authn_error | AuthnPanic

record authenticator =
  an_Name :: string
  an_Authenticate :: "http_request \<Rightarrow> authn_answer \<times> int"
  an_Challenge :: "(http_request \<Rightarrow> bool \<times> int) option"

datatype authz_answer = Allowed | Denied string | AuthzPanic

record authorizer =
  az_Name :: string
  az_Authorize :: "identity option \<Rightarrow> action \<Rightarrow> authz_answer"

text \<open>A route handler: the status it writes (0 for none, which is sent as 200) and its access notes.\<close>

type_synonym admin_handler = "identity option \<Rightarrow> http_request \<Rightarrow> int \<times> accessed list"

record admin_route =
  ar_Pattern :: string
  ar_Handler :: admin_handler
  ar_Capability :: capability

text \<open>The registries; a registration that panics is \<open>None\<close>.\<close>

record registries =
  rg_authenticators :: "authenticator list"
  rg_authorizers :: "authorizer list"
  rg_auditors :: "string list"
  rg_adminRoutes :: "admin_route list"

definition RegisterAuthenticator :: "authenticator option \<Rightarrow> registries \<Rightarrow> registries option" where
  "RegisterAuthenticator a g = (case a of None \<Rightarrow> None
     | Some x \<Rightarrow> Some (g\<lparr>rg_authenticators := rg_authenticators g @ [x]\<rparr>))"

definition RegisterAuthorizer :: "authorizer option \<Rightarrow> registries \<Rightarrow> registries option" where
  "RegisterAuthorizer a g = (case a of None \<Rightarrow> None
     | Some x \<Rightarrow> Some (g\<lparr>rg_authorizers := rg_authorizers g @ [x]\<rparr>))"

definition RegisterAuditor :: "string option \<Rightarrow> registries \<Rightarrow> registries option" where
  "RegisterAuditor a g = (case a of None \<Rightarrow> None
     | Some x \<Rightarrow> Some (g\<lparr>rg_auditors := rg_auditors g @ [x]\<rparr>))"

fun RegisterAdminRoutes :: "admin_route list \<Rightarrow> registries \<Rightarrow> registries option" where
  "RegisterAdminRoutes [] g = Some g"
| "RegisterAdminRoutes (r # rs) g =
     (if ar_Pattern r = [] then None
      else if ar_Capability r = [] then None
      else RegisterAdminRoutes rs (g\<lparr>rg_adminRoutes := rg_adminRoutes g @ [r]\<rparr>))"

definition ResetRegistriesForTest :: registries where
  "ResetRegistriesForTest = \<lparr>rg_authenticators = [], rg_authorizers = [], rg_auditors = [], rg_adminRoutes = []\<rparr>"

subsection \<open>The chain\<close>

record access_control =
  acc_authns :: "authenticator list"
  acc_authzs :: "authorizer list"
  acc_auds :: "string list"
  acc_tokenAuth :: bool
  acc_AuthToken :: string

definition access_active :: "access_control \<Rightarrow> bool" where
  "access_active ac \<longleftrightarrow> acc_tokenAuth ac \<or> acc_authns ac \<noteq> [] \<or> acc_authzs ac \<noteq> [] \<or> acc_auds ac \<noteq> []"

definition constantTimeEqual :: "string \<Rightarrow> string \<Rightarrow> bool" where
  "constantTimeEqual got want \<longleftrightarrow> got = want"

definition presented_token :: "http_request \<Rightarrow> string" where
  "presented_token r =
     (let h = header_Get (req_Header r) ''Authorization''
      in if has_prefix h ''Bearer '' then trim_prefix h ''Bearer ''
         else values_Get (fst (ParseQuery (req_RawQuery r))) ''token'')"

definition shared_token_identity :: identity where
  "shared_token_identity = \<lparr>id_Subject = ''shared-token'', id_Name = ''shared token'', id_Email = [],
     id_Groups = [], id_Method = ''token'', id_Attrs = []\<rparr>"

definition authenticateToken :: "string \<Rightarrow> http_request \<Rightarrow> identity option" where
  "authenticateToken authToken r =
     (let got = presented_token r
      in if got = [] \<or> \<not> constantTimeEqual got authToken then None else Some shared_token_identity)"

definition safeAuthenticate :: "authenticator \<Rightarrow> http_request \<Rightarrow> (authn_error + identity option) \<times> int" where
  "safeAuthenticate a r = (case an_Authenticate a r of
     (Identified who, st) \<Rightarrow> (Inr who, st)
   | (Refused e, st) \<Rightarrow> (Inl e, st)
   | (AuthnPanic, st) \<Rightarrow> (Inl (AuthnError ErrForbidden), st))"

text \<open>\<open>statusWriter\<close> keeps the first status written.\<close>

definition status_written :: "int \<Rightarrow> int \<Rightarrow> int" where
  "status_written st new = (if st = 0 then new else st)"

fun walk_authenticators ::
    "authenticator list \<Rightarrow> http_request \<Rightarrow> int \<Rightarrow> authn_error \<Rightarrow> (authn_error + (authn_error + identity option)) \<times> int" where
  "walk_authenticators [] r st lastErr = (Inl lastErr, st)"
| "walk_authenticators (a # as) r st lastErr =
     (case safeAuthenticate a r of
        (Inr who, w) \<Rightarrow> (Inr (Inr who), status_written st w)
      | (Inl ErrResponseWritten, w) \<Rightarrow> (Inr (Inl ErrResponseWritten), status_written st w)
      | (Inl ErrNoCredentials, w) \<Rightarrow> walk_authenticators as r (status_written st w) lastErr
      | (Inl e, w) \<Rightarrow> walk_authenticators as r (status_written st w) e)"

definition authenticate :: "access_control \<Rightarrow> http_request \<Rightarrow> (authn_error + identity option) \<times> int" where
  "authenticate ac r =
     (case walk_authenticators (acc_authns ac) r 0 ErrNoCredentials of
        (Inr answer, st) \<Rightarrow> (answer, st)
      | (Inl lastErr, st) \<Rightarrow>
          if acc_tokenAuth ac then
            (case authenticateToken (acc_AuthToken ac) r of
               Some who \<Rightarrow> (Inr (Some who), st)
             | None \<Rightarrow> (Inl ErrNoCredentials, st))
          else if acc_authns ac = [] then (Inr None, st)
          else (Inl lastErr, st))"

definition safeAuthorize :: "authorizer \<Rightarrow> identity option \<Rightarrow> action \<Rightarrow> string option" where
  "safeAuthorize az who act = (case az_Authorize az who act of
     Allowed \<Rightarrow> None | Denied reason \<Rightarrow> Some reason | AuthzPanic \<Rightarrow> Some ErrForbidden)"

fun challenged :: "authenticator list \<Rightarrow> http_request \<Rightarrow> int \<Rightarrow> string option \<times> int" where
  "challenged [] r st = (None, st)"
| "challenged (a # as) r st = (case an_Challenge a of
     None \<Rightarrow> challenged as r st
   | Some c \<Rightarrow> (case c r of (handled, w) \<Rightarrow>
       if handled then (Some (an_Name a), status_written st w) else challenged as r (status_written st w)))"

definition refusal :: "authorizer list \<Rightarrow> identity option \<Rightarrow> action \<Rightarrow> string option" where
  "refusal azs who act =
     first_some (\<lambda>az. map_option (\<lambda>reason. az_Name az @ '': '' @ reason) (safeAuthorize az who act)) azs"

text \<open>Whether and for whom the handler ran, the status written, and the events each auditor was given.\<close>

record guard_result =
  gr_Served :: "identity option option"
  gr_Status :: int
  gr_Audit :: "(string \<times> audit_event) list"

definition guard :: "access_control \<Rightarrow> capability \<Rightarrow> admin_handler \<Rightarrow> http_request \<Rightarrow> guard_result" where
  "guard ac capability next_handler r =
     (let serve = (\<lambda>who. next_handler who r);
          action = \<lparr>ac_Capability = capability, ac_Method = req_Method r, ac_Path = req_Path r\<rparr>;
          emit = (\<lambda>who oc reason st notes.
            map (\<lambda>aud. (aud, \<lparr>ev_Identity = who, ev_Action = action, ev_Outcome = oc, ev_Reason = reason,
              ev_Status = st, ev_Remote = req_RemoteAddr r, ev_Accessed = fold NoteAccess notes no_access\<rparr>))
              (acc_auds ac))
      in if \<not> access_active ac then
           \<lparr>gr_Served = Some None, gr_Status = fst (serve None), gr_Audit = []\<rparr>
         else if req_Method r = ''OPTIONS'' then
           \<lparr>gr_Served = Some None, gr_Status = fst (serve None), gr_Audit = []\<rparr>
         else
           (case authenticate ac r of
              (Inl ErrResponseWritten, st) \<Rightarrow>
                \<lparr>gr_Served = None, gr_Status = st,
                 gr_Audit = emit None OutcomeUnauthorized ''redirected to identity provider'' st []\<rparr>
            | (answer, st) \<Rightarrow>
                (case (answer, capability = CapPublic) of
                   (Inl e, False) \<Rightarrow>
                     (case challenged (acc_authns ac) r st of
                        (Some name, w) \<Rightarrow>
                          \<lparr>gr_Served = None, gr_Status = w,
                           gr_Audit = emit None OutcomeUnauthorized (''challenged by '' @ name) w []\<rparr>
                      | (None, w) \<Rightarrow>
                          \<lparr>gr_Served = None, gr_Status = status_written w 401,
                           gr_Audit = emit None OutcomeUnauthorized (error_text e) (status_written w 401) []\<rparr>)
                 | _ \<Rightarrow>
                     (let who = (case answer of Inl _ \<Rightarrow> None | Inr i \<Rightarrow> i)
                      in case (if capability = CapPublic then None else refusal (acc_authzs ac) who action) of
                           Some reason \<Rightarrow>
                             \<lparr>gr_Served = None, gr_Status = status_written st 403,
                              gr_Audit = emit who OutcomeDenied reason (status_written st 403) []\<rparr>
                         | None \<Rightarrow>
                             (case serve who of (w, notes) \<Rightarrow>
                               \<lparr>gr_Served = Some who, gr_Status = status_written st w,
                                gr_Audit = emit who OutcomeAllowed [] (status_written st w) notes\<rparr>)))))"

subsection \<open>Who is served\<close>

lemma first_some_iff: "first_some f xs = None \<longleftrightarrow> (\<forall>x \<in> set xs. f x = None)"
  by simp

lemma walk_identified:
  "walk_authenticators as r st e = (Inr (Inr who), st') \<Longrightarrow>
     \<exists>a \<in> set as. fst (an_Authenticate a r) = Identified who"
proof (induction as arbitrary: st e)
  case (Cons a as)
  obtain ans w where run: "an_Authenticate a r = (ans, w)"
    by (cases "an_Authenticate a r")
  show ?case
  proof (cases ans)
    case (Identified x)
    with Cons.prems run show ?thesis
      by (auto simp: safeAuthenticate_def)
  next
    case (Refused f)
    with Cons run show ?thesis
      by (cases f) (auto simp: safeAuthenticate_def)
  next
    case AuthnPanic
    with Cons run show ?thesis
      by (auto simp: safeAuthenticate_def)
  qed
qed simp

text \<open>What entitles a caller: an authenticator, the shared token, or no method of authentication at all.\<close>

definition entitled :: "access_control \<Rightarrow> http_request \<Rightarrow> identity option \<Rightarrow> bool" where
  "entitled ac r who \<longleftrightarrow>
     (\<exists>a \<in> set (acc_authns ac). fst (an_Authenticate a r) = Identified who) \<or>
     (acc_tokenAuth ac \<and> presented_token r = acc_AuthToken ac \<and> presented_token r \<noteq> [] \<and>
        who = Some shared_token_identity) \<or>
     (acc_authns ac = [] \<and> \<not> acc_tokenAuth ac \<and> who = None)"

lemma authenticate_entitled:
  assumes "authenticate ac r = (Inr who, st)"
  shows "entitled ac r who"
proof (cases "walk_authenticators (acc_authns ac) r 0 ErrNoCredentials")
  case (Pair res w)
  show ?thesis
  proof (cases res)
    case (Inr answer)
    then have "walk_authenticators (acc_authns ac) r 0 ErrNoCredentials = (Inr (Inr who), w)"
      using assms Pair by (simp add: authenticate_def)
    from walk_identified [OF this] show ?thesis
      by (simp add: entitled_def)
  next
    case (Inl e)
    then show ?thesis
      using assms Pair
      by (auto simp: authenticate_def entitled_def authenticateToken_def constantTimeEqual_def Let_def
          split: if_splits option.splits)
  qed
qed

lemma refusal_None: "refusal azs who act = None \<longleftrightarrow> (\<forall>az \<in> set azs. az_Authorize az who act = Allowed)"
proof -
  have "safeAuthorize az who act = None \<longleftrightarrow> az_Authorize az who act = Allowed" for az
    by (cases "az_Authorize az who act") (simp_all add: safeAuthorize_def)
  then show ?thesis
    by (simp add: refusal_def)
qed

definition guarded_action :: "capability \<Rightarrow> http_request \<Rightarrow> action" where
  "guarded_action cap r = \<lparr>ac_Capability = cap, ac_Method = req_Method r, ac_Path = req_Path r\<rparr>"

text \<open>The exits of the chain on a route that is not public.\<close>

lemma guard_cases:
  assumes "access_active ac" and "req_Method r \<noteq> ''OPTIONS''" and "cap \<noteq> CapPublic"
  shows "gr_Served (guard ac cap h r) =
    (case fst (authenticate ac r) of
       Inl _ \<Rightarrow> None
     | Inr who \<Rightarrow> if refusal (acc_authzs ac) who (guarded_action cap r) = None then Some who else None)"
proof (cases "authenticate ac r")
  case (Pair answer st)
  show ?thesis
  proof (cases answer)
    case (Inl e)
    then show ?thesis
      using assms Pair by (cases e) (auto simp: guard_def Let_def split: option.split prod.split)
  next
    case (Inr who)
    then show ?thesis
      using assms Pair by (auto simp: guard_def guarded_action_def Let_def split: option.split prod.split)
  qed
qed


definition sample_request_with :: "string \<Rightarrow> header \<Rightarrow> http_request" where
  "sample_request_with verb h = \<lparr>req_Method = verb, req_Path = ''/api/logs'', req_RawQuery = [], req_Header = h,
     req_RemoteAddr = ''10.0.0.1:9'', req_ContentLength = 0\<rparr>"

definition token_only :: access_control where
  "token_only = \<lparr>acc_authns = [], acc_authzs = [], acc_auds = [''siem''], acc_tokenAuth = True, acc_AuthToken = ''s3cr3t''\<rparr>"

definition quiet_handler :: admin_handler where
  "quiet_handler who r = (200, [])"


text \<open>
  Every auditor is told of every decision, once: the event says that the request was allowed exactly when
  the handler ran, names the caller the handler saw, and has the status that was written.
\<close>

theorem guard_audits:
  assumes "access_active ac" and "req_Method r \<noteq> ''OPTIONS''"
  shows "map fst (gr_Audit (guard ac cap h r)) = acc_auds ac \<and>
    (\<forall>e \<in> snd ` set (gr_Audit (guard ac cap h r)).
       ev_Action e = guarded_action cap r \<and> ev_Status e = gr_Status (guard ac cap h r) \<and>
       (case gr_Served (guard ac cap h r) of
          None \<Rightarrow> ev_Outcome e \<noteq> OutcomeAllowed
        | Some who \<Rightarrow> ev_Outcome e = OutcomeAllowed \<and> ev_Identity e = who \<and>
            ev_Accessed e = fold NoteAccess (snd (h who r)) no_access))"
proof (cases "authenticate ac r")
  case (Pair answer st)
  consider (err) e where "answer = Inl e" "e = ErrResponseWritten \<or> cap \<noteq> CapPublic"
    | (public) "cap = CapPublic" "answer \<noteq> Inl ErrResponseWritten"
    | (id) who where "answer = Inr who" "cap \<noteq> CapPublic"
    by (cases answer) auto
  then show ?thesis
  proof cases
    case err
    then show ?thesis
      using assms Pair
      by (cases e) (auto simp: guard_def guarded_action_def Let_def comp_def split: option.split prod.split)
  next
    case public
    obtain w ns who where h: "h who r = (w, ns)" "who = (case answer of Inl _ \<Rightarrow> None | Inr i \<Rightarrow> i)"
      by (cases "h (case answer of Inl _ \<Rightarrow> None | Inr i \<Rightarrow> i) r") auto
    show ?thesis
    proof (cases answer)
      case (Inl e)
      then show ?thesis
        using assms Pair public h
        by (cases e) (auto simp: guard_def guarded_action_def Let_def comp_def)
    next
      case (Inr i)
      then show ?thesis
        using assms Pair public h
        by (auto simp: guard_def guarded_action_def Let_def comp_def)
    qed
  next
    case id
    obtain w ns where h: "h who r = (w, ns)"
      by (cases "h who r")
    show ?thesis
    proof (cases "refusal (acc_authzs ac) who (guarded_action cap r)")
      case None
      then show ?thesis
        using assms Pair id h by (auto simp: guard_def guarded_action_def Let_def comp_def)
    next
      case (Some reason)
      then show ?thesis
        using assms Pair id by (auto simp: guard_def guarded_action_def Let_def comp_def)
    qed
  qed
qed

theorem guard_audits_witness:
  "map fst (gr_Audit (guard token_only CapReadPayload quiet_handler (sample_request_with ''GET'' []))) = [''siem'']"
proof -
  have "access_active token_only" "req_Method (sample_request_with ''GET'' []) \<noteq> ''OPTIONS''"
    by code_simp+
  from guard_audits [OF this, of CapReadPayload quiet_handler] show ?thesis
    by (simp add: token_only_def)
qed

text \<open>
  Adding authorisers narrows access: whatever is served with more of them is served, to the same caller, with fewer.\<close>

theorem authorizers_only_narrow:
  assumes "set (acc_authzs ac) \<subseteq> set azs" and "access_active ac"
    and "gr_Served (guard (ac\<lparr>acc_authzs := azs\<rparr>) cap h r) = Some who"
  shows "gr_Served (guard ac cap h r) = Some who"
proof -
  let ?more = "ac\<lparr>acc_authzs := azs\<rparr>"
  have active: "access_active ?more"
    using assms(1,2) by (auto simp: access_active_def)
  have same: "authenticate ?more r = authenticate ac r"
    by (simp add: authenticate_def split: prod.split sum.split)
  show ?thesis
  proof (cases "req_Method r = ''OPTIONS'' \<or> cap = CapPublic")
    case True
    have "guard ?more cap h r = guard ac cap h r"
    proof (cases "req_Method r = ''OPTIONS''")
      case True
      then show ?thesis using active assms(2) by (simp add: guard_def Let_def)
    next
      case False
      with True have cap: "cap = CapPublic" by simp
      obtain answer st where run: "authenticate ac r = (answer, st)"
        by (cases "authenticate ac r")
      show ?thesis
      proof (cases answer)
        case (Inl e)
        then show ?thesis
          using False cap run active assms(2) same by (cases e) (simp_all add: guard_def Let_def split: prod.split)
      next
        case (Inr i)
        then show ?thesis
          using False cap run active assms(2) same by (simp add: guard_def Let_def split: prod.split)
      qed
    qed
    with assms(3) show ?thesis by simp
  next
    case False
    then have "req_Method r \<noteq> ''OPTIONS''" "cap \<noteq> CapPublic" by simp_all
    then show ?thesis
      using assms(1,3) same
      by (auto simp: guard_cases [OF active] guard_cases [OF assms(2)] refusal_None split: sum.splits if_splits)
  qed
qed

theorem authorizers_only_narrow_witness:
  "gr_Served (guard token_only CapReadPayload quiet_handler
     (sample_request_with ''GET'' [(''Authorization'', [''Bearer s3cr3t''])])) = Some (Some shared_token_identity)"
proof (rule authorizers_only_narrow)
  let ?azs = "[\<lparr>az_Name = ''all'', az_Authorize = (\<lambda>_ _. Allowed)\<rparr>]"
  show "set (acc_authzs token_only) \<subseteq> set ?azs"
    by (simp add: token_only_def)
  show "access_active token_only"
    by code_simp
  show "gr_Served (guard (token_only\<lparr>acc_authzs := ?azs\<rparr>) CapReadPayload quiet_handler
     (sample_request_with ''GET'' [(''Authorization'', [''Bearer s3cr3t''])])) = Some (Some shared_token_identity)"
    by code_simp
qed

subsection \<open>What the chain lets through\<close>

text \<open>
  A refusal by an authenticator is not final: an error other than "no credentials", or a panic, only
  moves the chain on, and a later authenticator or the token still identifies the caller.
\<close>

lemma refusal_not_final:
  assumes "an_Authenticate a1 r = (AuthnPanic, 0) \<or> an_Authenticate a1 r = (Refused (AuthnError e), 0)"
    and "an_Authenticate a2 r = (Identified (Some who), 0)"
    and "acc_authns ac = [a1, a2]"
  shows "authenticate ac r = (Inr (Some who), 0)"
  using assms by (auto simp: authenticate_def safeAuthenticate_def status_written_def)

text \<open>
  A request with method \<open>OPTIONS\<close> reaches the handler of a route registered without a method, with no
  credentials, whatever the capability, and no auditor is told.
\<close>

lemma options_unguarded:
  assumes "access_active ac" and "req_Method r = ''OPTIONS''"
  shows "guard ac cap h r = \<lparr>gr_Served = Some None, gr_Status = fst (h None r), gr_Audit = []\<rparr>"
  using assms by (simp add: guard_def Let_def)

end
