(* ===== verification/StoreTypes.thy ===== *)
theory StoreTypes
  imports HttpRecord AppLog Spans
begin

text \<open>
  The types of the payload store (\<open>ext/record.go\<close>, \<open>ext/applog.go\<close>, \<open>ext/span.go\<close>, \<open>ext/trace.go\<close>):
  filters and aggregates, and the contract of \<open>ext.Store\<close> as two locales.  Times are nanoseconds, 0 is
  the zero time; durations and rates are exact rationals.
\<close>

subsection \<open>Filters\<close>

record log_filter =
  f_Method :: string
  f_PathPrefix :: string
  f_Search :: string
  f_StatusMin :: int
  f_StatusMax :: int
  f_Since :: int
  f_Until :: int
  f_TraceID :: string
  f_Labels :: "string gomap"
  f_Limit :: int
  f_Offset :: int

record app_log_filter =
  lf_TraceID :: string
  lf_SpanID :: string
  lf_Service :: string
  lf_LevelMin :: string
  lf_Since :: int
  lf_Until :: int
  lf_Search :: string
  lf_Limit :: int
  lf_Offset :: int

record span_filter =
  sf_TraceID :: string
  sf_SpanID :: string
  sf_ParentSpanID :: string
  sf_Service :: string
  sf_Kind :: string
  sf_MinDurationMS :: rat
  sf_ErrorsOnly :: bool
  sf_Since :: int
  sf_Until :: int
  sf_Search :: string
  sf_Limit :: int
  sf_Offset :: int

record trace_filter =
  tf_Since :: int
  tf_ErrorsOnly :: bool
  tf_Service :: string
  tf_Search :: string
  tf_Labels :: "string gomap"
  tf_Limit :: int
  tf_Offset :: int

subsection \<open>Aggregates\<close>

record time_bucket =
  tb_Time :: int
  tb_Count :: int
  tb_Errors :: int
  tb_AvgLatency :: rat
  tb_ClientErrors :: int
  tb_P95Latency :: rat

record route_stat =
  rst_Route :: string
  rst_Method :: string
  rst_Count :: int
  rst_Errors :: int
  rst_AvgLatency :: rat
  rst_P95Latency :: rat

record store_stats =
  st_Total :: int
  st_Errors :: int
  st_ErrorRate :: rat
  st_P50LatencyMS :: rat
  st_P95LatencyMS :: rat
  st_P99LatencyMS :: rat
  st_StatusCounts :: "int gomap"
  st_Series :: "time_bucket list"
  st_TopRoutes :: "route_stat list"
  st_BodiesKept :: int
  st_BytesSeen :: int

record route_detail =
  rd_RouteStat :: route_stat
  rd_P50Latency :: rat
  rd_P99Latency :: rat
  rd_ReqBytes :: int
  rd_RespBytes :: int

record match_count =
  rmt_Rule :: string
  rmt_Count :: int

record consumer_usage =
  cu_Consumer :: string
  cu_Requests :: int
  cu_Errors :: int
  cu_ReqBytes :: int
  cu_RespBytes :: int
  cu_DurationMS :: rat
  cu_Meters :: "rat gomap"

record service_stat =
  svs_Service :: string
  svs_Requests :: int
  svs_Errors :: int
  svs_ErrorRate :: rat
  svs_AvgLatency :: rat
  svs_P95Latency :: rat
  svs_Routes :: int
  svs_Sources :: string
  svs_LastSeen :: int

record app_log_summary =
  als_Total :: int
  als_ByLevel :: "int gomap"
  als_ByService :: "int gomap"
  als_SpansWithLogs :: int

record span_breakdown =
  sb_Name :: string
  sb_Kind :: string
  sb_Count :: int
  sb_Requests :: int
  sb_Errors :: int
  sb_TotalMS :: rat
  sb_AvgMS :: rat
  sb_P95MS :: rat
  sb_MaxMS :: rat

record span_summary =
  ssm_Total :: int
  ssm_ByKind :: "int gomap"
  ssm_ByService :: "int gomap"
  ssm_RequestsWithSpans :: int
  ssm_Errors :: int

record trace_summary =
  ts_TraceID :: string
  ts_Method :: string
  ts_Route :: string
  ts_Path :: string
  ts_Service :: string
  ts_Status :: int
  ts_Spans :: int
  ts_Services :: int
  ts_Errors :: int
  ts_DurationMS :: rat
  ts_Start :: int
  ts_End :: int
  ts_Labels :: "string gomap"
  ts_LogLines :: int

subsection \<open>Go arithmetic on times\<close>

text \<open>Integer division truncates towards zero.\<close>

definition go_div :: "int \<Rightarrow> int \<Rightarrow> int" where
  "go_div a b = (if (a < 0) = (b < 0) then \<bar>a\<bar> div \<bar>b\<bar> else - (\<bar>a\<bar> div \<bar>b\<bar>))"

definition UnixMilli :: "int \<Rightarrow> int" where
  "UnixMilli t = (if t = 0 then - 62135596800000 else t div 1000000)"

lemma UnixMilli_mono: "0 < s \<Longrightarrow> s \<le> t \<Longrightarrow> UnixMilli s \<le> UnixMilli t"
  by (simp add: UnixMilli_def zdiv_mono1)

definition record_label :: "http_record \<Rightarrow> string \<Rightarrow> string" where
  "record_label r k = (case lookup (hr_Labels r) k of None \<Rightarrow> [] | Some v \<Rightarrow> v)"

text \<open>The page a store returns: \<open>Limit\<close> defaults to 50 and is capped at 500.\<close>

definition page_limit :: "log_filter \<Rightarrow> nat" where
  "page_limit f = (if f_Limit f \<le> 0 \<or> f_Limit f > 500 then 50 else nat (f_Limit f))"

lemma page_limit_bounds: "0 < page_limit f \<and> page_limit f \<le> 500"
  by (auto simp: page_limit_def)

subsection \<open>The contract of a store\<close>

text \<open>
  The operations of \<open>ext.Store\<close> that change what is stored, and the analysis read.  \<open>recs\<close> is the
  abstraction: the stored records, oldest first.  \<open>kept\<close> is what a driver keeps of a record and \<open>clock\<close>
  the precision with which it compares times.
\<close>

locale record_log =
  fixes recs :: "'s \<Rightarrow> http_record list"
    and kept :: "http_record \<Rightarrow> http_record"
    and clock :: "int \<Rightarrow> int"
    and save :: "http_record \<Rightarrow> 's \<Rightarrow> 's"
    and prune_before :: "int \<Rightarrow> 's \<Rightarrow> 's \<times> int"
    and recent :: "'s \<Rightarrow> int \<Rightarrow> int \<Rightarrow> http_record list"
    and inv :: "'s \<Rightarrow> bool"
  assumes save_inv: "inv s \<Longrightarrow> inv (save r s)"
    and save_recs: "inv s \<Longrightarrow> \<exists>n i. n \<le> length (recs s) \<and> (\<forall>q \<in> set (recs s). hr_ID q < i) \<and>
        recs (save r s) = drop n (recs s) @ [(kept r)\<lparr>hr_ID := i\<rparr>]"
    and prune_inv: "inv s \<Longrightarrow> inv (fst (prune_before c s))"
    and prune_recs: "inv s \<Longrightarrow> 0 < c \<Longrightarrow>
        recs (fst (prune_before c s)) = filter (\<lambda>r. clock c \<le> clock (hr_Time r)) (recs s)"
    and prune_count: "inv s \<Longrightarrow> snd (prune_before c s) =
        int (length (recs s)) - int (length (recs (fst (prune_before c s))))"
    and recent_recs: "inv s \<Longrightarrow> 0 < t \<Longrightarrow>
        recent s t limit = take (nat (AnalysisLimit limit))
          (rev (filter (\<lambda>r. clock t \<le> clock (hr_Time r)) (recs s)))"
begin

lemma recent_bounded: "inv s \<Longrightarrow> 0 < t \<Longrightarrow> int (length (recent s t limit)) \<le> MaxAnalysisMaxRows"
  using AnalysisLimit_bounds [of limit] by (auto simp: recent_recs min_def)

text \<open>What was saved last is what an analysis reads first.\<close>

lemma recent_newest:
  assumes "inv s" and "0 < t" and "clock t \<le> clock (hr_Time (kept r))"
  shows "\<exists>i rest. recent (save r s) t limit = (kept r)\<lparr>hr_ID := i\<rparr> # rest"
proof -
  obtain n i where "recs (save r s) = drop n (recs s) @ [(kept r)\<lparr>hr_ID := i\<rparr>]"
    using save_recs [OF assms(1)] by blast
  moreover obtain m where "nat (AnalysisLimit limit) = Suc m"
    using AnalysisLimit_bounds [of limit] by (metis gr0_implies_Suc zero_less_nat_eq)
  ultimately show ?thesis
    using assms by (auto simp: recent_recs save_inv)
qed

text \<open>Nothing older than the cutoff survives it, and nothing else is lost.\<close>

lemma pruned:
  assumes "inv s" and "0 < c"
  shows "r \<in> set (recs (fst (prune_before c s))) \<longleftrightarrow> r \<in> set (recs s) \<and> clock c \<le> clock (hr_Time r)"
  by (simp add: prune_recs assms)

lemma prune_idem:
  assumes "inv s" and "0 < c"
  shows "recs (fst (prune_before c (fst (prune_before c s)))) = recs (fst (prune_before c s))"
  by (simp add: prune_recs prune_inv assms)

lemma save_sorted:
  assumes "inv s" and "sorted_wrt (\<lambda>a b. hr_ID a < hr_ID b) (recs s)"
  shows "sorted_wrt (\<lambda>a b. hr_ID a < hr_ID b) (recs (save r s))"
proof -
  obtain n i where "\<forall>q \<in> set (recs s). hr_ID q < i"
      "recs (save r s) = drop n (recs s) @ [(kept r)\<lparr>hr_ID := i\<rparr>]"
    using save_recs [OF assms(1)] by blast
  then show ?thesis
    using assms(2) by (auto simp: sorted_wrt_append sorted_wrt_drop dest: in_set_dropD)
qed

end

text \<open>Erasure: what a label marks is removed, and only that.\<close>

definition marked :: "string \<Rightarrow> string \<Rightarrow> http_record \<Rightarrow> bool" where
  "marked label v r \<longleftrightarrow> record_label r label = v"

locale erasing_log = record_log recs kept clock save prune_before recent inv
  for recs :: "'s \<Rightarrow> http_record list" and kept clock save prune_before recent inv +
  fixes purge :: "string \<Rightarrow> string \<Rightarrow> int \<Rightarrow> 's \<Rightarrow> (string + int) \<times> 's"
  assumes purge_refused: "label = [] \<or> v = [] \<Longrightarrow> snd (purge label v before s) = s \<and> isl (fst (purge label v before s))"
    and purge_inv: "inv s \<Longrightarrow> inv (snd (purge label v before s))"
    and purge_recs: "inv s \<Longrightarrow> label \<noteq> [] \<Longrightarrow> v \<noteq> [] \<Longrightarrow> 0 \<le> before \<Longrightarrow>
        recs (snd (purge label v before s)) =
          filter (\<lambda>r. \<not> (marked label v r \<and> (before = 0 \<or> clock (hr_Time r) < clock before))) (recs s)"
    and purge_count: "inv s \<Longrightarrow> label \<noteq> [] \<Longrightarrow> v \<noteq> [] \<Longrightarrow>
        fst (purge label v before s) = Inr (int (length (recs s)) - int (length (recs (snd (purge label v before s)))))"
begin

lemma purge_erases:
  assumes "inv s" and "label \<noteq> []" and "v \<noteq> []" and "r \<in> set (recs (snd (purge label v 0 s)))"
  shows "record_label r label \<noteq> v"
  using assms purge_recs [OF assms(1-3), of 0] by (simp add: marked_def)

text \<open>Everybody else's records survive, in their order.\<close>

lemma purge_spares:
  assumes "inv s" and "label \<noteq> []" and "v \<noteq> []" and "w \<noteq> v" and "0 \<le> before"
  shows "filter (marked label w) (recs (snd (purge label v before s))) = filter (marked label w) (recs s)"
proof -
  have "marked label w r \<Longrightarrow> \<not> marked label v r" for r
    using assms(4) by (simp add: marked_def)
  then show ?thesis
    unfolding purge_recs [OF assms(1-3) assms(5)] filter_filter by (intro filter_cong) auto
qed

lemma purged_from_analysis:
  assumes "inv s" and "label \<noteq> []" and "v \<noteq> []" and "0 < t"
  shows "\<forall>r \<in> set (recent (snd (purge label v 0 s)) t limit). record_label r label \<noteq> v"
proof
  fix r assume "r \<in> set (recent (snd (purge label v 0 s)) t limit)"
  then have "r \<in> set (recs (snd (purge label v 0 s)))"
    using purge_inv [OF assms(1), of label v 0] assms(4)
    by (auto simp: recent_recs dest: in_set_takeD)
  with purge_erases [OF assms(1-3)] show "record_label r label \<noteq> v" .
qed

end

subsection \<open>Counts by reason\<close>

definition count_drop :: "string \<Rightarrow> int gomap \<Rightarrow> int gomap" where
  "count_drop k m = store k ((case lookup m k of None \<Rightarrow> 0 | Some n \<Rightarrow> n) + 1) m"

lemma sum_count_drop: "sum_list (map snd (count_drop k m)) = sum_list (map snd m) + 1"
  by (induction m) (auto simp: count_drop_def store_def split: if_splits)

end
