(* ===== verification/MemStore.thy ===== *)
theory MemStore
  imports StoreTypes Tally
begin

text \<open>
  The reference driver (\<open>examples/memstore/memstore.go\<close>): an in-memory store.  A panic is \<open>None\<close>.  Go
  iterates a map in random order; the model uses the order of first insertion, which only shows in the
  order of groups with equal counts.
\<close>

record memstore =
  ms_recs :: "http_record list"
  ms_nextID :: int
  ms_maxRecords :: int

definition mem_New :: "int \<Rightarrow> memstore" where
  "mem_New maxRecords = \<lparr>ms_recs = [], ms_nextID = 0, ms_maxRecords = maxRecords\<rparr>"

definition mem_Save :: "http_record \<Rightarrow> memstore \<Rightarrow> memstore" where
  "mem_Save rec s =
     (let next_ID = ms_nextID s + 1;
          rs = ms_recs s @ [rec\<lparr>hr_ID := next_ID\<rparr>]
      in s\<lparr>ms_nextID := next_ID,
          ms_recs := (if ms_maxRecords s > 0 \<and> int (length rs) > ms_maxRecords s
                      then drop (nat (int (length rs) - ms_maxRecords s)) rs else rs)\<rparr>)"

definition mem_matches :: "http_record \<Rightarrow> log_filter \<Rightarrow> bool" where
  "mem_matches r f \<longleftrightarrow>
     \<not> (f_Method f \<noteq> [] \<and> \<not> equal_fold (hr_Method r) (f_Method f)) \<and>
     \<not> (f_PathPrefix f \<noteq> [] \<and> \<not> has_prefix (hr_Path r) (f_PathPrefix f)) \<and>
     \<not> (f_Search f \<noteq> [] \<and> \<not> contains (hr_Path r) (f_Search f) \<and> \<not> contains (hr_RequestBody r) (f_Search f) \<and>
        \<not> contains (hr_ResponseBody r) (f_Search f)) \<and>
     \<not> (f_StatusMin f > 0 \<and> hr_Status r < f_StatusMin f) \<and>
     \<not> (f_StatusMax f > 0 \<and> hr_Status r > f_StatusMax f) \<and>
     \<not> (f_Since f \<noteq> 0 \<and> hr_Time r < f_Since f) \<and>
     \<not> (f_Until f \<noteq> 0 \<and> hr_Time r > f_Until f) \<and>
     \<not> (f_TraceID f \<noteq> [] \<and> hr_TraceID r \<noteq> f_TraceID f) \<and>
     list_all (\<lambda>(k, v). record_label r k = v) (f_Labels f)"

text \<open>\<open>hits[f.Offset:]\<close> panics for a negative offset.\<close>

definition mem_Query :: "log_filter \<Rightarrow> memstore \<Rightarrow> (http_record list \<times> int) option" where
  "mem_Query f s =
     (let hits = filter (\<lambda>r. mem_matches r f) (rev (ms_recs s));
          total_hits = int (length hits)
      in if f_Offset f \<ge> total_hits then Some ([], total_hits)
         else if f_Offset f < 0 then None
         else Some (take (page_limit f) (drop (nat (f_Offset f)) hits), total_hits))"

definition mem_Get :: "int \<Rightarrow> memstore \<Rightarrow> string + http_record" where
  "mem_Get i s = (case find (\<lambda>r. hr_ID r = i) (ms_recs s) of
     Some r \<Rightarrow> Inr r
   | None \<Rightarrow> Inl (''record '' @ itoa i @ '' not found''))"

definition mem_Count :: "memstore \<Rightarrow> int" where
  "mem_Count s = int (length (ms_recs s))"

definition mem_since :: "memstore \<Rightarrow> int \<Rightarrow> http_record list" where
  "mem_since s t = filter (\<lambda>r. \<not> hr_Time r < t) (ms_recs s)"

subsection \<open>Aggregates\<close>

definition quantileOf :: "rat list \<Rightarrow> rat \<Rightarrow> rat" where
  "quantileOf d q =
     (if d = [] then 0
      else (let d' = sort d; idx = nat \<lfloor>q * of_nat (length d)\<rfloor>
            in d' ! (if idx \<ge> length d then length d - 1 else idx)))"

definition latencies :: "http_record list \<Rightarrow> rat list" where
  "latencies rs = map hr_DurationMS (filter (\<lambda>r. \<not> hr_Stream r) rs)"

definition percentile :: "http_record list \<Rightarrow> rat \<Rightarrow> rat" where
  "percentile rs q = quantileOf (latencies rs) q"

definition server_errors :: "http_record list \<Rightarrow> int" where
  "server_errors rs = int (length (filter (\<lambda>r. hr_Status r \<ge> 500) rs))"

definition mean_latency :: "http_record list \<Rightarrow> rat" where
  "mean_latency rs = sum_list (map hr_DurationMS rs) / of_nat (length rs)"

text \<open>Appending to the slice of a group, and the groups a loop over the records builds.\<close>

definition add_to_group :: "'k \<Rightarrow> 'v \<Rightarrow> ('k \<times> 'v list) list \<Rightarrow> ('k \<times> 'v list) list" where
  "add_to_group k v gs = AList.update k ((case map_of gs k of None \<Rightarrow> [] | Some vs \<Rightarrow> vs) @ [v]) gs"

definition group_by :: "('v \<Rightarrow> 'k) \<Rightarrow> 'v list \<Rightarrow> ('k \<times> 'v list) list" where
  "group_by key vs = fold (\<lambda>v. add_to_group (key v) v) vs []"

definition status_class_name :: "http_record \<Rightarrow> string" where
  "status_class_name r = itoa (go_div (hr_Status r) 100) @ ''xx''"

definition bucket_of :: "int \<Rightarrow> int \<Rightarrow> http_record list \<Rightarrow> time_bucket" where
  "bucket_of ms k g =
     \<lparr>tb_Time = k * ms * 1000000, tb_Count = int (length g), tb_Errors = server_errors g,
      tb_AvgLatency = mean_latency g,
      tb_ClientErrors = int (length (filter (\<lambda>r. hr_Status r \<ge> 400 \<and> \<not> hr_Status r \<ge> 500) g)),
      tb_P95Latency = quantileOf (latencies g) (95 / 100)\<rparr>"

definition time_series :: "int \<Rightarrow> http_record list \<Rightarrow> time_bucket list" where
  "time_series ms rs =
     map (\<lambda>(k, g). bucket_of ms k g)
       (sort_key fst (group_by (\<lambda>r. go_div (UnixMilli (hr_Time r)) ms) rs))"

definition route_detail_of :: "(string \<times> string) \<times> http_record list \<Rightarrow> route_detail" where
  "route_detail_of kg = (case kg of ((route, verb), g) \<Rightarrow>
     \<lparr>rd_RouteStat = \<lparr>rst_Route = route, rst_Method = verb, rst_Count = int (length g),
        rst_Errors = server_errors g, rst_AvgLatency = mean_latency g, rst_P95Latency = percentile g (95 / 100)\<rparr>,
      rd_P50Latency = percentile g (50 / 100), rd_P99Latency = percentile g (99 / 100),
      rd_ReqBytes = sum_list (map hr_ReqBytes g), rd_RespBytes = sum_list (map hr_RespBytes g)\<rparr>)"

definition routeDetails :: "http_record list \<Rightarrow> route_detail list" where
  "routeDetails rs =
     sort_key (\<lambda>d. - rst_Count (rd_RouteStat d))
       (map route_detail_of (group_by (\<lambda>r. (hr_Route r, hr_Method r)) rs))"

text \<open>A bucket of less than a millisecond divides by zero as soon as there is a record.\<close>

definition mem_Stats :: "int \<Rightarrow> int \<Rightarrow> memstore \<Rightarrow> store_stats option" where
  "mem_Stats from_time bucket s =
     (let rs = mem_since s from_time;
          width = (if bucket \<le> 0 then 60 * 1000000000 else bucket);
          ms = width div 1000000;
          n = int (length rs)
      in if ms = 0 \<and> rs \<noteq> [] then None
         else Some \<lparr>st_Total = n, st_Errors = server_errors rs,
           st_ErrorRate = (if n > 0 then of_int (server_errors rs) / of_int n else 0),
           st_P50LatencyMS = percentile rs (50 / 100), st_P95LatencyMS = percentile rs (95 / 100),
           st_P99LatencyMS = percentile rs (99 / 100),
           st_StatusCounts = map (\<lambda>(k, g). (k, int (length g))) (group_by status_class_name rs),
           st_Series = time_series ms rs,
           st_TopRoutes = take 10 (map rd_RouteStat (routeDetails rs)),
           st_BodiesKept = int (length (filter (\<lambda>r. hr_RequestBody r \<noteq> [] \<or> hr_ResponseBody r \<noteq> []) rs)),
           st_BytesSeen = sum_list (map (\<lambda>r. hr_ReqBytes r + hr_RespBytes r) rs)\<rparr>)"

definition mem_RouteStats :: "int \<Rightarrow> memstore \<Rightarrow> route_detail list" where
  "mem_RouteStats from_time s = routeDetails (mem_since s from_time)"

definition service_name :: "http_record \<Rightarrow> string" where
  "service_name r = (if hr_Service r = [] then ''(unnamed)'' else hr_Service r)"

definition service_stat_of :: "string \<times> http_record list \<Rightarrow> service_stat" where
  "service_stat_of ng = (case ng of (name, g) \<Rightarrow>
     (let errs = server_errors g; sources = filter (\<lambda>x. x \<noteq> []) (map hr_Source g)
      in \<lparr>svs_Service = name, svs_Requests = int (length g), svs_Errors = errs,
          svs_ErrorRate = of_int errs / of_nat (length g), svs_AvgLatency = mean_latency g,
          svs_P95Latency = percentile g (95 / 100),
          svs_Routes = int (length (remdups (map hr_Route g))),
          svs_Sources = join '', '' (sort (remdups sources)),
          svs_LastSeen = fold (\<lambda>r last_seen. if hr_Time r > last_seen then hr_Time r else last_seen) g 0\<rparr>))"

definition mem_ServiceStats :: "int \<Rightarrow> memstore \<Rightarrow> service_stat list" where
  "mem_ServiceStats from_time s =
     sort_key (\<lambda>st. - svs_Requests st) (map service_stat_of (group_by service_name (mem_since s from_time)))"

definition mem_RuleMatchCounts :: "int \<Rightarrow> string list \<Rightarrow> memstore \<Rightarrow> match_count list" where
  "mem_RuleMatchCounts from_time names s =
     (let hits = concat (map hr_MatchedRules (mem_since s from_time))
      in map (\<lambda>name. \<lparr>rmt_Rule = name, rmt_Count = int (count_list hits name)\<rparr>) names)"

definition mem_Recent :: "memstore \<Rightarrow> int \<Rightarrow> int \<Rightarrow> http_record list" where
  "mem_Recent s from_time limit = take (nat (AnalysisLimit limit)) (rev (mem_since s from_time))"

text \<open>\<open>RecentFunc\<close> stops at the first error of the callback, which also carries the callback's state.\<close>

fun walk_records :: "('a \<Rightarrow> http_record \<Rightarrow> 'e + 'a) \<Rightarrow> http_record list \<Rightarrow> 'a \<Rightarrow> 'e + 'a" where
  "walk_records fn [] a = Inr a"
| "walk_records fn (r # rs) a = (case fn a r of Inl e \<Rightarrow> Inl e | Inr a' \<Rightarrow> walk_records fn rs a')"

definition mem_RecentFunc ::
    "memstore \<Rightarrow> int \<Rightarrow> int \<Rightarrow> ('a \<Rightarrow> http_record \<Rightarrow> 'e + 'a) \<Rightarrow> 'a \<Rightarrow> 'e + 'a" where
  "mem_RecentFunc s from_time limit fn a =
     walk_records fn (take (nat (AnalysisLimit limit)) (rev (mem_since s from_time))) a"

definition consumer_of :: "string \<Rightarrow> http_record \<Rightarrow> string" where
  "consumer_of label r = (if record_label r label = [] then ''(unattributed)'' else record_label r label)"

definition no_usage :: "string \<Rightarrow> consumer_usage" where
  "no_usage consumer = \<lparr>cu_Consumer = consumer, cu_Requests = 0, cu_Errors = 0, cu_ReqBytes = 0,
     cu_RespBytes = 0, cu_DurationMS = 0, cu_Meters = []\<rparr>"

definition sum_meter :: "string \<times> rat \<Rightarrow> rat gomap \<Rightarrow> rat gomap" where
  "sum_meter kv m = store (fst kv) ((case lookup m (fst kv) of None \<Rightarrow> 0 | Some x \<Rightarrow> x) + snd kv) m"

definition add_usage :: "http_record \<Rightarrow> consumer_usage \<Rightarrow> consumer_usage" where
  "add_usage r u =
     \<lparr>cu_Consumer = cu_Consumer u, cu_Requests = cu_Requests u + 1,
      cu_Errors = (if hr_Status r \<ge> 500 then cu_Errors u + 1 else cu_Errors u),
      cu_ReqBytes = cu_ReqBytes u + hr_ReqBytes r, cu_RespBytes = cu_RespBytes u + hr_RespBytes r,
      cu_DurationMS = cu_DurationMS u + hr_DurationMS r,
      cu_Meters = fold sum_meter (hr_Meters r) (cu_Meters u)\<rparr>"

definition usage_step :: "string \<Rightarrow> http_record \<Rightarrow> consumer_usage gomap \<Rightarrow> consumer_usage gomap" where
  "usage_step label r agg =
     (let c = consumer_of label r;
          u = (case lookup agg c of None \<Rightarrow> no_usage c | Some u \<Rightarrow> u)
      in store c (add_usage r u) agg)"

definition mem_UsageByLabel :: "int \<Rightarrow> string \<Rightarrow> memstore \<Rightarrow> consumer_usage list" where
  "mem_UsageByLabel from_time label s =
     sort_key (\<lambda>u. - cu_Requests u) (map snd (fold (usage_step label) (mem_since s from_time) []))"

subsection \<open>Retention and erasure\<close>

definition mem_Prune :: "int \<Rightarrow> memstore \<Rightarrow> memstore \<times> int" where
  "mem_Prune maxRows s =
     (if maxRows \<le> 0 then (s, 0)
      else if int (length (ms_recs s)) \<le> maxRows then (s, 0)
      else (let removed = int (length (ms_recs s)) - maxRows
            in (s\<lparr>ms_recs := drop (nat removed) (ms_recs s)\<rparr>, removed)))"

definition mem_PruneBefore :: "int \<Rightarrow> memstore \<Rightarrow> memstore \<times> int" where
  "mem_PruneBefore cutoff s =
     (if cutoff = 0 then (s, 0)
      else (s\<lparr>ms_recs := filter (\<lambda>r. \<not> hr_Time r < cutoff) (ms_recs s)\<rparr>,
            int (length (filter (\<lambda>r. hr_Time r < cutoff) (ms_recs s)))))"

definition purge_hit :: "string \<Rightarrow> string \<Rightarrow> int \<Rightarrow> http_record \<Rightarrow> bool" where
  "purge_hit label v before r \<longleftrightarrow> record_label r label = v \<and> (before = 0 \<or> hr_Time r < before)"

definition mem_Purge :: "string \<Rightarrow> string \<Rightarrow> int \<Rightarrow> memstore \<Rightarrow> (string + int) \<times> memstore" where
  "mem_Purge label v before s =
     (if label = [] \<or> v = [] then (Inl ''purge requires both a label and a value'', s)
      else (Inr (int (length (filter (purge_hit label v before) (ms_recs s)))),
            s\<lparr>ms_recs := filter (\<lambda>r. \<not> purge_hit label v before r) (ms_recs s)\<rparr>))"

subsection \<open>The contract\<close>

definition mem_inv :: "memstore \<Rightarrow> bool" where
  "mem_inv s \<longleftrightarrow> (\<forall>r \<in> set (ms_recs s). hr_ID r \<le> ms_nextID s)"

lemma mem_inv_New: "mem_inv (mem_New n)"
  by (simp add: mem_inv_def mem_New_def)

lemma length_filter_split: "length (filter P xs) = length xs - length (filter (\<lambda>x. \<not> P x) xs)"
  using sum_length_filter_compl [of P xs] by simp

lemma mem_Save_inv: "mem_inv s \<Longrightarrow> mem_inv (mem_Save r s)"
  by (fastforce simp: mem_inv_def mem_Save_def Let_def dest: in_set_dropD)

lemma mem_Save_recs:
  assumes "mem_inv s"
  shows "\<exists>n i. n \<le> length (ms_recs s) \<and> (\<forall>q \<in> set (ms_recs s). hr_ID q < i) \<and>
    ms_recs (mem_Save r s) = drop n (ms_recs s) @ [(id r)\<lparr>hr_ID := i\<rparr>]"
proof -
  have new: "\<forall>q \<in> set (ms_recs s). hr_ID q < ms_nextID s + 1"
    using assms by (auto simp: mem_inv_def)
  show ?thesis
  proof (cases "ms_maxRecords s > 0 \<and> int (Suc (length (ms_recs s))) > ms_maxRecords s")
    case True
    then have "nat (int (Suc (length (ms_recs s))) - ms_maxRecords s) \<le> length (ms_recs s)"
      by linarith
    with True new show ?thesis
      by (intro exI [of _ "nat (int (Suc (length (ms_recs s))) - ms_maxRecords s)"]
          exI [of _ "ms_nextID s + 1"]) (simp add: mem_Save_def Let_def)
  next
    case False
    with new show ?thesis
      by (intro exI [of _ 0] exI [of _ "ms_nextID s + 1"]) (auto simp: mem_Save_def Let_def)
  qed
qed

lemma mem_PruneBefore_recs:
  "0 < c \<Longrightarrow> ms_recs (fst (mem_PruneBefore c s)) = filter (\<lambda>r. c \<le> hr_Time r) (ms_recs s)"
  by (simp add: mem_PruneBefore_def not_less)

lemma mem_PruneBefore_count:
  "snd (mem_PruneBefore c s) = int (length (ms_recs s)) - int (length (ms_recs (fst (mem_PruneBefore c s))))"
proof -
  have "length (filter (\<lambda>r. hr_Time r < c) (ms_recs s)) + length (filter (\<lambda>r. \<not> hr_Time r < c) (ms_recs s)) = length (ms_recs s)"
    by (rule sum_length_filter_compl)
  then show ?thesis
    by (auto simp: mem_PruneBefore_def)
qed

lemma mem_Purge_recs:
  "label \<noteq> [] \<Longrightarrow> v \<noteq> [] \<Longrightarrow> ms_recs (snd (mem_Purge label v before s)) =
     filter (\<lambda>r. \<not> (marked label v r \<and> (before = 0 \<or> hr_Time r < before))) (ms_recs s)"
  by (simp add: mem_Purge_def purge_hit_def marked_def)

lemma mem_Purge_count:
  assumes "label \<noteq> []" and "v \<noteq> []"
  shows "fst (mem_Purge label v before s) =
    Inr (int (length (ms_recs s)) - int (length (ms_recs (snd (mem_Purge label v before s)))))"
proof -
  have "length (filter (purge_hit label v before) (ms_recs s)) +
      length (filter (\<lambda>r. \<not> purge_hit label v before r) (ms_recs s)) = length (ms_recs s)"
    by (rule sum_length_filter_compl)
  then show ?thesis
    using assms by (simp add: mem_Purge_def)
qed

interpretation mem: erasing_log ms_recs id id mem_Save mem_PruneBefore mem_Recent mem_inv mem_Purge
proof
  fix s :: memstore and r :: http_record and c t limit before :: int and label v :: string
  show "mem_inv s \<Longrightarrow> mem_inv (mem_Save r s)"
    by (rule mem_Save_inv)
  show "mem_inv s \<Longrightarrow> \<exists>n i. n \<le> length (ms_recs s) \<and> (\<forall>q \<in> set (ms_recs s). hr_ID q < i) \<and>
      ms_recs (mem_Save r s) = drop n (ms_recs s) @ [(id r)\<lparr>hr_ID := i\<rparr>]"
    by (rule mem_Save_recs)
  show "mem_inv s \<Longrightarrow> mem_inv (fst (mem_PruneBefore c s))"
    by (simp add: mem_inv_def mem_PruneBefore_def)
  show "0 < c \<Longrightarrow> ms_recs (fst (mem_PruneBefore c s)) = filter (\<lambda>r. id c \<le> id (hr_Time r)) (ms_recs s)"
    by (simp add: mem_PruneBefore_recs)
  show "snd (mem_PruneBefore c s) = int (length (ms_recs s)) - int (length (ms_recs (fst (mem_PruneBefore c s))))"
    by (rule mem_PruneBefore_count)
  show "mem_Recent s t limit =
      take (nat (AnalysisLimit limit)) (rev (filter (\<lambda>r. id t \<le> id (hr_Time r)) (ms_recs s)))"
    by (simp add: mem_Recent_def mem_since_def not_less)
  show "label = [] \<or> v = [] \<Longrightarrow> snd (mem_Purge label v before s) = s \<and> isl (fst (mem_Purge label v before s))"
    by (auto simp: mem_Purge_def)
  show "mem_inv s \<Longrightarrow> mem_inv (snd (mem_Purge label v before s))"
    by (simp add: mem_inv_def mem_Purge_def)
  show "label \<noteq> [] \<Longrightarrow> v \<noteq> [] \<Longrightarrow> ms_recs (snd (mem_Purge label v before s)) =
      filter (\<lambda>r. \<not> (marked label v r \<and> (before = 0 \<or> id (hr_Time r) < id before))) (ms_recs s)"
    by (simp add: mem_Purge_recs)
  show "label \<noteq> [] \<Longrightarrow> v \<noteq> [] \<Longrightarrow> fst (mem_Purge label v before s) =
      Inr (int (length (ms_recs s)) - int (length (ms_recs (snd (mem_Purge label v before s)))))"
    by (rule mem_Purge_count)
qed

text \<open>
  C22. An erasure removes the records that carry the label value, of any time when no bound is given; the
  records of every other value are all kept, in their order, and the count is what was removed.
\<close>

theorem erasure_exact:
  assumes "mem_inv s" and "label \<noteq> []" and "v \<noteq> []" and "w \<noteq> v" and "0 < t"
  shows "(\<forall>r \<in> set (mem_Recent (snd (mem_Purge label v 0 s)) t limit). record_label r label \<noteq> v) \<and>
    filter (marked label w) (ms_recs (snd (mem_Purge label v 0 s))) = filter (marked label w) (ms_recs s) \<and>
    fst (mem_Purge label v 0 s) =
      Inr (int (length (ms_recs s)) - int (length (ms_recs (snd (mem_Purge label v 0 s)))))"
proof (intro conjI)
  show "\<forall>r \<in> set (mem_Recent (snd (mem_Purge label v 0 s)) t limit). record_label r label \<noteq> v"
    by (rule mem.purged_from_analysis [OF assms(1-3,5)])
  show "filter (marked label w) (ms_recs (snd (mem_Purge label v 0 s))) = filter (marked label w) (ms_recs s)"
    by (rule mem.purge_spares [OF assms(1-4)]) simp
  show "fst (mem_Purge label v 0 s) =
      Inr (int (length (ms_recs s)) - int (length (ms_recs (snd (mem_Purge label v 0 s)))))"
    by (rule mem.purge_count [OF assms(1-3)])
qed

definition stored_record :: "int \<Rightarrow> string \<Rightarrow> int \<Rightarrow> rat \<Rightarrow> http_record" where
  "stored_record t tenant status ms = \<lparr>hr_ID = 0, hr_Time = t, hr_Service = ''shop'', hr_Method = ''POST'',
     hr_Path = ''/api/orders'', hr_Query = [], hr_Route = ''/api/**'', hr_Status = status, hr_DurationMS = ms,
     hr_Remote = [], hr_Source = ''proxy'', hr_TraceID = ''t1'', hr_SpanID = ''s1'', hr_ParentSpanID = [],
     hr_Stream = False, hr_RequestHeaders = [], hr_ResponseHeaders = [], hr_RequestBody = ''{}'',
     hr_ResponseBody = [], hr_ReqTruncated = False, hr_RespTruncated = False, hr_ReqBytes = 12,
     hr_RespBytes = 34, hr_Labels = [(''tenant'', tenant)], hr_MatchedRules = [''r1''],
     hr_Meters = [(''tokens'', 10)]\<rparr>"

definition two_tenants :: memstore where
  "two_tenants = mem_Save (stored_record 5000000 ''acmeX1'' 502 7)
     (mem_Save (stored_record 3000000 ''acme_1'' 200 5) (mem_New 0))"

lemma mem_inv_two_tenants: "mem_inv two_tenants"
  unfolding two_tenants_def by (intro mem_Save_inv mem_inv_New)

theorem erasure_exact_witness:
  "map (\<lambda>r. record_label r ''tenant'') (filter (marked ''tenant'' ''acmeX1'')
     (ms_recs (snd (mem_Purge ''tenant'' ''acme_1'' 0 two_tenants)))) = [''acmeX1'']"
proof -
  have "(''tenant'' :: string) \<noteq> []" "(''acme_1'' :: string) \<noteq> []" "(''acmeX1'' :: string) \<noteq> ''acme_1''" "(0 :: int) < 1"
    by simp_all
  from erasure_exact [OF mem_inv_two_tenants this]
  have "filter (marked ''tenant'' ''acmeX1'') (ms_recs (snd (mem_Purge ''tenant'' ''acme_1'' 0 two_tenants))) =
      filter (marked ''tenant'' ''acmeX1'') (ms_recs two_tenants)"
    by blast
  then show ?thesis
    by (simp only:) code_simp
qed

subsection \<open>Paging\<close>

lemma mem_Query_page:
  assumes "0 \<le> f_Offset f"
  shows "mem_Query f s = Some (take (page_limit f) (drop (nat (f_Offset f)) (filter (\<lambda>r. mem_matches r f) (rev (ms_recs s)))),
    int (length (filter (\<lambda>r. mem_matches r f) (rev (ms_recs s)))))"
  using assms by (auto simp: mem_Query_def Let_def)

lemma concat_pages: "0 < n \<Longrightarrow> concat (map (\<lambda>i. take n (drop (i * n) xs)) [0..<k]) = take (k * n) xs"
proof (induction k)
  case (Suc k)
  then show ?case
    using take_add [of "k * n" n xs] by (simp add: add.commute)
qed simp

definition at_page :: "log_filter \<Rightarrow> nat \<Rightarrow> log_filter" where
  "at_page f i = f\<lparr>f_Offset := int (i * page_limit f)\<rparr>"

lemma matches_at_page [simp]: "mem_matches r (at_page f i) = mem_matches r f"
  by (simp add: mem_matches_def at_page_def)

lemma page_limit_at_page: "page_limit (at_page f i) = page_limit f"
  by (simp add: page_limit_def at_page_def)

text \<open>
  Reading page after page returns every matching record exactly once, newest first, and each page
  reports the number of all of them.
\<close>

theorem pages_complete:
  assumes "length (ms_recs s) \<le> k * page_limit f"
  shows "concat (map (\<lambda>i. fst (the (mem_Query (at_page f i) s))) [0..<k]) =
      filter (\<lambda>r. mem_matches r f) (rev (ms_recs s)) \<and>
    (\<forall>i. map_option snd (mem_Query (at_page f i) s) = Some (int (length (filter (\<lambda>r. mem_matches r f) (ms_recs s)))))"
proof -
  let ?hits = "filter (\<lambda>r. mem_matches r f) (rev (ms_recs s))"
  have page: "mem_Query (at_page f i) s = Some (take (page_limit f) (drop (i * page_limit f) ?hits), int (length ?hits))" for i
    using mem_Query_page [of "at_page f i" s] by (simp add: page_limit_at_page) (simp add: at_page_def nat_mult_distrib)
  have "length ?hits \<le> k * page_limit f"
    using assms by (metis length_filter_le length_rev le_trans)
  then show ?thesis
    using concat_pages [of "page_limit f" ?hits k] page_limit_bounds [of f]
    by (simp add: page flip: rev_filter)
qed

definition any_record :: log_filter where
  "any_record = \<lparr>f_Method = ''post'', f_PathPrefix = ''/api'', f_Search = [], f_StatusMin = 0, f_StatusMax = 0,
     f_Since = 0, f_Until = 0, f_TraceID = [], f_Labels = [], f_Limit = 1, f_Offset = 0\<rparr>"

theorem pages_complete_witness:
  "concat (map (\<lambda>i. fst (the (mem_Query (at_page any_record i) two_tenants))) [0..<2]) =
     filter (\<lambda>r. mem_matches r any_record) (rev (ms_recs two_tenants))"
proof -
  have "length (ms_recs two_tenants) \<le> 2 * page_limit any_record"
    by code_simp
  from pages_complete [OF this] show ?thesis ..
qed

text \<open>A negative offset, which the admin surface passes on, stops the driver.\<close>

lemma negative_offset_panics: "f_Offset f < 0 \<Longrightarrow> mem_Query f s = None"
  by (simp add: mem_Query_def Let_def)

lemma narrow_bucket_panics:
  "0 < bucket \<Longrightarrow> bucket < 1000000 \<Longrightarrow> mem_since s t \<noteq> [] \<Longrightarrow> mem_Stats t bucket s = None"
  by (simp add: mem_Stats_def Let_def)

subsection \<open>Groups\<close>

lemma group_total_update:
  "sum_list (map (\<lambda>kg. sum_list (map h (snd kg))) (add_to_group k v gs)) =
     sum_list (map (\<lambda>kg. sum_list (map h (snd kg))) gs) + (h v :: 'a :: comm_monoid_add)"
  by (induction gs) (auto simp: add_to_group_def add_ac split: if_splits)

lemma group_total:
  "sum_list (map (\<lambda>kg. sum_list (map h (snd kg))) (group_by key vs)) = (sum_list (map h vs) :: 'a :: comm_monoid_add)"
proof -
  have "sum_list (map (\<lambda>kg. sum_list (map h (snd kg))) (fold (\<lambda>v. add_to_group (key v) v) vs gs)) =
      sum_list (map (\<lambda>kg. sum_list (map h (snd kg))) gs) + sum_list (map h vs)" for gs
    by (induction vs arbitrary: gs) (simp_all add: group_total_update add_ac)
  from this [of "[]"] show ?thesis
    by (simp add: group_by_def)
qed

text \<open>The groups of a loop are a tally whose entries are the members, in order.\<close>

interpretation grouping: tally key "\<lambda>v. [v]" "\<lambda>v vs. vs @ [v]" "\<lambda>v. add_to_group (key v) v"
  for key :: "'v \<Rightarrow> 'k"
  by (rule tally_update) (simp add: add_to_group_def split: option.split)

lemma fold_snoc: "fold (\<lambda>v vs. vs @ [v]) ns acc = acc @ ns"
  by (induction ns arbitrary: acc) simp_all

lemma summarise_members: "summarise (\<lambda>v. [v]) (\<lambda>v vs. vs @ [v]) ns = (if ns = [] then None else Some ns)"
  by (cases ns) (simp_all add: fold_snoc)

lemma group_members:
  "map_of (group_by key vs) k =
     (if filter (\<lambda>v. key v = k) vs = [] then None else Some (filter (\<lambda>v. key v = k) vs))"
  unfolding group_by_def grouping.fold_lookup summarise_members ..

lemma distinct_group_by: "distinct (map fst (group_by key vs))"
  unfolding group_by_def by (rule grouping.fold_distinct) simp

lemma group_by_entry:
  assumes "(k, g) \<in> set (group_by key vs)"
  shows "g = filter (\<lambda>v. key v = k) vs \<and> g \<noteq> []"
  using map_of_is_SomeI [OF distinct_group_by assms] unfolding group_members
  by (auto split: if_splits)

lemma sum_list_insort_key: "sum_list (map h (insort_key f x xs)) = (h x + sum_list (map h xs) :: 'a :: comm_monoid_add)"
  by (induction xs) (simp_all add: add_ac)

lemma sum_list_sort_key: "sum_list (map h (sort_key f xs)) = (sum_list (map h xs) :: 'a :: comm_monoid_add)"
  by (induction xs) (simp_all add: sum_list_insort_key)

lemma length_filter_insort: "length (filter P (insort_key f x xs)) = length (filter P (x # xs))"
  by (induction xs) auto

lemma length_filter_sort: "length (filter P (sort_key f xs)) = length (filter P xs)"
  by (induction xs) (simp_all add: length_filter_insort)

lemma sum_lengths: "sum_list (map (\<lambda>kg. int (length (snd kg))) (group_by key vs)) = int (length vs)"
  using group_total [of "\<lambda>_. 1 :: int" key vs] by (simp add: sum_list_triv)

lemma sum_errors: "sum_list (map (\<lambda>kg. server_errors (snd kg)) (group_by key vs)) = server_errors vs"
proof -
  have "server_errors g = sum_list (map (\<lambda>r. if hr_Status r \<ge> 500 then 1 else 0) g)" for g
    by (induction g) (simp_all add: server_errors_def)
  then show ?thesis
    using group_total [of "\<lambda>r. if hr_Status r \<ge> 500 then 1 else 0 :: int" key vs] by simp
qed

subsection \<open>Statistics\<close>

text \<open>
  The series and the status classes account for every record of the window, and the errors of the
  series are those of the window.
\<close>

lemma series_counts: "sum_list (map tb_Count (time_series ms rs)) = int (length rs)"
  unfolding time_series_def map_map comp_def
  by (simp add: sum_list_sort_key split_def bucket_of_def sum_lengths)

lemma series_errors: "sum_list (map tb_Errors (time_series ms rs)) = server_errors rs"
  unfolding time_series_def map_map comp_def
  by (simp add: sum_list_sort_key split_def bucket_of_def sum_errors)

theorem stats_add_up:
  assumes "mem_Stats t bucket s = Some st"
  shows "st_Total st = int (length (mem_since s t)) \<and>
    sum_list (map tb_Count (st_Series st)) = st_Total st \<and>
    sum_list (map tb_Errors (st_Series st)) = st_Errors st \<and>
    sum_list (map snd (st_StatusCounts st)) = st_Total st \<and>
    (\<forall>b \<in> set (st_Series st). 0 < tb_Count b)"
proof -
  define rs where "rs = mem_since s t"
  obtain ms where st: "st_Total st = int (length rs)" "st_Errors st = server_errors rs"
      "st_Series st = time_series ms rs"
      "st_StatusCounts st = map (\<lambda>(k, g). (k, int (length g))) (group_by status_class_name rs)"
    using assms by (auto simp: mem_Stats_def Let_def rs_def split: if_splits)
  have "0 < tb_Count b" if "b \<in> set (time_series ms rs)" for b
    using that by (auto simp: time_series_def bucket_of_def dest: group_by_entry)
  then show ?thesis
    unfolding st rs_def [symmetric]
    by (simp add: series_counts series_errors split_def comp_def sum_lengths)
qed

theorem stats_add_up_witness:
  "sum_list (map tb_Count (st_Series (the (mem_Stats 1 1000000 two_tenants)))) = 2"
proof -
  have some: "mem_Stats 1 1000000 two_tenants \<noteq> None"
    by code_simp
  then obtain st where "mem_Stats 1 1000000 two_tenants = Some st"
    by blast
  moreover from stats_add_up [OF this] have "sum_list (map tb_Count (st_Series st)) = int (length (mem_since two_tenants 1))"
    by simp
  moreover have "length (mem_since two_tenants 1) = 2"
    by code_simp
  ultimately show ?thesis by simp
qed

lemma sorted_nth_count:
  assumes "sorted xs" and "i < length xs"
  shows "i < length (filter (\<lambda>x. x \<le> xs ! i) xs)"
proof -
  have "\<forall>x \<in> set (take (Suc i) xs). x \<le> xs ! i"
    using assms by (auto simp: in_set_conv_nth sorted_iff_nth_mono less_Suc_eq_le)
  then have "filter (\<lambda>x. x \<le> xs ! i) (take (Suc i) xs) = take (Suc i) xs"
    by simp
  then have "Suc i \<le> length (filter (\<lambda>x. x \<le> xs ! i) (take (Suc i) xs @ drop (Suc i) xs))"
    unfolding filter_append using assms(2) by simp
  then show ?thesis by simp
qed

text \<open>A quantile is a measured value, and more than the asked share of the values is at or below it.\<close>

theorem quantile_correct:
  assumes "d \<noteq> []" and "0 \<le> q" and "q < 1"
  shows "quantileOf d q \<in> set d \<and>
    q * of_nat (length d) < of_nat (length (filter (\<lambda>x. x \<le> quantileOf d q) d))"
proof -
  let ?n = "length d" and ?idx = "nat \<lfloor>q * of_nat (length d)\<rfloor>"
  have pos: "0 < (of_nat ?n :: rat)"
    using assms(1) by simp
  have "q * of_nat ?n < of_nat ?n"
    using mult_strict_right_mono [OF assms(3) pos] by simp
  then have "\<lfloor>q * of_nat ?n\<rfloor> < int ?n"
    by (simp add: floor_less_iff)
  then have idx: "?idx < ?n"
    using assms(1) by (cases d) auto
  then have val: "quantileOf d q = sort d ! ?idx"
    using assms(1) by (simp add: quantileOf_def Let_def)
  have "?idx < length (filter (\<lambda>x. x \<le> sort d ! ?idx) (sort d))"
    by (rule sorted_nth_count) (use idx in simp_all)
  also have "\<dots> = length (filter (\<lambda>x. x \<le> sort d ! ?idx) d)"
    by (rule length_filter_sort)
  finally have "of_nat (Suc ?idx) \<le> (of_nat (length (filter (\<lambda>x. x \<le> quantileOf d q) d)) :: rat)"
    unfolding val of_nat_le_iff by simp
  moreover have "q * of_nat ?n < of_nat (Suc ?idx)"
    using assms(2) pos by (simp add: of_nat_nat floor_less_iff) linarith
  moreover have "quantileOf d q \<in> set d"
    unfolding val using idx by (metis length_sort nth_mem set_sort)
  ultimately show ?thesis by linarith
qed

theorem quantile_correct_witness: "quantileOf [3, 1, 2] (1 / 2) \<in> {1, 2, 3}"
  using quantile_correct [of "[3, 1, 2]" "1 / 2"] by auto

subsection \<open>Cost attribution\<close>

interpretation usage: tally "consumer_of label" "\<lambda>r. add_usage r (no_usage (consumer_of label r))" add_usage "usage_step label"
  for label
  by (rule tally_update) (simp add: usage_step_def store_def Let_def split: option.split)

lemma fold_add_usage:
  "fold add_usage rs u =
     \<lparr>cu_Consumer = cu_Consumer u, cu_Requests = cu_Requests u + int (length rs),
      cu_Errors = cu_Errors u + server_errors rs,
      cu_ReqBytes = cu_ReqBytes u + sum_list (map hr_ReqBytes rs),
      cu_RespBytes = cu_RespBytes u + sum_list (map hr_RespBytes rs),
      cu_DurationMS = cu_DurationMS u + sum_list (map hr_DurationMS rs),
      cu_Meters = fold sum_meter (concat (map hr_Meters rs)) (cu_Meters u)\<rparr>"
  by (induction rs arbitrary: u) (simp_all add: add_usage_def server_errors_def)

lemma summarise_usage:
  "summarise (\<lambda>r. add_usage r (no_usage (consumer_of label r))) add_usage (filter (\<lambda>r. consumer_of label r = c) rs) =
     (if filter (\<lambda>r. consumer_of label r = c) rs = [] then None
      else Some (fold add_usage (filter (\<lambda>r. consumer_of label r = c) rs) (no_usage c)))"
proof (cases "filter (\<lambda>r. consumer_of label r = c) rs")
  case (Cons n ns)
  then have "consumer_of label n = c"
    using filter_eq_ConsD [OF Cons] by auto
  with Cons show ?thesis by simp
qed simp

text \<open>
  The usage report has one row per consumer, and the row adds up the traffic of exactly the records
  that carry it: requests, errors, bytes and time.
\<close>

theorem usage_attributed:
  "u \<in> set (mem_UsageByLabel t label s) \<longleftrightarrow>
     (let g = filter (\<lambda>r. consumer_of label r = cu_Consumer u) (mem_since s t)
      in g \<noteq> [] \<and> u = \<lparr>cu_Consumer = cu_Consumer u, cu_Requests = int (length g), cu_Errors = server_errors g,
           cu_ReqBytes = sum_list (map hr_ReqBytes g), cu_RespBytes = sum_list (map hr_RespBytes g),
           cu_DurationMS = sum_list (map hr_DurationMS g), cu_Meters = fold sum_meter (concat (map hr_Meters g)) []\<rparr>)"
proof -
  have "u \<in> set (mem_UsageByLabel t label s) \<longleftrightarrow> (\<exists>c. let g = filter (\<lambda>r. consumer_of label r = c) (mem_since s t)
      in g \<noteq> [] \<and> fold add_usage g (no_usage c) = u)"
    unfolding mem_UsageByLabel_def set_sort set_map usage.entries summarise_usage Let_def
    by (intro ex_cong1) auto
  then show ?thesis
    unfolding fold_add_usage Let_def by (auto simp: no_usage_def)
qed

end
