(* ===== verification/SqlText.thy ===== *)
theory SqlText
  imports StoreTypes TraceCtx
begin

text \<open>
  What the SQLite driver relies on in SQL and JSON text: the \<open>LIKE\<close> operator, the escaping of its
  patterns (\<open>likeEscape\<close> of \<open>internal/store/sqlite.go\<close>), the text of a label map and the member lookup of
  \<open>json_extract\<close>.
\<close>

subsection \<open>\<open>LIKE\<close>\<close>

text \<open>\<open>%\<close> is any text, \<open>_\<close> one character; letters compare without regard to ASCII case.\<close>

function like :: "char option \<Rightarrow> string \<Rightarrow> string \<Rightarrow> bool" where
  "like e [] s = (s = [])"
| "like e (p # ps) s =
     (if e = Some p then
        (case ps of [] \<Rightarrow> False | q # qs \<Rightarrow>
          (case s of [] \<Rightarrow> False | c # cs \<Rightarrow> lower_char q = lower_char c \<and> like e qs cs))
      else if p = CHR ''%'' then like e ps s \<or> (case s of [] \<Rightarrow> False | c # cs \<Rightarrow> like e (p # ps) cs)
      else (case s of [] \<Rightarrow> False | c # cs \<Rightarrow> (p = CHR ''_'' \<or> lower_char p = lower_char c) \<and> like e ps cs))"
  by pat_completeness auto
termination by (relation "measure (\<lambda>(e, p, s). length p + length s)") auto

abbreviation backslash :: char where "backslash \<equiv> CHR 0x5C"

definition like_special :: "char \<Rightarrow> bool" where
  "like_special c \<longleftrightarrow> c = backslash \<or> c = CHR ''%'' \<or> c = CHR ''_''"

definition likeEscape :: "string \<Rightarrow> string" where
  "likeEscape s = concat (map (\<lambda>c. if like_special c then [backslash, c] else [c]) s)"

declare like.simps(2) [simp del]

lemma like_percent_step:
  assumes "e \<noteq> Some CHR ''%''"
  shows "like e (CHR ''%'' # ps) [] = like e ps []"
    and "like e (CHR ''%'' # ps) (c # cs) = (like e ps (c # cs) \<or> like e (CHR ''%'' # ps) cs)"
  by (subst like.simps(2); simp add: assms)+

lemma like_percent:
  assumes "e \<noteq> Some CHR ''%''"
  shows "like e (CHR ''%'' # ps) s \<longleftrightarrow> (\<exists>a b. s = a @ b \<and> like e ps b)"
proof (induction s)
  case Nil
  then show ?case by (simp add: like_percent_step assms)
next
  case (Cons c cs)
  then show ?case
    by (auto simp: like_percent_step assms Cons_eq_append_conv)
qed

lemma like_any_suffix: "e \<noteq> Some CHR ''%'' \<Longrightarrow> like e ''%'' s"
  by (simp add: like_percent)

lemma like_escaped:
  "like (Some backslash) (likeEscape v @ ps) s \<longleftrightarrow>
     (\<exists>a b. s = a @ b \<and> to_lower a = to_lower v \<and> like (Some backslash) ps b)"
proof (induction v arbitrary: s)
  case Nil
  then show ?case by (auto simp: likeEscape_def to_lower_def)
next
  case (Cons c v)
  have step: "like (Some backslash) (likeEscape (c # v) @ ps) s \<longleftrightarrow>
      (\<exists>d ds. s = d # ds \<and> lower_char c = lower_char d \<and> like (Some backslash) (likeEscape v @ ps) ds)"
    by (cases s) (auto simp: likeEscape_def like_special_def like.simps(2))
  show ?case
    unfolding step Cons.IH
  proof
    assume "\<exists>d ds. s = d # ds \<and> lower_char c = lower_char d \<and>
      (\<exists>a b. ds = a @ b \<and> to_lower a = to_lower v \<and> like (Some backslash) ps b)"
    then obtain d a b where "s = (d # a) @ b" "lower_char c = lower_char d" "to_lower a = to_lower v"
        "like (Some backslash) ps b"
      by auto
    then show "\<exists>a b. s = a @ b \<and> to_lower a = to_lower (c # v) \<and> like (Some backslash) ps b"
      by (intro exI [of _ "d # a"] exI [of _ b]) (simp add: to_lower_def)
  next
    assume "\<exists>a b. s = a @ b \<and> to_lower a = to_lower (c # v) \<and> like (Some backslash) ps b"
    then obtain a b where a: "s = a @ b" "to_lower a = to_lower (c # v)" "like (Some backslash) ps b"
      by blast
    then obtain d a' where "a = d # a'"
      by (cases a) (auto simp: to_lower_def)
    with a show "\<exists>d ds. s = d # ds \<and> lower_char c = lower_char d \<and>
      (\<exists>a b. ds = a @ b \<and> to_lower a = to_lower v \<and> like (Some backslash) ps b)"
      by (auto simp: to_lower_def)
  qed
qed

definition like_infix :: "string \<Rightarrow> string" where
  "like_infix v = ''%'' @ likeEscape v @ ''%''"

text \<open>An escaped pattern finds the text itself, in any case of its letters.\<close>

lemma like_infix_iff: "like (Some backslash) (like_infix v) s \<longleftrightarrow> contains (to_lower s) (to_lower v)"
proof -
  have "like (Some backslash) (like_infix v) s \<longleftrightarrow> (\<exists>x r. s = x @ r \<and> (\<exists>a b. r = a @ b \<and> to_lower a = to_lower v))"
    unfolding like_infix_def append_Cons append_Nil
    by (simp add: like_percent [of "Some backslash" "likeEscape v @ ''%''"] like_escaped like_any_suffix)
  also have "\<dots> \<longleftrightarrow> (\<exists>x a b. s = x @ a @ b \<and> to_lower a = to_lower v)"
    by blast
  also have "\<dots> \<longleftrightarrow> (\<exists>x b. to_lower s = x @ to_lower v @ b)"
  proof
    assume "\<exists>x a b. s = x @ a @ b \<and> to_lower a = to_lower v"
    then obtain x a b where "s = x @ a @ b" "to_lower a = to_lower v"
      by blast
    then have "to_lower s = to_lower x @ to_lower v @ to_lower b"
      by (simp add: to_lower_def)
    then show "\<exists>x b. to_lower s = x @ to_lower v @ b"
      by blast
  next
    assume "\<exists>x b. to_lower s = x @ to_lower v @ b"
    then obtain x b where "map lower_char s = x @ to_lower v @ b"
      by (auto simp: to_lower_def)
    then obtain us a bs where "s = us @ a @ bs" "to_lower v = map lower_char a"
      by (auto simp: map_eq_append_conv append_eq_map_conv)
    then show "\<exists>x a b. s = x @ a @ b \<and> to_lower a = to_lower v"
      by (auto simp: to_lower_def)
  qed
  finally show ?thesis
    by (simp add: contains_iff)
qed

subsection \<open>JSON text of a label map\<close>

definition json_char :: "char \<Rightarrow> string" where
  "json_char c =
     (if c = CHR 0x22 \<or> c = backslash then [backslash, c]
      else if c = CHR 0x08 then [backslash, CHR ''b''] else if c = CHR 0x0C then [backslash, CHR ''f'']
      else if c = CHR 0x0A then [backslash, CHR ''n''] else if c = CHR 0x0D then [backslash, CHR ''r'']
      else if c = CHR 0x09 then [backslash, CHR ''t'']
      else if byte c < 32 \<or> c = CHR ''<'' \<or> c = CHR ''>'' \<or> c = CHR ''&''
        then backslash # ''u00'' @ [hex_digit (byte c div 16), hex_digit (byte c mod 16)]
      else [c])"

definition json_quote :: "string \<Rightarrow> string" where
  "json_quote s = CHR 0x22 # concat (map json_char s) @ [CHR 0x22]"

definition json_pair :: "string \<times> string \<Rightarrow> string" where
  "json_pair kv = json_quote (fst kv) @ '':'' @ json_quote (snd kv)"

text \<open>\<open>json.Marshal\<close> of a map writes its members in the order of their names; a nil map is \<open>null\<close>.\<close>

definition map_json :: "string gomap \<Rightarrow> string" where
  "map_json m =
     (if m = [] then ''null''
      else ''{'' @ join '','' (map (\<lambda>k. json_pair (k, the (lookup m k))) (sorted_keys m)) @ ''}'')"

lemma contains_join: "x \<in> set xs \<Longrightarrow> contains (join sep xs) x"
proof (induction xs)
  case (Cons y ys)
  show ?case
  proof (cases "x = y")
    case True
    then have "join sep (y # ys) = [] @ x @ (if ys = [] then [] else sep @ join sep ys)"
      by (simp add: join_Cons)
    then show ?thesis
      by (metis contains_iff)
  next
    case False
    with Cons have "contains (join sep ys) x" "ys \<noteq> []"
      by auto
    then obtain a b where "join sep ys = a @ x @ b"
      by (auto simp: contains_iff)
    then have "join sep (y # ys) = (y @ sep @ a) @ x @ b"
      using \<open>ys \<noteq> []\<close> by (simp add: join_Cons)
    then show ?thesis
      by (metis contains_iff)
  qed
qed simp

text \<open>A member of the map is found in its text.\<close>

lemma map_json_member:
  assumes "lookup m k = Some v"
  shows "contains (map_json m) (json_pair (k, v))"
proof -
  have "k \<in> set (sorted_keys m)" "m \<noteq> []"
    using assms by (force dest: map_of_SomeD)+
  then have "contains (join '','' (map (\<lambda>k. json_pair (k, the (lookup m k))) (sorted_keys m))) (json_pair (k, v))"
    using assms by (intro contains_join) force
  then obtain a b where "join '','' (map (\<lambda>k. json_pair (k, the (lookup m k))) (sorted_keys m)) = a @ json_pair (k, v) @ b"
    by (auto simp: contains_iff)
  then have "map_json m = (''{'' @ a) @ json_pair (k, v) @ (b @ ''}'')"
    using \<open>m \<noteq> []\<close> by (simp add: map_json_def)
  then show ?thesis
    by (metis contains_iff)
qed

lemma contains_to_lower: "contains s t \<Longrightarrow> contains (to_lower s) (to_lower t)"
  by (metis contains_iff map_append to_lower_def)

text \<open>
  \<open>json_extract(labels, '$.' || k)\<close>: a name with a dot or a bracket is read as a path, which leads
  nowhere in a map of strings, and a quoted name names the member inside the quotes.
\<close>

definition json_member :: "string gomap \<Rightarrow> string \<Rightarrow> string option" where
  "json_member m k =
     (if k \<noteq> [] \<and> hd k = CHR 0x22 then
        (if length k \<ge> 2 \<and> last k = CHR 0x22 \<and> CHR 0x22 \<notin> set (butlast (tl k)) then lookup m (butlast (tl k)) else None)
      else if CHR ''.'' \<in> set k \<or> CHR ''['' \<in> set k then None
      else lookup m k)"

definition plain_key :: "string \<Rightarrow> bool" where
  "plain_key k \<longleftrightarrow> CHR 0x22 \<notin> set k \<and> CHR ''.'' \<notin> set k \<and> CHR ''['' \<notin> set k"

lemma json_member_plain: "plain_key k \<Longrightarrow> json_member m k = lookup m k"
  by (cases k) (auto simp: json_member_def plain_key_def)

end
