(* ===== verification/SqliteStore.thy ===== *)
theory SqliteStore
  imports SqlText MemStore
begin

text \<open>
  The SQLite driver (\<open>internal/store/sqlite.go\<close> with its application log, span and trace files): three
  tables, and every statement as the function on them that its SQL text describes.  A row is its
  millisecond time stamp with the other columns; columns of JSON text hold what the text decodes to.
  Errors of the database are not modelled, and where SQL leaves the order of equal rows open, the
  order of insertion is used.
\<close>

record sqlite =
  sq_logs :: "(int \<times> http_record) list"
  sq_logs_seq :: int
  sq_app_logs :: "(int \<times> app_log) list"
  sq_app_logs_seq :: int
  sq_spans :: "(int \<times> span) list"
  sq_spans_seq :: int

definition empty_sqlite :: sqlite where
  "empty_sqlite = \<lparr>sq_logs = [], sq_logs_seq = 0, sq_app_logs = [], sq_app_logs_seq = 0, sq_spans = [], sq_spans_seq = 0\<rparr>"

definition time_UnixMilli :: "int \<Rightarrow> int" where
  "time_UnixMilli ms = ms * 1000000"

definition scanRecord :: "int \<times> http_record \<Rightarrow> http_record" where
  "scanRecord row = (snd row)\<lparr>hr_Time := time_UnixMilli (fst row)\<rparr>"

definition sql_Save :: "http_record \<Rightarrow> sqlite \<Rightarrow> sqlite" where
  "sql_Save r s = s\<lparr>sq_logs := sq_logs s @ [(UnixMilli (hr_Time r), r\<lparr>hr_ID := sq_logs_seq s + 1\<rparr>)],
     sq_logs_seq := sq_logs_seq s + 1\<rparr>"

subsection \<open>Queries\<close>

definition buildWhere :: "log_filter \<Rightarrow> int \<times> http_record \<Rightarrow> bool" where
  "buildWhere f row = (case row of (ts, r) \<Rightarrow>
     (f_Method f \<noteq> [] \<longrightarrow> hr_Method r = to_upper (f_Method f)) \<and>
     (f_PathPrefix f \<noteq> [] \<longrightarrow> like None (f_PathPrefix f @ ''%'') (hr_Path r)) \<and>
     (f_Search f \<noteq> [] \<longrightarrow> (let p = ''%'' @ f_Search f @ ''%'' in
        like None p (hr_Path r) \<or> like None p (hr_Query r) \<or> like None p (hr_RequestBody r) \<or>
        like None p (hr_ResponseBody r))) \<and>
     (f_StatusMin f > 0 \<longrightarrow> hr_Status r \<ge> f_StatusMin f) \<and>
     (f_StatusMax f > 0 \<longrightarrow> hr_Status r \<le> f_StatusMax f) \<and>
     (f_Since f \<noteq> 0 \<longrightarrow> ts \<ge> UnixMilli (f_Since f)) \<and>
     (f_Until f \<noteq> 0 \<longrightarrow> ts \<le> UnixMilli (f_Until f)) \<and>
     (f_TraceID f \<noteq> [] \<longrightarrow> hr_TraceID r = f_TraceID f) \<and>
     list_all (\<lambda>k. json_member (hr_Labels r) k = lookup (f_Labels f) k) (sorted_keys (f_Labels f)))"

text \<open>\<open>LIMIT ? OFFSET ?\<close>: a negative offset counts as zero.\<close>

definition limit_offset :: "int \<Rightarrow> int \<Rightarrow> 'a list \<Rightarrow> 'a list" where
  "limit_offset limit offset rows = take (nat limit) (drop (nat offset) rows)"

definition sql_Query :: "log_filter \<Rightarrow> sqlite \<Rightarrow> http_record list \<times> int" where
  "sql_Query f s =
     (let hits = filter (buildWhere f) (sq_logs s)
      in (map scanRecord (limit_offset (int (page_limit f)) (f_Offset f) (rev hits)), int (length hits)))"

definition sql_Get :: "int \<Rightarrow> sqlite \<Rightarrow> http_record option" where
  "sql_Get i s = map_option scanRecord (find (\<lambda>row. hr_ID (snd row) = i) (sq_logs s))"

definition sql_since :: "sqlite \<Rightarrow> int \<Rightarrow> (int \<times> http_record) list" where
  "sql_since s t = filter (\<lambda>row. fst row \<ge> UnixMilli t) (sq_logs s)"

text \<open>\<open>ORDER BY duration_ms LIMIT 1 OFFSET ?\<close>; no row leaves the zero of the result in place.\<close>

definition nth_duration :: "rat list \<Rightarrow> int \<Rightarrow> rat" where
  "nth_duration d offset = (case limit_offset 1 offset (sort d) of [] \<Rightarrow> 0 | x # _ \<Rightarrow> x)"

definition offset_for :: "rat \<Rightarrow> int \<Rightarrow> int" where
  "offset_for q total_rows = (let offset = trunc_int (q * of_int total_rows) in if offset \<ge> total_rows then total_rows - 1 else offset)"

text \<open>
  The percentile of a bucket in the series: the least duration whose rank reaches
  \<open>CAST(0.95 * n AS INTEGER)\<close>, ranks counting from 1.
\<close>

definition ranked_p95 :: "rat list \<Rightarrow> rat" where
  "ranked_p95 d =
     (let threshold = trunc_int (95 / 100 * of_nat (length d))
      in case drop (nat (threshold - 1)) (sort d) of [] \<Rightarrow> 0 | x # _ \<Rightarrow> x)"

definition sql_bucket :: "int \<times> http_record list \<Rightarrow> time_bucket" where
  "sql_bucket kg = (case kg of (bt, g) \<Rightarrow>
     \<lparr>tb_Time = time_UnixMilli bt, tb_Count = int (length g), tb_Errors = server_errors g,
      tb_AvgLatency = mean_latency g,
      tb_ClientErrors = int (length (filter (\<lambda>r. hr_Status r \<ge> 400 \<and> hr_Status r < 500) g)),
      tb_P95Latency = ranked_p95 (latencies g)\<rparr>)"

definition grouped_rows :: "(int \<times> http_record \<Rightarrow> 'k) \<Rightarrow> (int \<times> http_record) list \<Rightarrow> ('k \<times> http_record list) list" where
  "grouped_rows key rows = map (\<lambda>(k, g). (k, map snd g)) (group_by key rows)"

definition sql_route_stat :: "(string \<times> string) \<times> http_record list \<Rightarrow> route_stat" where
  "sql_route_stat kg = (case kg of ((route, verb), g) \<Rightarrow>
     \<lparr>rst_Route = route, rst_Method = verb, rst_Count = int (length g), rst_Errors = server_errors g,
      rst_AvgLatency = mean_latency g,
      rst_P95Latency = nth_duration (latencies g) (offset_for (95 / 100) (int (length g)))\<rparr>)"

definition route_groups :: "(int \<times> http_record) list \<Rightarrow> ((string \<times> string) \<times> http_record list) list" where
  "route_groups rows = sort_key (\<lambda>kg. - int (length (snd kg)))
     (grouped_rows (\<lambda>row. (hr_Route (snd row), hr_Method (snd row))) rows)"

definition stats_offset :: "rat \<Rightarrow> int \<Rightarrow> int" where
  "stats_offset q total_rows = (let offset = trunc_int (q * of_int total_rows)
     in if offset \<ge> total_rows \<and> total_rows > 0 then total_rows - 1 else offset)"

definition sql_Stats :: "int \<Rightarrow> int \<Rightarrow> sqlite \<Rightarrow> store_stats" where
  "sql_Stats from_time bucket s =
     (let rows = sql_since s from_time; rs = map snd rows; n = int (length rs);
          ms0 = go_div bucket 1000000; bms = (if ms0 \<le> 0 then 60000 else ms0);
          pc = (\<lambda>q. nth_duration (latencies rs) (stats_offset q n))
      in \<lparr>st_Total = n, st_Errors = server_errors rs,
          st_ErrorRate = (if n > 0 then of_int (server_errors rs) / of_int n else 0),
          st_P50LatencyMS = pc (50 / 100), st_P95LatencyMS = pc (95 / 100), st_P99LatencyMS = pc (99 / 100),
          st_StatusCounts = map (\<lambda>(k, g). (k, int (length g))) (group_by status_class_name rs),
          st_Series = map sql_bucket (sort_key fst (grouped_rows (\<lambda>row. go_div (fst row) bms * bms) rows)),
          st_TopRoutes = map sql_route_stat (take 10 (route_groups rows)),
          st_BodiesKept = int (length (filter (\<lambda>r. hr_RequestBody r \<noteq> [] \<or> hr_ResponseBody r \<noteq> []) rs)),
          st_BytesSeen = sum_list (map (\<lambda>r. hr_ReqBytes r + hr_RespBytes r) rs)\<rparr>)"

definition sql_route_detail :: "(string \<times> string) \<times> http_record list \<Rightarrow> route_detail" where
  "sql_route_detail kg =
     (let g = snd kg; pc = (\<lambda>q. nth_duration (latencies g) (offset_for q (int (length g))))
      in \<lparr>rd_RouteStat = sql_route_stat kg, rd_P50Latency = pc (50 / 100), rd_P99Latency = pc (99 / 100),
          rd_ReqBytes = sum_list (map hr_ReqBytes g), rd_RespBytes = sum_list (map hr_RespBytes g)\<rparr>)"

definition sql_RouteStats :: "int \<Rightarrow> sqlite \<Rightarrow> route_detail list" where
  "sql_RouteStats from_time s = map sql_route_detail (take 200 (route_groups (sql_since s from_time)))"

definition sql_RuleMatchCounts :: "int \<Rightarrow> string list \<Rightarrow> sqlite \<Rightarrow> match_count list" where
  "sql_RuleMatchCounts from_time names s =
     (let hits = concat (map (\<lambda>row. hr_MatchedRules (snd row)) (sql_since s from_time));
          counts = map (\<lambda>(k, g). (k, int (length g))) (group_by (\<lambda>x. x) hits)
      in map (\<lambda>name. \<lparr>rmt_Rule = name, rmt_Count = (case lookup counts name of None \<Rightarrow> 0 | Some n \<Rightarrow> n)\<rparr>) names)"

definition sql_Recent :: "sqlite \<Rightarrow> int \<Rightarrow> int \<Rightarrow> http_record list" where
  "sql_Recent s from_time limit = map scanRecord (take (nat (AnalysisLimit limit)) (rev (sql_since s from_time)))"

definition sql_RecentFunc ::
    "sqlite \<Rightarrow> int \<Rightarrow> int \<Rightarrow> ('a \<Rightarrow> http_record \<Rightarrow> 'e + 'a) \<Rightarrow> 'a \<Rightarrow> 'e + 'a" where
  "sql_RecentFunc s from_time limit fn a =
     walk_records fn (map scanRecord (take (nat (AnalysisLimit limit)) (rev (sql_since s from_time)))) a"

definition sql_UsageByLabel :: "int \<Rightarrow> string \<Rightarrow> sqlite \<Rightarrow> consumer_usage list" where
  "sql_UsageByLabel from_time label s =
     sort_key (\<lambda>u. - cu_Requests u) (map snd (fold (usage_step label) (map snd (sql_since s from_time)) []))"

text \<open>Here the percentile is over all rows of the service, streams included.\<close>

definition sql_service_stat :: "string \<times> (int \<times> http_record) list \<Rightarrow> service_stat" where
  "sql_service_stat ng = (case ng of (name, rows) \<Rightarrow>
     (let g = map snd rows; n = int (length g); errs = server_errors g
      in \<lparr>svs_Service = name, svs_Requests = n, svs_Errors = errs,
          svs_ErrorRate = (if n > 0 then of_int errs / of_int n else 0), svs_AvgLatency = mean_latency g,
          svs_P95Latency = nth_duration (map hr_DurationMS g) (offset_for (95 / 100) n),
          svs_Routes = int (length (remdups (map hr_Route g))),
          svs_Sources = join '','' (remdups (map hr_Source g)),
          svs_LastSeen = time_UnixMilli (Max (set (map fst rows)))\<rparr>))"

definition sql_ServiceStats :: "int \<Rightarrow> sqlite \<Rightarrow> service_stat list" where
  "sql_ServiceStats from_time s =
     map sql_service_stat (sort_key (\<lambda>ng. - int (length (snd ng)))
       (group_by (\<lambda>row. service_name (snd row)) (sql_since s from_time)))"

definition sql_Count :: "sqlite \<Rightarrow> int" where
  "sql_Count s = int (length (sq_logs s))"

subsection \<open>Retention and erasure\<close>

definition delete_logs :: "(int \<times> http_record \<Rightarrow> bool) \<Rightarrow> sqlite \<Rightarrow> sqlite \<times> int" where
  "delete_logs P s = (s\<lparr>sq_logs := filter (\<lambda>row. \<not> P row) (sq_logs s)\<rparr>, int (length (filter P (sq_logs s))))"

definition sql_Prune :: "int \<Rightarrow> sqlite \<Rightarrow> sqlite \<times> int" where
  "sql_Prune maxRows s =
     (let max_id = (if sq_logs s = [] then 0 else Max (set (map (\<lambda>row. hr_ID (snd row)) (sq_logs s))))
      in delete_logs (\<lambda>row. hr_ID (snd row) \<le> max_id - maxRows) s)"

definition sql_PruneBefore :: "int \<Rightarrow> sqlite \<Rightarrow> sqlite \<times> int" where
  "sql_PruneBefore cutoff s = delete_logs (\<lambda>row. fst row < UnixMilli cutoff) s"

definition purge_inner :: "string \<Rightarrow> string \<Rightarrow> string" where
  "purge_inner label v = trim_suffix (trim_prefix (map_json [(label, v)]) ''{'') ''}''"

definition sql_purge_hit :: "string \<Rightarrow> string \<Rightarrow> int \<Rightarrow> int \<times> http_record \<Rightarrow> bool" where
  "sql_purge_hit label v before row \<longleftrightarrow>
     like (Some backslash) (like_infix (purge_inner label v)) (map_json (hr_Labels (snd row))) \<and>
     (before = 0 \<or> fst row < UnixMilli before)"

definition purged_traces :: "string \<Rightarrow> string \<Rightarrow> int \<Rightarrow> sqlite \<Rightarrow> string list" where
  "purged_traces label v before s =
     map (\<lambda>row. hr_TraceID (snd row))
       (filter (\<lambda>row. sql_purge_hit label v before row \<and> hr_TraceID (snd row) \<noteq> []) (sq_logs s))"

definition sql_Purge :: "string \<Rightarrow> string \<Rightarrow> int \<Rightarrow> sqlite \<Rightarrow> (string + int) \<times> sqlite" where
  "sql_Purge label v before s =
     (if label = [] \<or> v = [] then (Inl ''purge requires both a label and a value'', s)
      else (let traces = purged_traces label v before s;
                s1 = s\<lparr>sq_app_logs := filter (\<lambda>row. l_TraceID (snd row) \<notin> set traces) (sq_app_logs s)\<rparr>;
                s2 = s1\<lparr>sq_spans := filter (\<lambda>row. s_TraceID (snd row) \<notin> set traces) (sq_spans s1)\<rparr>;
                (s3, n) = delete_logs (sql_purge_hit label v before) s2
            in (Inr n, s3)))"

subsection \<open>Application log lines\<close>

definition sql_SaveAppLogs :: "int \<Rightarrow> app_log list \<Rightarrow> sqlite \<Rightarrow> sqlite" where
  "sql_SaveAppLogs now_time lines s =
     fold (\<lambda>l s. s\<lparr>sq_app_logs := sq_app_logs s @
         [(UnixMilli (if l_Time l = 0 then now_time else l_Time l), l\<lparr>l_ID := sq_app_logs_seq s + 1\<rparr>)],
       sq_app_logs_seq := sq_app_logs_seq s + 1\<rparr>) lines s"

definition known_levels :: "string list" where
  "known_levels = [''trace'', ''debug'', ''info'', ''warn'', ''error'', ''fatal'']"

definition level_clause :: "string \<Rightarrow> string \<Rightarrow> bool" where
  "level_clause level_min level \<longleftrightarrow>
     level \<in> set (filter (\<lambda>name. LevelRank name \<ge> LevelRank level_min) known_levels) \<or> level \<notin> set known_levels"

definition app_log_where :: "app_log_filter \<Rightarrow> int \<times> app_log \<Rightarrow> bool" where
  "app_log_where f row = (case row of (ts, l) \<Rightarrow>
     (lf_SpanID f \<noteq> [] \<longrightarrow> l_SpanID l = lf_SpanID f) \<and>
     (lf_TraceID f \<noteq> [] \<longrightarrow> l_TraceID l = lf_TraceID f) \<and>
     (lf_Service f \<noteq> [] \<longrightarrow> l_Service l = lf_Service f) \<and>
     (lf_Since f \<noteq> 0 \<longrightarrow> ts \<ge> UnixMilli (lf_Since f)) \<and>
     (lf_Until f \<noteq> 0 \<longrightarrow> ts \<le> UnixMilli (lf_Until f)) \<and>
     (lf_Search f \<noteq> [] \<longrightarrow> like (Some backslash) (like_infix (lf_Search f)) (l_Message l)) \<and>
     (lf_LevelMin f \<noteq> [] \<longrightarrow> level_clause (lf_LevelMin f) (l_Level l)))"

definition scanAppLog :: "int \<times> app_log \<Rightarrow> app_log" where
  "scanAppLog row = (snd row)\<lparr>l_Time := time_UnixMilli (fst row)\<rparr>"

text \<open>\<open>ORDER BY ts ASC, id ASC\<close>: the rows lie in the order of their ids.\<close>

definition sql_QueryAppLogs :: "app_log_filter \<Rightarrow> sqlite \<Rightarrow> app_log list \<times> int" where
  "sql_QueryAppLogs f s =
     (let hits = filter (app_log_where f) (sq_app_logs s);
          limit = (if lf_Limit f \<le> 0 then 200 else lf_Limit f)
      in (map scanAppLog (limit_offset limit (lf_Offset f) (sort_key fst hits)), int (length hits)))"

definition sql_CountAppLogs :: "sqlite \<Rightarrow> int" where
  "sql_CountAppLogs s = int (length (sq_app_logs s))"

definition sql_PruneAppLogsBefore :: "int \<Rightarrow> sqlite \<Rightarrow> sqlite \<times> int" where
  "sql_PruneAppLogsBefore cutoff s =
     (s\<lparr>sq_app_logs := filter (\<lambda>row. \<not> fst row < UnixMilli cutoff) (sq_app_logs s)\<rparr>,
      int (length (filter (\<lambda>row. fst row < UnixMilli cutoff) (sq_app_logs s))))"

definition counts_by :: "('v \<Rightarrow> string) \<Rightarrow> 'v list \<Rightarrow> int gomap" where
  "counts_by key vs = map (\<lambda>(k, g). (k, int (length g))) (group_by key vs)"

definition sql_AppLogStats :: "int \<Rightarrow> sqlite \<Rightarrow> app_log_summary" where
  "sql_AppLogStats from_time s =
     (let ls = map snd (filter (\<lambda>row. fst row \<ge> UnixMilli from_time) (sq_app_logs s))
      in \<lparr>als_Total = int (length ls), als_ByLevel = counts_by l_Level ls, als_ByService = counts_by l_Service ls,
          als_SpansWithLogs = int (length (remdups (map l_SpanID ls)))\<rparr>)"

subsection \<open>Inner spans\<close>

definition sql_SaveSpans :: "span list \<Rightarrow> sqlite \<Rightarrow> sqlite" where
  "sql_SaveSpans list s =
     fold (\<lambda>sp s. s\<lparr>sq_spans := sq_spans s @ [(UnixMilli (s_Start sp), sp\<lparr>s_ID := sq_spans_seq s + 1\<rparr>)],
       sq_spans_seq := sq_spans_seq s + 1\<rparr>) list s"

definition spanWhere :: "span_filter \<Rightarrow> int \<times> span \<Rightarrow> bool" where
  "spanWhere f row = (case row of (ts, sp) \<Rightarrow>
     (sf_TraceID f \<noteq> [] \<longrightarrow> s_TraceID sp = sf_TraceID f) \<and>
     (sf_SpanID f \<noteq> [] \<longrightarrow> s_SpanID sp = sf_SpanID f) \<and>
     (sf_ParentSpanID f \<noteq> [] \<longrightarrow> s_ParentSpanID sp = sf_ParentSpanID f) \<and>
     (sf_Service f \<noteq> [] \<longrightarrow> s_Service sp = sf_Service f) \<and>
     (sf_Kind f \<noteq> [] \<longrightarrow> s_Kind sp = to_lower (sf_Kind f)) \<and>
     (sf_MinDurationMS f > 0 \<longrightarrow> s_DurationMS sp \<ge> sf_MinDurationMS f) \<and>
     (sf_ErrorsOnly f \<longrightarrow> s_Error sp \<noteq> []) \<and>
     (sf_Since f \<noteq> 0 \<longrightarrow> ts \<ge> UnixMilli (sf_Since f)) \<and>
     (sf_Until f \<noteq> 0 \<longrightarrow> ts \<le> UnixMilli (sf_Until f)) \<and>
     (sf_Search f \<noteq> [] \<longrightarrow> like (Some backslash) (like_infix (sf_Search f)) (s_Name sp)))"

definition scan_span :: "int \<times> span \<Rightarrow> span" where
  "scan_span row = (snd row)\<lparr>s_Start := time_UnixMilli (fst row)\<rparr>"

definition sql_QuerySpans :: "span_filter \<Rightarrow> sqlite \<Rightarrow> span list \<times> int" where
  "sql_QuerySpans f s =
     (let hits = filter (spanWhere f) (sq_spans s);
          limit = (if sf_Limit f \<le> 0 then 200 else sf_Limit f)
      in (map scan_span (limit_offset limit (sf_Offset f) (sort_key fst hits)), int (length hits)))"

text \<open>The spans of a route are those whose parent is a recorded hop of that route.\<close>

definition breakdown_spans :: "int \<Rightarrow> string \<Rightarrow> sqlite \<Rightarrow> span list" where
  "breakdown_spans from_time route s =
     (let hops = map (\<lambda>row. hr_SpanID (snd row))
            (filter (\<lambda>row. hr_Route (snd row) = route \<and> fst row \<ge> UnixMilli from_time) (sq_logs s))
      in map snd (filter (\<lambda>row. fst row \<ge> UnixMilli from_time \<and>
           (route \<noteq> [] \<longrightarrow> s_ParentSpanID (snd row) \<in> set hops)) (sq_spans s)))"

definition string_min :: "string list \<Rightarrow> string" where
  "string_min xs = hd (sort xs)"

definition breakdown_of :: "string \<times> span list \<Rightarrow> span_breakdown" where
  "breakdown_of ng = (case ng of (name, g) \<Rightarrow>
     \<lparr>sb_Name = name, sb_Kind = string_min (map s_Kind g), sb_Count = int (length g),
      sb_Requests = int (length (remdups (map s_ParentSpanID g))),
      sb_Errors = int (length (filter (\<lambda>sp. s_Error sp \<noteq> []) g)),
      sb_TotalMS = sum_list (map s_DurationMS g),
      sb_AvgMS = sum_list (map s_DurationMS g) / of_nat (length g),
      sb_P95MS = nth_duration (map s_DurationMS g) (offset_for (95 / 100) (int (length g))),
      sb_MaxMS = Max (set (map s_DurationMS g))\<rparr>)"

definition sql_SpanBreakdown :: "int \<Rightarrow> string \<Rightarrow> int \<Rightarrow> sqlite \<Rightarrow> span_breakdown list" where
  "sql_SpanBreakdown from_time route limit s =
     take (nat (if limit \<le> 0 then 20 else limit))
       (sort_key (\<lambda>b. - sb_TotalMS b) (map breakdown_of (group_by s_Name (breakdown_spans from_time route s))))"

definition sql_SpanStats :: "int \<Rightarrow> sqlite \<Rightarrow> span_summary" where
  "sql_SpanStats from_time s =
     (let sps = map snd (filter (\<lambda>row. fst row \<ge> UnixMilli from_time) (sq_spans s));
          named = (\<lambda>(k, n). (if k = [] then ''unspecified'' else k, n));
          into = (\<lambda>counts. fold (\<lambda>kn m. store (fst (named kn)) (snd (named kn)) m) counts [])
      in \<lparr>ssm_Total = int (length sps), ssm_ByKind = into (counts_by s_Kind sps),
          ssm_ByService = into (counts_by s_Service sps),
          ssm_RequestsWithSpans = int (length (remdups (map s_ParentSpanID sps))),
          ssm_Errors = int (length (filter (\<lambda>sp. s_Error sp \<noteq> []) sps))\<rparr>)"

definition sql_CountSpans :: "sqlite \<Rightarrow> int" where
  "sql_CountSpans s = int (length (sq_spans s))"

definition sql_PruneSpansBefore :: "int \<Rightarrow> sqlite \<Rightarrow> sqlite \<times> int" where
  "sql_PruneSpansBefore cutoff s =
     (s\<lparr>sq_spans := filter (\<lambda>row. \<not> fst row < UnixMilli cutoff) (sq_spans s)\<rparr>,
      int (length (filter (\<lambda>row. fst row < UnixMilli cutoff) (sq_spans s))))"

subsection \<open>Traces\<close>

definition trace_hop :: "trace_filter \<Rightarrow> int \<times> http_record \<Rightarrow> bool" where
  "trace_hop f row = (case row of (ts, r) \<Rightarrow>
     hr_TraceID r \<noteq> [] \<and>
     (tf_Since f \<noteq> 0 \<longrightarrow> ts \<ge> UnixMilli (tf_Since f)) \<and>
     (tf_Service f \<noteq> [] \<longrightarrow> hr_Service r = tf_Service f) \<and>
     (tf_Search f \<noteq> [] \<longrightarrow> (let p = ''%'' @ tf_Search f @ ''%'' in like None p (hr_Path r) \<or> like None p (hr_Route r))))"

text \<open>The root: the earliest hop without a parent, or else the earliest one.\<close>

definition root_hop :: "string \<Rightarrow> sqlite \<Rightarrow> http_record" where
  "root_hop tid s =
     snd (hd (sort_key (\<lambda>row. if hr_ParentSpanID (snd row) \<noteq> [] then 1 else 0 :: nat)
       (sort_key fst (filter (\<lambda>row. hr_TraceID (snd row) = tid) (sq_logs s)))))"

definition trace_summary_of :: "sqlite \<Rightarrow> string \<times> (int \<times> http_record) list \<Rightarrow> trace_summary" where
  "trace_summary_of s tg = (case tg of (tid, rows) \<Rightarrow>
     (let r = root_hop tid s; g = map snd rows
      in \<lparr>ts_TraceID = tid, ts_Method = hr_Method r, ts_Route = hr_Route r, ts_Path = hr_Path r,
          ts_Service = hr_Service r, ts_Status = hr_Status r, ts_Spans = int (length g),
          ts_Services = int (length (remdups (map hr_Service g))), ts_Errors = server_errors g,
          ts_DurationMS = hr_DurationMS r,
          ts_Start = time_UnixMilli (Min (set (map (\<lambda>row. fst row - trunc_int (hr_DurationMS (snd row))) rows))),
          ts_End = time_UnixMilli (Max (set (map fst rows))),
          ts_Labels = hr_Labels r,
          ts_LogLines = int (length (filter (\<lambda>row. l_TraceID (snd row) = tid) (sq_app_logs s)))\<rparr>))"

definition trace_kept :: "trace_filter \<Rightarrow> trace_summary \<Rightarrow> bool" where
  "trace_kept f t \<longleftrightarrow> (tf_ErrorsOnly f \<longrightarrow> ts_Errors t > 0) \<and>
     list_all (\<lambda>k. json_member (ts_Labels t) k = lookup (tf_Labels f) k) (sorted_keys (tf_Labels f))"

definition sql_Traces :: "trace_filter \<Rightarrow> sqlite \<Rightarrow> trace_summary list \<times> int" where
  "sql_Traces f s =
     (let ts = filter (trace_kept f) (map (trace_summary_of s)
            (group_by (\<lambda>row. hr_TraceID (snd row)) (filter (trace_hop f) (sq_logs s))));
          limit = (if tf_Limit f \<le> 0 then 100 else tf_Limit f)
      in (limit_offset limit (tf_Offset f) (sort_key (\<lambda>t. - ts_Start t) ts), int (length ts)))"

subsection \<open>The contract\<close>

text \<open>What the table stands for: the records a scan returns, oldest first.\<close>

definition sql_recs :: "sqlite \<Rightarrow> http_record list" where
  "sql_recs s = map scanRecord (sq_logs s)"

definition to_millis :: "int \<Rightarrow> int" where
  "to_millis t = t div 1000000"

definition sql_kept :: "http_record \<Rightarrow> http_record" where
  "sql_kept r = r\<lparr>hr_Time := time_UnixMilli (UnixMilli (hr_Time r))\<rparr>"

definition sql_inv :: "sqlite \<Rightarrow> bool" where
  "sql_inv s \<longleftrightarrow> (\<forall>row \<in> set (sq_logs s). hr_ID (snd row) \<le> sq_logs_seq s)"

lemma to_millis_time [simp]: "to_millis (time_UnixMilli ms) = ms"
  by (simp add: to_millis_def time_UnixMilli_def)

lemma UnixMilli_pos: "0 < t \<Longrightarrow> UnixMilli t = to_millis t"
  by (simp add: UnixMilli_def to_millis_def)

lemma scanRecord_fields [simp]:
  "hr_Time (scanRecord row) = time_UnixMilli (fst row)" "hr_ID (scanRecord row) = hr_ID (snd row)"
  "hr_Labels (scanRecord row) = hr_Labels (snd row)" "hr_TraceID (scanRecord row) = hr_TraceID (snd row)"
  "record_label (scanRecord row) k = record_label (snd row) k"
  by (simp_all add: scanRecord_def record_label_def)

lemma map_scan_filter:
  "map scanRecord (filter (\<lambda>row. P (scanRecord row)) rows) = filter P (map scanRecord rows)"
  by (simp add: filter_map comp_def)

lemma sql_recs_since:
  "0 < t \<Longrightarrow> map scanRecord (sql_since s t) = filter (\<lambda>r. to_millis t \<le> to_millis (hr_Time r)) (sql_recs s)"
  by (simp add: sql_since_def sql_recs_def UnixMilli_pos flip: map_scan_filter)

lemma sql_recs_delete: "sql_recs (fst (delete_logs P s)) = map scanRecord (filter (\<lambda>row. \<not> P row) (sq_logs s))"
  by (simp add: sql_recs_def delete_logs_def)

lemma delete_logs_count:
  "snd (delete_logs P s) = int (length (sql_recs s)) - int (length (sql_recs (fst (delete_logs P s))))"
  using sum_length_filter_compl [of P "sq_logs s"] by (simp add: delete_logs_def sql_recs_def)

interpretation sql: record_log sql_recs sql_kept to_millis sql_Save sql_PruneBefore sql_Recent sql_inv
proof
  fix s :: sqlite and r :: http_record and c t limit :: int
  show "sql_inv s \<Longrightarrow> sql_inv (sql_Save r s)"
    by (fastforce simp: sql_inv_def sql_Save_def)
  show "sql_inv s \<Longrightarrow> \<exists>n i. n \<le> length (sql_recs s) \<and> (\<forall>q \<in> set (sql_recs s). hr_ID q < i) \<and>
      sql_recs (sql_Save r s) = drop n (sql_recs s) @ [(sql_kept r)\<lparr>hr_ID := i\<rparr>]"
    by (intro exI [of _ 0] exI [of _ "sq_logs_seq s + 1"])
       (force simp: sql_inv_def sql_recs_def sql_Save_def scanRecord_def sql_kept_def)
  show "sql_inv s \<Longrightarrow> sql_inv (fst (sql_PruneBefore c s))"
    by (auto simp: sql_inv_def sql_PruneBefore_def delete_logs_def)
  show "0 < c \<Longrightarrow> sql_recs (fst (sql_PruneBefore c s)) = filter (\<lambda>r. to_millis c \<le> to_millis (hr_Time r)) (sql_recs s)"
    by (simp add: sql_PruneBefore_def delete_logs_def UnixMilli_pos not_less sql_recs_def flip: map_scan_filter)
  show "snd (sql_PruneBefore c s) = int (length (sql_recs s)) - int (length (sql_recs (fst (sql_PruneBefore c s))))"
    by (simp add: sql_PruneBefore_def delete_logs_count)
  show "0 < t \<Longrightarrow> sql_Recent s t limit = take (nat (AnalysisLimit limit))
      (rev (filter (\<lambda>r. to_millis t \<le> to_millis (hr_Time r)) (sql_recs s)))"
    by (simp add: sql_Recent_def take_map rev_map sql_recs_since [symmetric])
qed

subsection \<open>Erasure\<close>

lemma purge_inner_pair: "purge_inner label v = json_pair (label, v)"
  by (simp add: purge_inner_def map_json_def sorted_keys_def trim_prefix_def trim_suffix_def has_prefix_def
      has_suffix_def)

lemma purge_hit_label:
  assumes "record_label (snd row) label = v" and "v \<noteq> []"
  shows "sql_purge_hit label v 0 row"
proof -
  have "lookup (hr_Labels (snd row)) label = Some v"
    using assms by (auto simp: record_label_def split: option.splits)
  then have "contains (map_json (hr_Labels (snd row))) (purge_inner label v)"
    unfolding purge_inner_pair by (rule map_json_member)
  then show ?thesis
    by (simp add: sql_purge_hit_def like_infix_iff contains_to_lower)
qed

lemma sql_Purge_tables:
  assumes "label \<noteq> []" and "v \<noteq> []"
  shows "sq_logs (snd (sql_Purge label v before s)) = filter (\<lambda>row. \<not> sql_purge_hit label v before row) (sq_logs s)"
    and "sq_app_logs (snd (sql_Purge label v before s)) =
      filter (\<lambda>row. l_TraceID (snd row) \<notin> set (purged_traces label v before s)) (sq_app_logs s)"
    and "sq_spans (snd (sql_Purge label v before s)) =
      filter (\<lambda>row. s_TraceID (snd row) \<notin> set (purged_traces label v before s)) (sq_spans s)"
  using assms by (simp_all add: sql_Purge_def Let_def delete_logs_def)

text \<open>
  C7. An erasure leaves no record with the label value behind, and none of the log lines and spans of the
  traces such records belonged to.
\<close>

theorem sqlite_erases:
  assumes "label \<noteq> []" and "v \<noteq> []" and "snd (sql_Purge label v 0 s) = s'"
    and "row \<in> set (sq_logs s)" and "record_label (snd row) label = v"
  shows "(\<forall>r \<in> set (sql_recs s'). record_label r label \<noteq> v) \<and>
    (hr_TraceID (snd row) \<noteq> [] \<longrightarrow>
      (\<forall>l \<in> snd ` set (sq_app_logs s'). l_TraceID l \<noteq> hr_TraceID (snd row)) \<and>
      (\<forall>sp \<in> snd ` set (sq_spans s'). s_TraceID sp \<noteq> hr_TraceID (snd row)))"
proof -
  note tables = sql_Purge_tables [OF assms(1,2), of 0 s, unfolded assms(3)]
  have "\<forall>r \<in> set (sql_recs s'). record_label r label \<noteq> v"
    using purge_hit_label [OF _ assms(2)] by (auto simp: sql_recs_def tables)
  moreover have "hr_TraceID (snd row) \<in> set (purged_traces label v 0 s)" if "hr_TraceID (snd row) \<noteq> []"
    using that assms(4) purge_hit_label [OF assms(5,2)] by (auto simp: purged_traces_def)
  ultimately show ?thesis
    by (auto simp: tables)
qed

definition traced_line :: "string \<Rightarrow> app_log" where
  "traced_line tid = \<lparr>l_ID = 0, l_Time = 4000000, l_Service = ''shop'', l_TraceID = tid, l_SpanID = ''s1'',
     l_Level = ''info'', l_Message = ''paid by a@b.com'', l_Fields = [], l_Route = [], l_Source = ''ingest'',
     l_Truncated = False\<rparr>"

definition one_tenant :: sqlite where
  "one_tenant = sql_SaveAppLogs 1 [traced_line ''t1''] (sql_Save (stored_record 3000000 ''acme'' 200 5) empty_sqlite)"

theorem sqlite_erases_witness:
  "list_all (\<lambda>l. l_TraceID l \<noteq> ''t1'') (map snd (sq_app_logs (snd (sql_Purge ''tenant'' ''acme'' 0 one_tenant))))"
proof -
  have row: "(3, (stored_record 3000000 ''acme'' 200 5)\<lparr>hr_ID := 1\<rparr>) \<in> set (sq_logs one_tenant)"
    by (simp add: one_tenant_def sql_SaveAppLogs_def sql_Save_def empty_sqlite_def stored_record_def UnixMilli_def)
  have "record_label (snd (3 :: int, (stored_record 3000000 ''acme'' 200 5)\<lparr>hr_ID := 1\<rparr>)) ''tenant'' = ''acme''"
    by (simp add: record_label_def stored_record_def)
  from sqlite_erases [OF _ _ refl row this]
  have "\<forall>l \<in> snd ` set (sq_app_logs (snd (sql_Purge ''tenant'' ''acme'' 0 one_tenant))). l_TraceID l \<noteq> ''t1''"
    by (simp add: stored_record_def)
  then show ?thesis
    by (auto simp: list_all_iff)
qed

text \<open>
  The match ignores the case of letters, so erasing one tenant also erases the records of another
  whose name differs in case only.
\<close>

lemma purge_hits_neighbour:
  "sql_recs (snd (sql_Purge ''tenant'' ''acme'' 0 (sql_Save (stored_record 3000000 ''ACME'' 200 5) empty_sqlite))) = []"
  by code_simp

text \<open>
  The percentiles of the window count the streams in the rank but not in the values, so one stream beside
  one request leaves the p95 at zero; the percentile of a bucket sits one rank below the one of a route.
\<close>

lemma stream_hides_percentile: "nth_duration [5] (stats_offset (95 / 100) 2) = 0"
proof -
  have "\<lfloor>19 / 10 :: rat\<rfloor> = 1"
    by linarith
  then show ?thesis
    by (simp add: nth_duration_def stats_offset_def limit_offset_def trunc_int_def Let_def)
qed

lemma bucket_percentile_lower:
  "ranked_p95 (map of_nat [1..<21]) = 19 \<and> nth_duration (map of_nat [1..<21]) (offset_for (95 / 100) 20) = 20"
  by (simp add: ranked_p95_def nth_duration_def offset_for_def limit_offset_def trunc_int_def Let_def upt_rec numeral_eq_Suc)

subsection \<open>The two drivers agree\<close>

text \<open>
  The same records in both drivers, with times of whole milliseconds after the epoch and methods in
  upper case, as the interceptor writes them.
\<close>

definition same_records :: "memstore \<Rightarrow> sqlite \<Rightarrow> bool" where
  "same_records m s \<longleftrightarrow> sql_recs s = ms_recs m \<and>
     list_all (\<lambda>row. 0 < fst row \<and> to_upper (hr_Method (snd row)) = hr_Method (snd row)) (sq_logs s)"

definition whole_millis :: "int \<Rightarrow> bool" where
  "whole_millis t \<longleftrightarrow> 0 \<le> t \<and> t mod 1000000 = 0"

lemma millis_le: "whole_millis t \<Longrightarrow> 0 < t \<Longrightarrow> UnixMilli t \<le> ms \<longleftrightarrow> t \<le> time_UnixMilli ms"
  by (auto simp: whole_millis_def UnixMilli_def time_UnixMilli_def)

lemma millis_ge: "whole_millis t \<Longrightarrow> 0 < t \<Longrightarrow> ms \<le> UnixMilli t \<longleftrightarrow> time_UnixMilli ms \<le> t"
  by (auto simp: whole_millis_def UnixMilli_def time_UnixMilli_def)

definition comparable :: "log_filter \<Rightarrow> bool" where
  "comparable f \<longleftrightarrow> f_PathPrefix f = [] \<and> f_Search f = [] \<and> whole_millis (f_Since f) \<and> whole_millis (f_Until f) \<and>
     distinct (keys (f_Labels f)) \<and> list_all (\<lambda>(k, v). plain_key k \<and> v \<noteq> []) (f_Labels f) \<and> 0 \<le> f_Offset f"

lemma label_conditions:
  assumes "distinct (keys ls)" and "list_all (\<lambda>(k, v). plain_key k \<and> v \<noteq> []) ls"
  shows "list_all (\<lambda>k. json_member (hr_Labels r) k = lookup ls k) (sorted_keys ls) \<longleftrightarrow>
    list_all (\<lambda>(k, v). record_label r k = v) ls"
proof -
  have "json_member (hr_Labels r) k = lookup ls k \<longleftrightarrow> record_label r k = v" if "(k, v) \<in> set ls" for k v
  proof -
    have "lookup ls k = Some v" "plain_key k" "v \<noteq> []"
      using that assms by (auto simp: list_all_iff)
    then show ?thesis
      by (auto simp: json_member_plain record_label_def split: option.splits)
  qed
  then have "(\<forall>kv \<in> set ls. json_member (hr_Labels r) (fst kv) = lookup ls (fst kv)) \<longleftrightarrow>
      (\<forall>kv \<in> set ls. record_label r (fst kv) = snd kv)"
    by (intro ball_cong) auto
  then show ?thesis
    by (simp add: list_all_iff split_def)
qed

lemma scanRecord_row:
  "hr_Method (scanRecord (ts, r)) = hr_Method r" "hr_Status (scanRecord (ts, r)) = hr_Status r"
  "hr_TraceID (scanRecord (ts, r)) = hr_TraceID r" "hr_Time (scanRecord (ts, r)) = time_UnixMilli ts"
  "record_label (scanRecord (ts, r)) k = record_label r k"
  by (simp_all add: scanRecord_def record_label_def)

lemma buildWhere_matches:
  assumes "comparable f" and "0 < fst row" and "to_upper (hr_Method (snd row)) = hr_Method (snd row)"
  shows "buildWhere f row \<longleftrightarrow> mem_matches (scanRecord row) f"
proof -
  obtain ts r where row: "row = (ts, r)"
    by (cases row)
  have none: "f_PathPrefix f = []" "f_Search f = []"
    using assms(1) by (simp_all add: comparable_def)
  have verb: "(f_Method f \<noteq> [] \<longrightarrow> hr_Method r = to_upper (f_Method f)) \<longleftrightarrow>
      \<not> (f_Method f \<noteq> [] \<and> \<not> equal_fold (hr_Method r) (f_Method f))"
    using assms(3) unfolding row equal_fold_def
    by (metis snd_conv to_upper_lower to_lower_upper)
  have since: "(f_Since f \<noteq> 0 \<longrightarrow> ts \<ge> UnixMilli (f_Since f)) \<longleftrightarrow> \<not> (f_Since f \<noteq> 0 \<and> time_UnixMilli ts < f_Since f)"
    using assms(1) millis_le [of "f_Since f" ts] by (auto simp: comparable_def whole_millis_def)
  have till: "(f_Until f \<noteq> 0 \<longrightarrow> ts \<le> UnixMilli (f_Until f)) \<longleftrightarrow> \<not> (f_Until f \<noteq> 0 \<and> time_UnixMilli ts > f_Until f)"
    using assms(1) millis_ge [of "f_Until f" ts] by (auto simp: comparable_def whole_millis_def)
  have labels: "list_all (\<lambda>k. json_member (hr_Labels r) k = lookup (f_Labels f) k) (sorted_keys (f_Labels f)) \<longleftrightarrow>
      list_all (\<lambda>(k, v). record_label r k = v) (f_Labels f)"
    using assms(1) by (intro label_conditions) (simp_all add: comparable_def)
  have status: "(f_StatusMin f > 0 \<longrightarrow> hr_Status r \<ge> f_StatusMin f) \<longleftrightarrow> \<not> (f_StatusMin f > 0 \<and> hr_Status r < f_StatusMin f)"
      "(f_StatusMax f > 0 \<longrightarrow> hr_Status r \<le> f_StatusMax f) \<longleftrightarrow> \<not> (f_StatusMax f > 0 \<and> hr_Status r > f_StatusMax f)"
      "(f_TraceID f \<noteq> [] \<longrightarrow> hr_TraceID r = f_TraceID f) \<longleftrightarrow> \<not> (f_TraceID f \<noteq> [] \<and> hr_TraceID r \<noteq> f_TraceID f)"
    by auto
  show ?thesis
    unfolding buildWhere_def mem_matches_def row prod.case scanRecord_row verb since till labels status
    by (simp add: none)
qed

lemma usage_step_scan: "usage_step label (scanRecord row) = usage_step label (snd row)"
proof -
  have "add_usage (scanRecord row) = add_usage (snd row)"
    by (simp add: fun_eq_iff add_usage_def scanRecord_def)
  moreover have "consumer_of label (scanRecord row) = consumer_of label (snd row)"
    by (simp add: consumer_of_def)
  ultimately show ?thesis
    by (simp add: fun_eq_iff usage_step_def Let_def)
qed

lemma same_records_agree:
  assumes "same_records m s" and "comparable f" and "whole_millis t" and "0 < t"
  shows "Some (sql_Query f s) = mem_Query f m \<and> sql_Count s = mem_Count m \<and>
    sql_UsageByLabel t label s = mem_UsageByLabel t label m \<and>
    sql_RuleMatchCounts t names s = mem_RuleMatchCounts t names m"
proof (intro conjI)
  have recs: "map scanRecord (sq_logs s) = ms_recs m"
    using assms(1) by (simp add: same_records_def sql_recs_def)
  have "filter (buildWhere f) (sq_logs s) = filter (\<lambda>row. mem_matches (scanRecord row) f) (sq_logs s)"
    using assms(1,2) by (intro filter_cong refl) (auto simp: same_records_def list_all_iff buildWhere_matches)
  then have hits: "map scanRecord (filter (buildWhere f) (sq_logs s)) = filter (\<lambda>r. mem_matches r f) (ms_recs m)"
    using map_scan_filter [of "\<lambda>r. mem_matches r f" "sq_logs s"] recs by simp
  then have n: "length (filter (buildWhere f) (sq_logs s)) = length (filter (\<lambda>r. mem_matches r f) (ms_recs m))"
    by (metis length_map)
  have "0 \<le> f_Offset f"
    using assms(2) by (simp add: comparable_def)
  then show "Some (sql_Query f s) = mem_Query f m"
    by (simp add: mem_Query_page sql_Query_def Let_def limit_offset_def n flip: take_map drop_map rev_map rev_filter)
       (simp add: hits)
  show "sql_Count s = mem_Count m"
    using recs by (metis length_map mem_Count_def sql_Count_def)
  have window: "map scanRecord (sql_since s t) = mem_since m t"
    using assms(3,4) map_scan_filter [of "\<lambda>r. \<not> hr_Time r < t" "sq_logs s"] recs
    by (simp add: sql_since_def mem_since_def not_less millis_le)
  have fold: "fold (usage_step label) (map snd rows) agg = fold (usage_step label) (map scanRecord rows) agg" for rows agg
    by (induction rows arbitrary: agg) (simp_all add: usage_step_scan)
  have rules: "concat (map (\<lambda>row. hr_MatchedRules (snd row)) (sql_since s t)) = concat (map hr_MatchedRules (mem_since m t))"
    unfolding window [symmetric] by (simp add: scanRecord_def comp_def)
  have count: "(case lookup (map (\<lambda>(k, g). (k, int (length g))) (group_by (\<lambda>x. x) hs)) name of None \<Rightarrow> 0 | Some n \<Rightarrow> n)
      = int (count_list hs name)" for hs and name :: string
  proof -
    have "count_list hs name = length (filter (\<lambda>x. x = name) hs)"
      by (induction hs) simp_all
    then show ?thesis
      by (simp add: map_of_map [unfolded comp_def] group_members)
  qed
  show "sql_UsageByLabel t label s = mem_UsageByLabel t label m"
    by (simp add: sql_UsageByLabel_def mem_UsageByLabel_def fold window)
  show "sql_RuleMatchCounts t names s = mem_RuleMatchCounts t names m"
    by (simp add: sql_RuleMatchCounts_def mem_RuleMatchCounts_def Let_def rules count)
qed

text \<open>A record as the interceptor writes it, with a time the millisecond column can hold.\<close>

definition storable :: "http_record \<Rightarrow> bool" where
  "storable r \<longleftrightarrow> whole_millis (hr_Time r) \<and> 0 < hr_Time r \<and> to_upper (hr_Method r) = hr_Method r"

definition in_step :: "memstore \<Rightarrow> sqlite \<Rightarrow> bool" where
  "in_step m s \<longleftrightarrow> same_records m s \<and> ms_maxRecords m = 0 \<and> ms_nextID m = sq_logs_seq s"

lemma in_step_empty: "in_step (mem_New 0) empty_sqlite"
  by (simp add: in_step_def same_records_def sql_recs_def mem_New_def empty_sqlite_def)

lemma in_step_Save:
  assumes "in_step m s" and "storable r"
  shows "in_step (mem_Save r m) (sql_Save r s)"
proof -
  have pos: "0 < UnixMilli (hr_Time r)"
    using assms(2) by (auto simp: storable_def whole_millis_def UnixMilli_def)
  have "scanRecord (UnixMilli (hr_Time r), r\<lparr>hr_ID := i\<rparr>) = r\<lparr>hr_ID := i\<rparr>" for i
    using assms(2) by (auto simp: scanRecord_def storable_def whole_millis_def UnixMilli_def time_UnixMilli_def)
  then show ?thesis
    using assms pos by (simp add: in_step_def same_records_def sql_recs_def mem_Save_def sql_Save_def storable_def Let_def)
qed

lemma in_step_run:
  "in_step m s \<Longrightarrow> list_all storable rs \<Longrightarrow> in_step (fold mem_Save rs m) (fold sql_Save rs s)"
  by (induction rs arbitrary: m s) (simp_all add: in_step_Save)


definition tenant_posts :: log_filter where
  "tenant_posts = \<lparr>f_Method = ''post'', f_PathPrefix = [], f_Search = [], f_StatusMin = 200, f_StatusMax = 299,
     f_Since = 1000000, f_Until = 0, f_TraceID = [], f_Labels = [(''tenant'', ''acme'')], f_Limit = 10, f_Offset = 0\<rparr>"


end
