(* ===== verification/AdminHttp.thy ===== *)
theory AdminHttp
  imports Access Redact StoreTypes SqlText
begin

text \<open>
  The frame of the admin surface (\<open>internal/admin/admin.go\<close>): the table of routes with their
  capabilities, cross-origin headers, and what the handlers read from and write about a query string.
\<close>

subsection \<open>Routes\<close>

record admin_cfg =
  as_Collector :: bool
  as_HealthOpen :: bool
  as_AuthToken :: string
  as_CORSOrigins :: "string list"
  as_AnalysisMaxRows :: int

text \<open>The core routes in the order of their registration, each with its capability.\<close>

definition core_routes :: "admin_cfg \<Rightarrow> (string \<times> capability) list" where
  "core_routes s =
     (if as_Collector s then [(''GET /metrics'', CapMetrics)] else []) @
     [(''GET /healthz'', if as_HealthOpen s then CapPublic else CapReadStats),
      (''GET /api/stats'', CapReadStats), (''GET /api/routes'', CapReadStats), (''GET /api/rules/stats'', CapReadStats),
      (''GET /api/services'', CapReadStats), (''GET /api/traces'', CapReadStats), (''GET /api/system'', CapReadStats),
      (''GET /api/usage'', CapReadStats),
      (''GET /api/logs'', CapReadPayload), (''GET /api/logs/{id}'', CapReadPayload),
      (''GET /api/export'', CapExport),
      (''GET /api/scan'', CapAnalyse), (''GET /api/spec'', CapAnalyse),
      (''GET /api/config'', CapReadConfig), (''POST /api/config/validate'', CapReadConfig),
      (''POST /api/reload'', CapAdmin), (''POST /api/ingest'', CapIngest),
      (''POST /api/applogs/ingest'', CapIngest), (''GET /api/applogs'', CapReadPayload),
      (''GET /api/applogs/stats'', CapReadStats),
      (''POST /api/spans/ingest'', CapIngest), (''GET /api/spans'', CapReadPayload),
      (''GET /api/spans/stats'', CapReadStats), (''GET /api/spans/breakdown'', CapReadStats),
      (''/'', CapUI)]"

definition admin_access :: "admin_cfg \<Rightarrow> registries \<Rightarrow> access_control" where
  "admin_access s g = \<lparr>acc_authns = rg_authenticators g, acc_authzs = rg_authorizers g, acc_auds = rg_auditors g,
     acc_tokenAuth = (as_AuthToken s \<noteq> []), acc_AuthToken = as_AuthToken s\<rparr>"

text \<open>
  \<open>Handler\<close>: the guarded handler of every pattern.  An extension route on the pattern of a core route
  panics, as \<open>ServeMux\<close> does for a pattern that is registered twice.
\<close>

definition admin_Handler ::
    "admin_cfg \<Rightarrow> registries \<Rightarrow> (string \<Rightarrow> admin_handler) \<Rightarrow> (string \<times> (http_request \<Rightarrow> guard_result)) list option" where
  "admin_Handler s g core =
     (let seen = map fst (core_routes s); ac = admin_access s g
      in if list_ex (\<lambda>rt. ar_Pattern rt \<in> set seen) (rg_adminRoutes g) \<or>
            \<not> distinct (map ar_Pattern (rg_adminRoutes g)) then None
         else Some (map (\<lambda>(pat, cap). (pat, guard ac cap (core pat))) (core_routes s) @
                    map (\<lambda>rt. (ar_Pattern rt, guard ac (ar_Capability rt) (ar_Handler rt))) (rg_adminRoutes g)))"

subsection \<open>Cross-origin headers\<close>

text \<open>The headers added to the response, and whether the request goes on to the routes.\<close>

definition withCORS :: "string list \<Rightarrow> http_request \<Rightarrow> string gomap \<times> bool" where
  "withCORS allowed r =
     (if allowed = [] then ([], True)
      else (let origin = header_Get (req_Header r) ''Origin'';
                allow = (if origin = [] then [] else if ''*'' \<in> set allowed then ''*''
                         else if origin \<in> set allowed then origin else []);
                h1 = [(''Vary'', ''Origin'')];
                h2 = (if allow = [] then h1
                      else h1 @ [(''Access-Control-Allow-Origin'', allow),
                        (''Access-Control-Allow-Methods'', ''GET, POST, OPTIONS''),
                        (''Access-Control-Allow-Headers'', ''Content-Type, Authorization'')])
            in (h2, req_Method r \<noteq> ''OPTIONS'')))"

subsection \<open>Query strings\<close>

definition values_Encode :: "url_values \<Rightarrow> string" where
  "values_Encode m =
     write_pairs (map (\<lambda>(k, v). (QueryEscape k, QueryEscape v))
       (concat (map (\<lambda>k. map (Pair k) (values_of m k)) (sorted_keys m))))"

definition credential_key :: "string \<Rightarrow> bool" where
  "credential_key k \<longleftrightarrow>
     to_lower k \<in> set [''token'', ''access_token'', ''api_key'', ''apikey'', ''password'', ''secret'']"

definition auditableQuery :: "string \<Rightarrow> string" where
  "auditableQuery raw =
     (let q = fst (ParseQuery raw)
      in if q = [] then []
         else if \<not> list_ex credential_key (keys q) then raw
         else values_Encode (map (\<lambda>(k, vs). (k, if credential_key k then [''[REDACTED]''] else vs)) q))"

text \<open>\<open>n, _ := strconv.Atoi(s)\<close>: 0 where there is no number, the nearest bound where it is out of range.\<close>

definition atoi_lenient :: "string \<Rightarrow> int" where
  "atoi_lenient s =
     (case atoi s of Some n \<Rightarrow> n
      | None \<Rightarrow>
          (let signed = s \<noteq> [] \<and> (hd s = CHR ''-'' \<or> hd s = CHR ''+''); ds = (if signed then tl s else s)
           in if ds = [] \<or> \<not> list_all is_digit ds then 0
              else if hd s = CHR ''-'' then - (2 ^ 63) else 2 ^ 63 - 1))"

text \<open>Durations are 64-bit nanoseconds and wrap around.\<close>

definition wrap64 :: "int \<Rightarrow> int" where
  "wrap64 i = (i + 2 ^ 63) mod 2 ^ 64 - 2 ^ 63"

definition parseDurationDefault :: "(string \<Rightarrow> int option) \<Rightarrow> string \<Rightarrow> int \<Rightarrow> int" where
  "parseDurationDefault durations s def =
     (if s = [] then def
      else case durations s of
        Some d \<Rightarrow> if d > 0 then d
          else (case atoi s of Some secs \<Rightarrow> if secs > 0 then wrap64 (secs * 1000000000) else def | None \<Rightarrow> def)
      | None \<Rightarrow> (case atoi s of Some secs \<Rightarrow> if secs > 0 then wrap64 (secs * 1000000000) else def | None \<Rightarrow> def))"

definition label_prefix :: string where "label_prefix = ''label.''"

definition labelFilters :: "url_values \<Rightarrow> string gomap" where
  "labelFilters q =
     fold (\<lambda>(key, vals) out.
         if \<not> has_prefix key label_prefix \<or> trim_prefix key label_prefix = [] \<or> vals = [] \<or> hd vals = [] then out
         else store (trim_prefix key label_prefix) (hd vals) out) q []"

text \<open>\<open>clock\<close> is the time of the request; \<open>rfc3339\<close> is \<open>time.Parse\<close> with that layout.\<close>

record query_env =
  qe_now :: int
  qe_duration :: "string \<Rightarrow> int option"
  qe_rfc3339 :: "string \<Rightarrow> int option"

definition filterFromQuery :: "query_env \<Rightarrow> http_request \<Rightarrow> log_filter" where
  "filterFromQuery env r =
     (let q = fst (ParseQuery (req_RawQuery r)); v = values_Get q ''since'';
          since = (if v = [] then 0
                   else case qe_duration env v of Some d \<Rightarrow> qe_now env - d
                     | None \<Rightarrow> (case qe_rfc3339 env v of Some t \<Rightarrow> t | None \<Rightarrow> 0))
      in \<lparr>f_Method = values_Get q ''method'', f_PathPrefix = values_Get q ''path'', f_Search = values_Get q ''q'',
          f_StatusMin = atoi_lenient (values_Get q ''status_min''),
          f_StatusMax = atoi_lenient (values_Get q ''status_max''), f_Since = since, f_Until = 0,
          f_TraceID = values_Get q ''trace'', f_Labels = labelFilters q,
          f_Limit = atoi_lenient (values_Get q ''limit''), f_Offset = atoi_lenient (values_Get q ''offset'')\<rparr>)"

definition keep_first :: "string \<times> string \<Rightarrow> string gomap \<Rightarrow> string gomap" where
  "keep_first nv out = (let k = CanonicalHeaderKey (fst nv)
     in if lookup out k = None then store k (snd nv) out else out)"

definition canonicalHeaderNames :: "string gomap \<Rightarrow> string gomap" where
  "canonicalHeaderNames h = fold keep_first h []"

definition analysisRows :: "admin_cfg \<Rightarrow> int" where
  "analysisRows s = (if as_AnalysisMaxRows s > 0 then as_AnalysisMaxRows s else DefaultAnalysisMaxRows)"

subsection \<open>No route is left open\<close>

lemma core_route_capability:
  assumes "(pat, cap) \<in> set (core_routes s)" and "\<not> (as_HealthOpen s \<and> pat = ''GET /healthz'')"
  shows "cap \<noteq> CapPublic"
  using assms
  by (auto simp: core_routes_def CapPublic_def CapMetrics_def CapReadStats_def CapReadPayload_def CapExport_def
      CapAnalyse_def CapReadConfig_def CapAdmin_def CapIngest_def CapUI_def split: if_splits)

lemma admin_route_guarded:
  assumes "admin_Handler s g core = Some routes" and "(pat, h) \<in> set routes" and "pat \<in> fst ` set (core_routes s)"
  shows "\<exists>cap. (pat, cap) \<in> set (core_routes s) \<and> h = guard (admin_access s g) cap (core pat)"
proof -
  have routes: "routes = map (\<lambda>(pat, cap). (pat, guard (admin_access s g) cap (core pat))) (core_routes s) @
      map (\<lambda>rt. (ar_Pattern rt, guard (admin_access s g) (ar_Capability rt) (ar_Handler rt))) (rg_adminRoutes g)"
    and apart: "\<forall>rt \<in> set (rg_adminRoutes g). ar_Pattern rt \<notin> fst ` set (core_routes s)"
    using assms(1) by (auto simp: admin_Handler_def Let_def list_ex_iff split: if_splits)
  have "(pat, h) \<notin> set (map (\<lambda>rt. (ar_Pattern rt, guard (admin_access s g) (ar_Capability rt) (ar_Handler rt))) (rg_adminRoutes g))"
  proof -
    have "\<forall>rt \<in> set (rg_adminRoutes g). ar_Pattern rt \<noteq> pat"
      using apart assms(3) by blast
    then show ?thesis by auto
  qed
  then have "(pat, h) \<in> set (map (\<lambda>(pat, cap). (pat, guard (admin_access s g) cap (core pat))) (core_routes s))"
    using assms(2) unfolding routes set_append by blast
  then show ?thesis by auto
qed

text \<open>
  C5. With a token configured, every core route but an open \<open>/healthz\<close> serves only callers that an
  authenticator or the token vouches for and every authoriser allows; a preflight request is served
  without either.
\<close>

theorem core_routes_closed:
  assumes "admin_Handler s g core = Some routes" and "(pat, h) \<in> set routes" and "pat \<in> fst ` set (core_routes s)"
    and "as_AuthToken s \<noteq> []" and "\<not> (as_HealthOpen s \<and> pat = ''GET /healthz'')" and "req_Method r \<noteq> ''OPTIONS''"
    and "gr_Served (h r) = Some who"
  shows "entitled (admin_access s g) r who \<and> (who = None \<longrightarrow> rg_authenticators g \<noteq> []) \<and>
    (\<exists>cap. (pat, cap) \<in> set (core_routes s) \<and>
      (\<forall>az \<in> set (rg_authorizers g). az_Authorize az who (guarded_action cap r) = Allowed))"
proof -
  let ?ac = "admin_access s g"
  obtain cap where cap: "(pat, cap) \<in> set (core_routes s)" "h = guard ?ac cap (core pat)"
    using admin_route_guarded [OF assms(1-3)] by blast
  have active: "access_active ?ac"
    using assms(4) by (simp add: access_active_def admin_access_def)
  have cases: "gr_Served (guard ?ac cap (core pat) r) =
    (case fst (authenticate ?ac r) of
       Inl _ \<Rightarrow> None
     | Inr who \<Rightarrow> if refusal (acc_authzs ?ac) who (guarded_action cap r) = None then Some who else None)"
    by (rule guard_cases [OF active assms(6) core_route_capability [OF cap(1) assms(5)]])
  obtain st where st: "authenticate ?ac r = (Inr who, st)" "refusal (acc_authzs ?ac) who (guarded_action cap r) = None"
    using assms(7) unfolding cap(2) cases by (cases "authenticate ?ac r") (auto split: sum.splits if_splits)
  then have "entitled ?ac r who" "\<forall>az \<in> set (rg_authorizers g). az_Authorize az who (guarded_action cap r) = Allowed"
    using authenticate_entitled refusal_None by (blast, simp add: admin_access_def refusal_None)
  moreover have "who = None \<longrightarrow> rg_authenticators g \<noteq> []"
    using \<open>entitled ?ac r who\<close> assms(4) by (auto simp: entitled_def admin_access_def)
  ultimately show ?thesis
    using cap(1) by blast
qed

definition bare_admin :: admin_cfg where
  "bare_admin = \<lparr>as_Collector = False, as_HealthOpen = True, as_AuthToken = ''s3cr3t'', as_CORSOrigins = [], as_AnalysisMaxRows = 0\<rparr>"

theorem core_routes_closed_witness:
  "entitled (admin_access bare_admin ResetRegistriesForTest)
     (sample_request_with ''GET'' [(''Authorization'', [''Bearer s3cr3t''])]) (Some shared_token_identity)"
proof -
  let ?h = "guard (admin_access bare_admin ResetRegistriesForTest) CapReadPayload quiet_handler"
  let ?r = "sample_request_with ''GET'' [(''Authorization'', [''Bearer s3cr3t''])]"
  obtain routes where routes: "admin_Handler bare_admin ResetRegistriesForTest (\<lambda>_. quiet_handler) = Some routes"
    by (simp add: admin_Handler_def ResetRegistriesForTest_def)
  then have mem: "(''GET /api/logs'', ?h) \<in> set routes"
    by (auto simp: admin_Handler_def ResetRegistriesForTest_def core_routes_def Let_def)
  have "''GET /api/logs'' \<in> fst ` set (core_routes bare_admin)"
    by (simp add: core_routes_def)
  moreover have "as_AuthToken bare_admin \<noteq> []" "\<not> (as_HealthOpen bare_admin \<and> ''GET /api/logs'' = ''GET /healthz'')"
    "req_Method ?r \<noteq> ''OPTIONS''"
    by (simp_all add: bare_admin_def sample_request_with_def)
  moreover have "gr_Served (?h ?r) = Some (Some shared_token_identity)"
    by code_simp
  ultimately show ?thesis
    using core_routes_closed [OF routes mem] by blast
qed

text \<open>An origin that is not listed gets no permission, and without a list nobody does.\<close>

lemma cors_only_listed:
  assumes "lookup (fst (withCORS allowed r)) ''Access-Control-Allow-Origin'' = Some x"
  shows "allowed \<noteq> [] \<and> (x = ''*'' \<and> ''*'' \<in> set allowed \<or> x \<in> set allowed \<and> x = header_Get (req_Header r) ''Origin'')"
  using assms by (auto simp: withCORS_def Let_def split: if_splits)

subsection \<open>The audit trail\<close>

lemma values_of_map:
  "values_of (map (\<lambda>(k, vs). (k, g k vs)) q) j = (case lookup q j of None \<Rightarrow> [] | Some vs \<Rightarrow> g j vs)"
  by (induction q) (auto simp: values_of_def)

lemma ParseQuery_Encode:
  "values_of (fst (ParseQuery (values_Encode m))) j = values_of m j"
proof -
  let ?ps = "concat (map (\<lambda>k. map (Pair k) (values_of m k)) (sorted_keys m))"
  have enc: "values_Encode m = write_pairs (map (\<lambda>(k, v). (QueryEscape k, v)) (map (\<lambda>(k, v). (k, QueryEscape v)) ?ps))"
    by (simp add: values_Encode_def comp_def split_def)
  have "ParseQuery (values_Encode m) =
      (fold (\<lambda>(k, v). add_value k (the (QueryUnescape v))) (map (\<lambda>(k, v). (k, QueryEscape v)) ?ps) [], False)"
    unfolding enc by (rule ParseQuery_write_pairs) (auto simp: QueryEscape_plain)
  then have "values_of (fst (ParseQuery (values_Encode m))) j =
      map ((\<lambda>v. the (QueryUnescape v)) \<circ> snd) (filter (\<lambda>kv. fst kv = j) (map (\<lambda>(k, v). (k, QueryEscape v)) ?ps))"
    by (simp only: fst_conv values_of_fold_add) (simp add: values_of_def)
  also have "\<dots> = map snd (filter (\<lambda>kv. fst kv = j) ?ps)"
    by (simp add: filter_map comp_def split_def)
  also have "\<dots> = values_of m j"
    using filter_grouped [of "sorted_keys m" j "\<lambda>_ v. v" "values_of m"]
    by (auto simp: comp_def values_of_def split: option.splits dest: map_of_SomeD)
       (metis domIff dom_map_of_conv_image_fst option.distinct(1))
  finally show ?thesis .
qed

text \<open>
  C23. The query written to the audit trail reads back as the request's query with every credential
  replaced, for any query without malformed pairs.
\<close>

theorem audit_query_clean:
  assumes "\<not> snd (ParseQuery raw)"
  shows "values_of (fst (ParseQuery (auditableQuery raw))) k =
    (if credential_key k \<and> lookup (fst (ParseQuery raw)) k \<noteq> None then [''[REDACTED]'']
     else values_of (fst (ParseQuery raw)) k)"
proof -
  define q where "q = fst (ParseQuery raw)"
  consider "q = []" | "q \<noteq> []" "\<not> list_ex credential_key (keys q)" | "q \<noteq> []" "list_ex credential_key (keys q)"
    by blast
  then show ?thesis
  proof cases
    case 1
    then have "auditableQuery raw = []"
      by (simp add: auditableQuery_def q_def [symmetric])
    moreover have "ParseQuery [] = ([], False)"
      by (simp add: ParseQuery_def parse_pair_def)
    ultimately show ?thesis
      using 1 by (simp add: q_def [symmetric] values_of_def)
  next
    case 2
    then have "\<not> (credential_key k \<and> lookup q k \<noteq> None)"
      by (auto simp: list_ex_iff map_of_eq_None_iff)
    with 2 show ?thesis
      by (auto simp: auditableQuery_def q_def [symmetric])
  next
    case 3
    then show ?thesis
      by (simp add: auditableQuery_def q_def [symmetric] ParseQuery_Encode values_of_map)
         (simp add: values_of_def split: option.split)
  qed
qed

theorem audit_query_clean_witness:
  "values_of (fst (ParseQuery (auditableQuery ''limit=5&token=s3cr3t''))) ''token'' = [''[REDACTED]'']"
proof -
  have "\<not> snd (ParseQuery ''limit=5&token=s3cr3t'')" "credential_key ''token''"
    "lookup (fst (ParseQuery ''limit=5&token=s3cr3t'')) ''token'' \<noteq> None"
    by code_simp+
  then show ?thesis
    using audit_query_clean by auto
qed

text \<open>A malformed pair is not parsed, so a credential in it goes into the audit trail as it is.\<close>

lemma audit_query_leaks: "auditableQuery ''limit=5&token=s3cr3t;'' = ''limit=5&token=s3cr3t;''"
  by code_simp

text \<open>The multiplication of a long window wraps around: the window ends up in the future.\<close>

lemma window_wraps: "parseDurationDefault (\<lambda>_. None) ''9999999999'' 1 < 0"
  by (simp add: parseDurationDefault_def atoi_def digits_val_def digit_val_def is_digit_def wrap64_def)

lemma wrap64_id:
  assumes "- (2 ^ 63) \<le> i" and "i < 2 ^ 63"
  shows "wrap64 i = i"
proof -
  have "(i + 2 ^ 63) mod 2 ^ 64 = i + 2 ^ 63"
    by (rule mod_pos_pos_trivial) (use assms in simp_all)
  then show ?thesis
    by (simp add: wrap64_def)
qed

lemma window_positive:
  assumes "0 < def" and "\<And>n. atoi s = Some n \<Longrightarrow> n < 9223372036"
  shows "0 < parseDurationDefault durations s def"
proof -
  have "wrap64 (n * 1000000000) = n * 1000000000" if "0 < n" "atoi s = Some n" for n
    using that(1) assms(2) [OF that(2)] by (intro wrap64_id) simp_all
  then have "0 < wrap64 (n * 1000000000)" if "0 < n" "atoi s = Some n" for n
    using that by simp
  then show ?thesis
    using assms(1) by (cases "durations s"; cases "atoi s") (simp_all add: parseDurationDefault_def)
qed

text \<open>
  Which of two spellings of a header survives depends on the order in which the map is iterated, which
  Go leaves open: the unmasked value can win.
\<close>

lemma canonical_order_decides:
  "lookup (canonicalHeaderNames [(''authorization'', ''Bearer x''), (''Authorization'', ''[REDACTED]'')]) ''Authorization''
     = Some ''Bearer x''"
  by code_simp

lemma canonical_names_canonical:
  assumes "k \<in> fst ` set (canonicalHeaderNames h)"
  shows "CanonicalHeaderKey k = k"
proof -
  have step: "fst ` set (keep_first nv out) \<subseteq> insert (CanonicalHeaderKey (fst nv)) (fst ` set out)" for nv out
    by (simp add: keep_first_def Let_def keys_store) blast
  have "fst ` set (fold keep_first h out) \<subseteq> {k. CanonicalHeaderKey k = k} \<union> fst ` set out" for out
  proof (induction h arbitrary: out)
    case (Cons nv h)
    have "fst ` set (keep_first nv out) \<subseteq> {k. CanonicalHeaderKey k = k} \<union> fst ` set out"
    proof
      fix k assume "k \<in> fst ` set (keep_first nv out)"
      then have "k = CanonicalHeaderKey (fst nv) \<or> k \<in> fst ` set out"
        using step [of nv out] by blast
      then show "k \<in> {k. CanonicalHeaderKey k = k} \<union> fst ` set out"
        by (elim disjE) simp_all
    qed
    then show ?case
      unfolding fold_Cons comp_def using Cons.IH [of "keep_first nv out"] by blast
  qed simp
  from this [of "[]"] assms show ?thesis
    by (auto simp: canonicalHeaderNames_def)
qed

end
