(* ===== verification/AdminReads.thy ===== *)
theory AdminReads
  imports AdminHttp MemStore Scanner SpecInfer Sinks
begin

text \<open>
  The handlers of the admin surface that read (\<open>internal/admin/admin.go\<close>).  The store behind them is a
  parameter with the operations of \<open>ext.Store\<close>; an optional operation that a driver lacks is \<open>None\<close>.  A
  handler answers a status with a value, and the notes it leaves for the audit trail.
\<close>

datatype 'a reply = Reply int 'a | HttpError int string

type_synonym 'a answer = "'a reply \<times> accessed list"

definition quietly :: "'a reply \<Rightarrow> 'a answer" where "quietly r = (r, [])"

definition or_error :: "string + 'a \<Rightarrow> ('a \<Rightarrow> 'b answer) \<Rightarrow> 'b answer" where
  "or_error x f = (case x of Inl e \<Rightarrow> quietly (HttpError 500 e) | Inr y \<Rightarrow> f y)"

record log_reader =
  rd_Query :: "log_filter \<Rightarrow> string + (http_record list \<times> int)"
  rd_Get :: "int \<Rightarrow> string + http_record"
  rd_Stats :: "int \<Rightarrow> int \<Rightarrow> string + store_stats"
  rd_RouteStats :: "int \<Rightarrow> string + route_detail list"
  rd_RuleMatchCounts :: "int \<Rightarrow> string list \<Rightarrow> string + match_count list"
  rd_Count :: "string + int"
  rd_Recent :: "int \<Rightarrow> int \<Rightarrow> string + http_record list"
  rd_ServiceStats :: "int \<Rightarrow> string + service_stat list"
  rd_UsageByLabel :: "int \<Rightarrow> string \<Rightarrow> string + consumer_usage list"
  rd_Traces :: "(trace_filter \<Rightarrow> string + (trace_summary list \<times> int)) option"

record app_log_reader =
  al_Query :: "app_log_filter \<Rightarrow> string + (app_log list \<times> int)"
  al_Stats :: "int \<Rightarrow> string + app_log_summary"

record span_reader =
  sp_Query :: "span_filter \<Rightarrow> string + (span list \<times> int)"
  sp_Breakdown :: "int \<Rightarrow> string \<Rightarrow> int \<Rightarrow> string + span_breakdown list"
  sp_Stats :: "int \<Rightarrow> string + span_summary"

definition store_disabled :: "'a answer" where
  "store_disabled = quietly (HttpError 501 ''payload store is disabled'')"

definition reached :: "int \<Rightarrow> int list \<Rightarrow> string \<Rightarrow> string \<Rightarrow> accessed" where
  "reached n ids filter_text consumer = \<lparr>acd_Count = n, acd_RecordIDs = ids, acd_Filter = filter_text, acd_Consumer = consumer\<rparr>"

definition url_query :: "http_request \<Rightarrow> string \<Rightarrow> string" where
  "url_query r k = values_Get (fst (ParseQuery (req_RawQuery r))) k"

definition an_hour :: int where "an_hour = 3600000000000"

definition window_start :: "query_env \<Rightarrow> http_request \<Rightarrow> int \<Rightarrow> int" where
  "window_start env r def = qe_now env - parseDurationDefault (qe_duration env) (url_query r ''window'') def"

subsection \<open>Records and aggregates\<close>

definition health :: "int \<Rightarrow> (string \<times> int) answer" where
  "health uptime_seconds = quietly (Reply 200 (''ok'', uptime_seconds))"

definition listLogs :: "log_reader option \<Rightarrow> query_env \<Rightarrow> http_request \<Rightarrow> (int \<times> http_record list) answer" where
  "listLogs reader env r = (case reader of
     None \<Rightarrow> quietly (HttpError 501 ''payload store is disabled (telemetry.store.driver: none)'')
   | Some rd \<Rightarrow> or_error (rd_Query rd (filterFromQuery env r)) (\<lambda>(recs, n).
       (Reply 200 (n, recs), [reached (int (length recs)) (map hr_ID recs) (auditableQuery (req_RawQuery r)) []])))"

definition getLog :: "log_reader option \<Rightarrow> string \<Rightarrow> http_record answer" where
  "getLog reader path_id = (case reader of
     None \<Rightarrow> store_disabled
   | Some rd \<Rightarrow> (case atoi path_id of
       None \<Rightarrow> quietly (HttpError 400 ''invalid id'')
     | Some i \<Rightarrow> (case rd_Get rd i of
         Inl _ \<Rightarrow> quietly (HttpError 404 ''record not found'')
       | Inr rec \<Rightarrow> (Reply 200 rec, [reached 1 [i] [] (record_label rec ''tenant'')]))))"

definition admin_stats :: "log_reader option \<Rightarrow> query_env \<Rightarrow> http_request \<Rightarrow> store_stats answer" where
  "admin_stats reader env r = (case reader of
     None \<Rightarrow> store_disabled
   | Some rd \<Rightarrow> or_error (rd_Stats rd (window_start env r an_hour)
         (parseDurationDefault (qe_duration env) (url_query r ''bucket'') 60000000000))
       (\<lambda>st. quietly (Reply 200 st)))"

definition admin_routes :: "log_reader option \<Rightarrow> query_env \<Rightarrow> http_request \<Rightarrow> route_detail list answer" where
  "admin_routes reader env r = (case reader of
     None \<Rightarrow> store_disabled
   | Some rd \<Rightarrow> or_error (rd_RouteStats rd (window_start env r an_hour)) (\<lambda>rs. quietly (Reply 200 rs)))"

definition admin_services :: "log_reader option \<Rightarrow> query_env \<Rightarrow> http_request \<Rightarrow> service_stat list answer" where
  "admin_services reader env r = (case reader of
     None \<Rightarrow> store_disabled
   | Some rd \<Rightarrow> or_error (rd_ServiceStats rd (window_start env r an_hour)) (\<lambda>ss. quietly (Reply 200 ss)))"

text \<open>The configuration file as it is read for a request: unreadable, refused by \<open>Parse\<close>, or parsed.\<close>

datatype config_file = Unreadable string | Rejected string | Loaded config

record rule_view =
  rv_Name :: string
  rv_Path :: string
  rv_Methods :: "string list"
  rv_Restrict :: "string list"
  rv_RedactHdrs :: int
  rv_RedactJSON :: int
  rv_Labels :: int
  rv_Sample :: "rat option"
  rv_Matches :: int

definition shown_name :: "nat \<Rightarrow> rule \<Rightarrow> string" where
  "shown_name i rl = (if r_Name rl = [] then CHR ''#'' # itoa (int i) else r_Name rl)"

definition view_of :: "int gomap \<Rightarrow> nat \<times> rule \<Rightarrow> rule_view" where
  "view_of counts ir = (case ir of (i, rl) \<Rightarrow>
     \<lparr>rv_Name = shown_name i rl, rv_Path = m_Path (r_Match rl), rv_Methods = m_Methods (r_Match rl),
      rv_Restrict = r_Restrict rl,
      rv_RedactHdrs = (case r_Redact rl of None \<Rightarrow> 0 | Some x \<Rightarrow> int (length (red_Headers x))),
      rv_RedactJSON = (case r_Redact rl of None \<Rightarrow> 0 | Some x \<Rightarrow> int (length (red_JSONFields x))),
      rv_Labels = int (length (r_Labels rl)), rv_Sample = r_Sample rl,
      rv_Matches = (case lookup counts (shown_name i rl) of None \<Rightarrow> 0 | Some n \<Rightarrow> n)\<rparr>)"

definition ruleStats ::
    "log_reader option \<Rightarrow> config_file \<Rightarrow> query_env \<Rightarrow> http_request \<Rightarrow> (rule_view list \<times> int) answer" where
  "ruleStats reader cfg env r = (case cfg of
     Unreadable e \<Rightarrow> quietly (HttpError 500 e)
   | Rejected e \<Rightarrow> quietly (HttpError 422 (''config invalid: '' @ e))
   | Loaded c \<Rightarrow>
       (let indexed = enumerate 0 (c_Rules c); names = map (\<lambda>(i, rl). shown_name i rl) indexed
        in case reader of
             None \<Rightarrow> quietly (Reply 200 (map (view_of []) indexed, 0))
           | Some rd \<Rightarrow>
               (let since = window_start env r an_hour
                in or_error (rd_RuleMatchCounts rd since names) (\<lambda>ms.
                  let counts = fold (\<lambda>m cs. store (rmt_Rule m) (rmt_Count m) cs) ms [];
                      windowTotal = (case rd_Stats rd since an_hour of Inl _ \<Rightarrow> 0 | Inr st \<Rightarrow> st_Total st)
                  in quietly (Reply 200 (map (view_of counts) indexed, windowTotal))))))"

record system_info =
  sys_version :: string
  sys_uptime :: int
  sys_config_path :: string
  sys_store :: "bool \<times> int option"
  sys_exporters :: "export_stat list"
  sys_service :: "(string \<times> string \<times> int) option"

definition admin_system ::
    "string \<Rightarrow> int \<Rightarrow> string \<Rightarrow> log_reader option \<Rightarrow> config_file \<Rightarrow> export_stat list option \<Rightarrow> system_info answer" where
  "admin_system version uptime base_name reader cfg exporters =
     quietly (Reply 200
       \<lparr>sys_version = version, sys_uptime = uptime, sys_config_path = base_name,
        sys_store = (case reader of None \<Rightarrow> (False, None)
          | Some rd \<Rightarrow> (case rd_Count rd of Inl _ \<Rightarrow> (True, None) | Inr n \<Rightarrow> (True, Some n))),
        sys_exporters = (case exporters of None \<Rightarrow> [] | Some xs \<Rightarrow> xs),
        sys_service = (case cfg of Loaded c \<Rightarrow>
            Some (svc_Name (c_Service c), svc_Upstream (c_Service c), int (length (c_Rules c))) | _ \<Rightarrow> None)\<rparr>)"

subsection \<open>Usage and cost\<close>

definition price_component :: "string \<Rightarrow> rat \<Rightarrow> rat \<Rightarrow> rat gomap \<times> rat \<Rightarrow> rat gomap \<times> rat" where
  "price_component name amount price acc =
     (if price > 0 then (store name (amount * price) (fst acc), snd acc + amount * price) else acc)"

definition price_meter :: "rat gomap \<Rightarrow> string \<times> rat \<Rightarrow> rat gomap \<times> rat \<Rightarrow> rat gomap \<times> rat" where
  "price_meter meters np acc = (case lookup meters (fst np) of
     None \<Rightarrow> acc | Some v \<Rightarrow> price_component (fst np) v (snd np) acc)"

definition usage_cost :: "prices \<Rightarrow> consumer_usage \<Rightarrow> rat gomap" where
  "usage_cost p u =
     (let a1 = price_component ''requests'' (of_int (cu_Requests u)) (pr_PerRequest p) ([], 0);
          a2 = price_component ''data'' (of_int (cu_ReqBytes u + cu_RespBytes u) / 2 ^ 30) (pr_PerGB p) a1;
          a3 = fold (price_meter (cu_Meters u)) (pr_PerMeterUnit p) a2
      in store ''total'' (snd a3) (fst a3))"

definition billing_of :: "config_file \<Rightarrow> billing option" where
  "billing_of cfg = (case cfg of Loaded c \<Rightarrow> tel_Billing (c_Telemetry c) | _ \<Rightarrow> None)"

definition usage_label :: "billing option \<Rightarrow> http_request \<Rightarrow> string" where
  "usage_label b r = (if url_query r ''label'' = [] then (case b of None \<Rightarrow> ''tenant'' | Some x \<Rightarrow> bil_ConsumerLabel x)
     else url_query r ''label'')"

record usage_report =
  ur_Label :: string
  ur_Currency :: string
  ur_Billing :: bool
  ur_Consumers :: "(consumer_usage \<times> rat gomap) list"

definition admin_usage :: "log_reader option \<Rightarrow> config_file \<Rightarrow> query_env \<Rightarrow> http_request \<Rightarrow> usage_report answer" where
  "admin_usage reader cfg env r = (case reader of
     None \<Rightarrow> store_disabled
   | Some rd \<Rightarrow>
       (let b = billing_of cfg; label = usage_label b r
        in or_error (rd_UsageByLabel rd (window_start env r (24 * an_hour)) label) (\<lambda>rows.
          quietly (Reply 200
            \<lparr>ur_Label = label,
             ur_Currency = (case b of None \<Rightarrow> ''USD'' | Some x \<Rightarrow> if rows = [] then ''USD'' else bil_Currency x),
             ur_Billing = (b \<noteq> None),
             ur_Consumers = map (\<lambda>u. (u, case b of None \<Rightarrow> [] | Some x \<Rightarrow> usage_cost (bil_Prices x) u)) rows\<rparr>))))"

subsection \<open>Analyses\<close>

text \<open>
  The paging loop over lines or spans: pages of 500 until one is empty, the offset reaches the total or
  the row bound; \<open>fuel\<close> bounds the number of pages.
\<close>

fun page_loop ::
    "nat \<Rightarrow> (int \<Rightarrow> string + ('a list \<times> int)) \<Rightarrow> ('a \<Rightarrow> 's \<Rightarrow> 's option) \<Rightarrow> int \<Rightarrow> int \<Rightarrow> 's \<Rightarrow> (string + 's) option" where
  "page_loop 0 q add rows offset s = None"
| "page_loop (Suc n) q add rows offset s = (case q offset of
     Inl e \<Rightarrow> Some (Inl e)
   | Inr (page, total_rows) \<Rightarrow>
       (case fold (\<lambda>x acc. Option.bind acc (add x)) page (Some s) of
          None \<Rightarrow> None
        | Some s' \<Rightarrow>
            (let offset' = offset + int (length page)
             in if page = [] \<or> offset' \<ge> total_rows \<or> offset' \<ge> rows then Some (Inr s')
                else page_loop n q add rows offset' s')))"

record scan_answer =
  sa_Report :: scan_report
  sa_Counts :: "int \<times> int \<times> int"
  sa_Truncated :: bool
  sa_MaxRows :: int

definition scan_logs_filter :: "int \<Rightarrow> int \<Rightarrow> app_log_filter" where
  "scan_logs_filter since offset = \<lparr>lf_TraceID = [], lf_SpanID = [], lf_Service = [], lf_LevelMin = [],
     lf_Since = since, lf_Until = 0, lf_Search = [], lf_Limit = 500, lf_Offset = offset\<rparr>"

definition scan_spans_filter :: "int \<Rightarrow> int \<Rightarrow> span_filter" where
  "scan_spans_filter since offset = \<lparr>sf_TraceID = [], sf_SpanID = [], sf_ParentSpanID = [], sf_Service = [],
     sf_Kind = [], sf_MinDurationMS = 0, sf_ErrorsOnly = False, sf_Since = since, sf_Until = 0, sf_Search = [],
     sf_Limit = 500, sf_Offset = offset\<rparr>"

definition scan_stage ::
    "nat \<Rightarrow> (int \<Rightarrow> string + ('a list \<times> int)) option \<Rightarrow> ('a \<Rightarrow> scanner \<Rightarrow> scanner option) \<Rightarrow> int \<Rightarrow> scanner \<Rightarrow>
       (string + scanner) option" where
  "scan_stage fuel src add rows sc = (case src of None \<Rightarrow> Some (Inr sc) | Some q \<Rightarrow> page_loop fuel q add rows 0 sc)"

text \<open>\<open>None\<close> is a panic of a detector, or no end of the paging within the fuel.\<close>

definition admin_scan ::
    "nat \<Rightarrow> (string \<Rightarrow> json option) \<Rightarrow> admin_cfg \<Rightarrow> detector list \<Rightarrow> log_reader option \<Rightarrow> app_log_reader option \<Rightarrow>
       span_reader option \<Rightarrow> query_env \<Rightarrow> http_request \<Rightarrow> scan_answer answer option" where
  "admin_scan fuel unmarshal cfg extra reader logs spans env r = (case reader of
     None \<Rightarrow> Some store_disabled
   | Some rd \<Rightarrow>
       (let since = window_start env r (24 * an_hour); limit = analysisRows cfg
        in case rd_Recent rd since limit of
             Inl e \<Rightarrow> Some (quietly (HttpError 500 e))
           | Inr recs \<Rightarrow>
               Option.bind (add_records unmarshal recs (NewScannerWith since extra)) (\<lambda>sc1.
               Option.bind (scan_stage fuel (map_option (\<lambda>al off. al_Query al (scan_logs_filter since off)) logs)
                   AddAppLog limit sc1) (\<lambda>res2. case res2 of
                 Inl e \<Rightarrow> Some (quietly (HttpError 500 e))
               | Inr sc2 \<Rightarrow>
               Option.bind (scan_stage fuel (map_option (\<lambda>sp off. sp_Query sp (scan_spans_filter since off)) spans)
                   AddSpan limit sc2) (\<lambda>res3. case res3 of
                 Inl e \<Rightarrow> Some (quietly (HttpError 500 e))
               | Inr sc3 \<Rightarrow>
                   (let rep = scanner_Report sc3
                    in Some (Reply 200 \<lparr>sa_Report = rep, sa_Counts = Counts rep,
                         sa_Truncated = (limit > 0 \<and> int (length recs) \<ge> limit), sa_MaxRows = limit\<rparr>,
                       [reached (sr_Scanned rep) [] (auditableQuery (req_RawQuery r)) []])))))))"

definition inferSpec ::
    "(string \<Rightarrow> json option) \<Rightarrow> admin_cfg \<Rightarrow> log_reader option \<Rightarrow> config_file \<Rightarrow> query_env \<Rightarrow> http_request \<Rightarrow> spec answer" where
  "inferSpec unmarshal cfg reader file env r = (case reader of
     None \<Rightarrow> store_disabled
   | Some rd \<Rightarrow>
       (let service = (case file of Loaded c \<Rightarrow> svc_Name (c_Service c) | _ \<Rightarrow> [])
        in or_error (rd_Recent rd (window_start env r (24 * an_hour)) (analysisRows cfg)) (\<lambda>recs.
          if recs = [] then quietly (HttpError 404 ''no traffic captured in this window'')
          else (Reply 200 (Infer unmarshal service recs),
                [reached (int (length recs)) [] (auditableQuery (req_RawQuery r)) []]))))"

subsection \<open>Export\<close>

text \<open>The pages of the download; the loop ends with an error, an empty page or a short one.\<close>

fun export_pages ::
    "nat \<Rightarrow> (log_filter \<Rightarrow> string + (http_record list \<times> int)) \<Rightarrow> log_filter \<Rightarrow> int \<Rightarrow> http_record list list option" where
  "export_pages 0 q f offset = None"
| "export_pages (Suc n) q f offset = (case q (f\<lparr>f_Offset := offset\<rparr>) of
     Inl _ \<Rightarrow> Some []
   | Inr (recs, _) \<Rightarrow>
       if recs = [] then Some []
       else if int (length recs) < f_Limit f then Some [recs]
       else map_option (Cons recs) (export_pages n q f (offset + f_Limit f)))"

definition admin_export ::
    "nat \<Rightarrow> log_reader option \<Rightarrow> query_env \<Rightarrow> http_request \<Rightarrow> (string \<times> http_record list) answer option" where
  "admin_export fuel reader env r = (case reader of
     None \<Rightarrow> Some store_disabled
   | Some rd \<Rightarrow>
       (let format = (if url_query r ''format'' = [] then ''jsonl'' else url_query r ''format'')
        in if format \<noteq> ''jsonl'' \<and> format \<noteq> ''csv'' then Some (quietly (HttpError 400 ''format must be jsonl or csv''))
           else map_option (\<lambda>pages. (Reply 200 (format, concat pages),
               map (\<lambda>p. reached (int (length p)) [] (auditableQuery (req_RawQuery r)) []) pages))
             (export_pages fuel (rd_Query rd) ((filterFromQuery env r)\<lparr>f_Limit := 500\<rparr>) 0)))"

subsection \<open>Configuration\<close>

record config_answer =
  ca_Valid :: bool
  ca_Error :: string
  ca_Service :: string
  ca_Rules :: int

definition loaded_answer :: "config \<Rightarrow> config_answer" where
  "loaded_answer c = \<lparr>ca_Valid = True, ca_Error = [], ca_Service = svc_Name (c_Service c), ca_Rules = int (length (c_Rules c))\<rparr>"

definition rejected_answer :: "string \<Rightarrow> config_answer" where
  "rejected_answer e = \<lparr>ca_Valid = False, ca_Error = e, ca_Service = [], ca_Rules = 0\<rparr>"

definition getConfig :: "config_file \<Rightarrow> config_answer answer" where
  "getConfig file = (case file of
     Unreadable e \<Rightarrow> quietly (HttpError 500 e)
   | Rejected e \<Rightarrow> quietly (Reply 200 (rejected_answer e))
   | Loaded c \<Rightarrow> quietly (Reply 200 (loaded_answer c)))"

definition validateConfig :: "config_file \<Rightarrow> config_answer answer" where
  "validateConfig body = (case body of
     Unreadable _ \<Rightarrow> quietly (HttpError 400 ''unreadable body'')
   | Rejected e \<Rightarrow> quietly (Reply 200 (rejected_answer e))
   | Loaded c \<Rightarrow> quietly (Reply 200 (loaded_answer c)))"

definition admin_reload :: "(string option) option \<Rightarrow> bool answer" where
  "admin_reload hook = (case hook of
     None \<Rightarrow> quietly (HttpError 501 ''reload not wired'')
   | Some (Some e) \<Rightarrow> quietly (HttpError 422 e)
   | Some None \<Rightarrow> quietly (Reply 200 True))"

subsection \<open>Lines, spans and traces\<close>

definition since_window :: "query_env \<Rightarrow> http_request \<Rightarrow> int" where
  "since_window env r = (if url_query r ''window'' = [] then 0 else window_start env r an_hour)"

definition queryAppLogs :: "app_log_reader option \<Rightarrow> query_env \<Rightarrow> http_request \<Rightarrow> (app_log list \<times> int) answer" where
  "queryAppLogs logs env r = (case logs of
     None \<Rightarrow> quietly (HttpError 501 ''app-log storage is not configured'')
   | Some al \<Rightarrow>
       (let limit = atoi_lenient (url_query r ''limit'')
        in or_error (al_Query al
             \<lparr>lf_TraceID = url_query r ''trace'', lf_SpanID = url_query r ''span'', lf_Service = url_query r ''service'',
              lf_LevelMin = url_query r ''level'', lf_Since = since_window env r, lf_Until = 0,
              lf_Search = url_query r ''q'', lf_Limit = (if limit \<le> 0 then 200 else limit),
              lf_Offset = atoi_lenient (url_query r ''offset'')\<rparr>)
           (\<lambda>ln. quietly (Reply 200 ln))))"

definition truthy :: "string \<Rightarrow> bool" where
  "truthy s \<longleftrightarrow> s = ''1'' \<or> s = ''true''"

definition admin_traces :: "log_reader \<Rightarrow> query_env \<Rightarrow> http_request \<Rightarrow> (trace_summary list \<times> int) answer" where
  "admin_traces rd env r = (case rd_Traces rd of
     None \<Rightarrow> quietly (HttpError 501 ''this store driver cannot list traces; every record still carries its trace id'')
   | Some traces \<Rightarrow>
       (let limit = atoi_lenient (url_query r ''limit'')
        in or_error (traces
             \<lparr>tf_Since = window_start env r an_hour, tf_ErrorsOnly = truthy (url_query r ''errors''),
              tf_Service = url_query r ''service'', tf_Search = url_query r ''q'',
              tf_Labels = labelFilters (fst (ParseQuery (req_RawQuery r))),
              tf_Limit = (if limit \<le> 0 \<or> limit > 500 then 100 else limit),
              tf_Offset = atoi_lenient (url_query r ''offset'')\<rparr>)
           (\<lambda>tn. quietly (Reply 200 tn))))"

definition querySpans ::
    "(string \<Rightarrow> rat) \<Rightarrow> span_reader option \<Rightarrow> query_env \<Rightarrow> http_request \<Rightarrow> (span list \<times> int) answer" where
  "querySpans parse_float spans env r = (case spans of
     None \<Rightarrow> quietly (HttpError 501 ''inner spans are not configured'')
   | Some sp \<Rightarrow>
       (let limit = atoi_lenient (url_query r ''limit'')
        in or_error (sp_Query sp
             \<lparr>sf_TraceID = url_query r ''trace'', sf_SpanID = url_query r ''span'', sf_ParentSpanID = url_query r ''parent'',
              sf_Service = url_query r ''service'', sf_Kind = url_query r ''kind'',
              sf_MinDurationMS = parse_float (url_query r ''min_ms''), sf_ErrorsOnly = truthy (url_query r ''errors''),
              sf_Since = since_window env r, sf_Until = 0, sf_Search = url_query r ''q'',
              sf_Limit = (if limit \<le> 0 \<or> limit > 2000 then 500 else limit),
              sf_Offset = atoi_lenient (url_query r ''offset'')\<rparr>)
           (\<lambda>sn. quietly (Reply 200 sn))))"

definition spanStats :: "span_reader option \<Rightarrow> query_env \<Rightarrow> http_request \<Rightarrow> span_summary answer" where
  "spanStats spans env r = (case spans of
     None \<Rightarrow> quietly (Reply 200 \<lparr>ssm_Total = 0, ssm_ByKind = [], ssm_ByService = [], ssm_RequestsWithSpans = 0, ssm_Errors = 0\<rparr>)
   | Some sp \<Rightarrow> or_error (sp_Stats sp (window_start env r an_hour)) (\<lambda>x. quietly (Reply 200 x)))"

definition spanBreakdown :: "span_reader option \<Rightarrow> query_env \<Rightarrow> http_request \<Rightarrow> (span_breakdown list \<times> string) answer" where
  "spanBreakdown spans env r = (case spans of
     None \<Rightarrow> quietly (Reply 200 ([], []))
   | Some sp \<Rightarrow> or_error (sp_Breakdown sp (window_start env r an_hour) (url_query r ''route'')
         (atoi_lenient (url_query r ''limit'')))
       (\<lambda>rows. quietly (Reply 200 (rows, url_query r ''route''))))"

definition appLogStats :: "app_log_reader option \<Rightarrow> query_env \<Rightarrow> http_request \<Rightarrow> app_log_summary answer" where
  "appLogStats logs env r = (case logs of
     None \<Rightarrow> quietly (Reply 200 \<lparr>als_Total = 0, als_ByLevel = [], als_ByService = [], als_SpansWithLogs = 0\<rparr>)
   | Some al \<Rightarrow> or_error (al_Stats al (window_start env r an_hour)) (\<lambda>x. quietly (Reply 200 x)))"

subsection \<open>A download is complete\<close>

definition mem_reader :: "memstore \<Rightarrow> log_filter \<Rightarrow> string + (http_record list \<times> int)" where
  "mem_reader s f = (case mem_Query f s of None \<Rightarrow> Inl ''panic'' | Some x \<Rightarrow> Inr x)"

lemma mem_reader_page:
  assumes "f_Limit f = 500"
  shows "\<exists>n. mem_reader s (f\<lparr>f_Offset := int k\<rparr>) = Inr (take 500 (drop k (filter (\<lambda>r. mem_matches r f) (rev (ms_recs s)))), n)"
proof -
  have "mem_matches r (f\<lparr>f_Offset := int k\<rparr>) = mem_matches r f" for r
    by (simp add: mem_matches_def)
  moreover have "page_limit (f\<lparr>f_Offset := int k\<rparr>) = 500"
    using assms by (simp add: page_limit_def)
  ultimately show ?thesis
    using mem_Query_page [of "f\<lparr>f_Offset := int k\<rparr>" s] by (simp add: mem_reader_def)
qed

lemma export_pages_from:
  assumes "f_Limit f = 500" and "hits = filter (\<lambda>r. mem_matches r f) (rev (ms_recs s))" and "length hits < k + n"
    and "k \<le> length hits"
  shows "\<exists>pages. export_pages n (mem_reader s) f (int k) = Some pages \<and> concat pages = drop k hits \<and>
    (\<forall>p \<in> set pages. length p \<le> 500)"
  using assms(3,4)
proof (induction n arbitrary: k)
  case 0
  then show ?case by simp
next
  case (Suc n)
  obtain m where page: "mem_reader s (f\<lparr>f_Offset := int k\<rparr>) = Inr (take 500 (drop k hits), m)"
    using mem_reader_page [OF assms(1)] assms(2) by blast
  show ?case
  proof (cases "length (drop k hits) < 500")
    case True
    then show ?thesis
      using page assms(1) by auto
  next
    case False
    then have "length hits < (k + 500) + n" "k + 500 \<le> length hits"
      using Suc.prems by simp_all
    from Suc.IH [OF this] obtain pages where "export_pages n (mem_reader s) f (int (k + 500)) = Some pages"
        "concat pages = drop (k + 500) hits" "\<forall>p \<in> set pages. length p \<le> 500"
      by blast
    moreover have "take 500 (drop k hits) \<noteq> []" "length (take 500 (drop k hits)) = 500"
      using False by auto
    moreover have "take 500 (drop k hits) @ drop (k + 500) hits = drop k hits"
      by (metis append_take_drop_id drop_drop add.commute)
    ultimately show ?thesis
      using page assms(1) by (simp add: add.commute)
  qed
qed


definition sample_env_query :: query_env where
  "sample_env_query = \<lparr>qe_now = 9000000, qe_duration = (\<lambda>_. None), qe_rfc3339 = (\<lambda>_. None)\<rparr>"

definition reader_of :: "memstore \<Rightarrow> log_reader" where
  "reader_of s = \<lparr>rd_Query = mem_reader s, rd_Get = (\<lambda>i. mem_Get i s),
     rd_Stats = (\<lambda>t b. case mem_Stats t b s of None \<Rightarrow> Inl ''panic'' | Some st \<Rightarrow> Inr st),
     rd_RouteStats = (\<lambda>t. Inr (mem_RouteStats t s)), rd_RuleMatchCounts = (\<lambda>t ns. Inr (mem_RuleMatchCounts t ns s)),
     rd_Count = Inr (mem_Count s), rd_Recent = (\<lambda>t n. Inr (mem_Recent s t n)),
     rd_ServiceStats = (\<lambda>t. Inr (mem_ServiceStats t s)), rd_UsageByLabel = (\<lambda>t l. Inr (mem_UsageByLabel t l s)),
     rd_Traces = None\<rparr>"


text \<open>
  The pages are counted from the newest record, so a record that arrives between two pages makes the
  second page repeat the end of the first.
\<close>

lemma paging_repeats:
  "map hr_ID (fst (the (mem_Query (at_page any_record 0) two_tenants))) =
   map hr_ID (fst (the (mem_Query (at_page any_record 1) (mem_Save (stored_record 9000000 ''x'' 200 1) two_tenants))))"
  by code_simp

text \<open>A negative offset in the query string reaches the driver as it is.\<close>

lemma negative_offset_passed_on:
  "f_Offset (filterFromQuery sample_env_query
     \<lparr>req_Method = ''GET'', req_Path = ''/api/logs'', req_RawQuery = ''offset=-1'', req_Header = [],
      req_RemoteAddr = [], req_ContentLength = 0\<rparr>) = -1"
  by code_simp

subsection \<open>Costs add up\<close>

lemma sum_store_new: "lookup m k = None \<Longrightarrow> sum_list (map snd (store k v m)) = sum_list (map snd m) + (v :: rat)"
  by (induction m) (auto simp: store_def split: if_splits)

definition balanced :: "rat gomap \<times> rat \<Rightarrow> bool" where
  "balanced acc \<longleftrightarrow> sum_list (map snd (fst acc)) = snd acc"

lemma price_component_balanced:
  assumes "balanced acc" and "lookup (fst acc) name = None"
  shows "balanced (price_component name amount price acc)"
    and "k \<noteq> name \<Longrightarrow> lookup (fst (price_component name amount price acc)) k = lookup (fst acc) k"
  using assms by (simp_all add: price_component_def balanced_def sum_store_new)

lemma price_meters_balanced:
  assumes "balanced acc" and "distinct (keys ps)" and "\<forall>k \<in> fst ` set ps. lookup (fst acc) k = None"
    and "k \<notin> fst ` set ps"
  shows "balanced (fold (price_meter ms) ps acc) \<and> lookup (fst (fold (price_meter ms) ps acc)) k = lookup (fst acc) k"
  using assms
proof (induction ps arbitrary: acc)
  case (Cons p ps)
  let ?acc = "price_meter ms p acc"
  have step: "balanced ?acc" "j \<noteq> fst p \<Longrightarrow> lookup (fst ?acc) j = lookup (fst acc) j" for j
    using price_component_balanced [OF Cons.prems(1), of "fst p"] Cons.prems(3)
    by (auto simp: price_meter_def Cons.prems(1) split: option.split)
  have "\<forall>j \<in> fst ` set ps. lookup (fst ?acc) j = None"
    using step(2) Cons.prems(2,3) by (metis distinct.simps(2) image_eqI imageE list.set_intros(2) list.set_map list.simps(9))
  with Cons.IH [of ?acc] step Cons.prems(2,4) show ?case by simp
qed simp

text \<open>
  The total of a consumer is the sum of its components, as long as no meter is called like one of the
  fixed components.
\<close>

theorem cost_adds_up:
  assumes "distinct (keys (pr_PerMeterUnit p))"
    and "\<forall>k \<in> fst ` set (pr_PerMeterUnit p). k \<notin> {''requests'', ''data'', ''total''}"
  shows "lookup (usage_cost p u) ''total'' =
    Some (sum_list (map snd (filter (\<lambda>c. fst c \<noteq> ''total'') (usage_cost p u))))"
proof -
  let ?a1 = "price_component ''requests'' (of_int (cu_Requests u)) (pr_PerRequest p) ([], 0)"
  let ?a2 = "price_component ''data'' (of_int (cu_ReqBytes u + cu_RespBytes u) / 2 ^ 30) (pr_PerGB p) ?a1"
  let ?a3 = "fold (price_meter (cu_Meters u)) (pr_PerMeterUnit p) ?a2"
  have b0: "balanced ([], 0)"
    by (simp add: balanced_def)
  have b1: "balanced ?a1"
    by (rule price_component_balanced(1) [OF b0]) simp
  have l1: "k \<noteq> ''requests'' \<Longrightarrow> lookup (fst ?a1) k = None" for k
    by (simp add: price_component_def)
  have b2: "balanced ?a2"
    by (rule price_component_balanced(1) [OF b1]) (simp add: l1)
  have l2: "lookup (fst ?a2) k = None" if "k \<notin> {''requests'', ''data''}" for k
    using that l1 [of k] price_component_balanced(2) [OF b1, of "''data''" k] l1 [of "''data''"] by simp
  have "\<forall>k \<in> fst ` set (pr_PerMeterUnit p). lookup (fst ?a2) k = None"
  proof
    fix k assume "k \<in> fst ` set (pr_PerMeterUnit p)"
    with assms(2) have "k \<notin> {''requests'', ''data''}" by auto
    then show "lookup (fst ?a2) k = None" by (rule l2)
  qed
  moreover have "''total'' \<notin> fst ` set (pr_PerMeterUnit p)"
    using assms(2) by auto
  ultimately have b3: "balanced ?a3" and "lookup (fst ?a3) ''total'' = lookup (fst ?a2) ''total''"
    using price_meters_balanced [OF b2 assms(1)] by blast+
  moreover have "lookup (fst ?a2) ''total'' = None"
    by (rule l2) simp
  ultimately have l3: "lookup (fst ?a3) ''total'' = None"
    by (simp only:)
  have "filter (\<lambda>c. fst c \<noteq> ''total'') (store ''total'' x m) = m" if "lookup m ''total'' = None" for x :: rat and m
    using that by (induction m) (auto simp: store_def split: if_splits)
  from this [OF l3] show ?thesis
    using b3 by (simp add: usage_cost_def Let_def balanced_def)
qed

definition sample_prices :: prices where
  "sample_prices = \<lparr>pr_PerRequest = 1 / 1000, pr_PerGB = 2, pr_PerMeterUnit = [(''tokens'', 1 / 100)]\<rparr>"

definition sample_usage :: consumer_usage where
  "sample_usage = \<lparr>cu_Consumer = ''acme'', cu_Requests = 500, cu_Errors = 0, cu_ReqBytes = 2 ^ 30, cu_RespBytes = 0,
     cu_DurationMS = 0, cu_Meters = [(''tokens'', 300)]\<rparr>"

theorem cost_adds_up_witness:
  "lookup (usage_cost sample_prices sample_usage) ''total'' =
     Some (sum_list (map snd (filter (\<lambda>c. fst c \<noteq> ''total'') (usage_cost sample_prices sample_usage))))"
  by (rule cost_adds_up) (simp_all add: sample_prices_def)

text \<open>A meter called \<open>requests\<close> overwrites the component of the requests, whose price stays in the total.\<close>

lemma meter_overwrites_component:
  "lookup (usage_cost (sample_prices\<lparr>pr_PerMeterUnit := [(''requests'', 1)]\<rparr>) (sample_usage\<lparr>cu_Meters := [(''requests'', 7)]\<rparr>)) ''requests''
     = Some 7 \<and>
   lookup (usage_cost (sample_prices\<lparr>pr_PerMeterUnit := [(''requests'', 1)]\<rparr>) (sample_usage\<lparr>cu_Meters := [(''requests'', 7)]\<rparr>)) ''total''
     = Some (19 / 2)"
  by (simp add: usage_cost_def price_component_def price_meter_def sample_prices_def sample_usage_def store_def Let_def)

end
