(* ===== verification/Metrics.thy ===== *)
theory Metrics
  imports Complex_Main Prelude
begin

text \<open>
  The metrics collector (\<open>internal/metrics/metrics.go\<close>): which series an observation touches, the guard on
  the values of custom labels, and the rebuild when the label schema changes.  A vector of the metrics
  client is a map from label values to what was recorded under them.
\<close>

record metric_observation =
  ob_Service :: string
  ob_Method :: string
  ob_Route :: string
  ob_Status :: int
  ob_Seconds :: rat
  ob_ReqBytes :: int
  ob_RespBytes :: int
  ob_Labels :: "string gomap"
  ob_Stream :: bool

definition OverLimit :: string where "OverLimit = ''__over_limit__''"

type_synonym 'v vec = "(string list \<times> 'v) list"

definition vec_inc :: "string list \<Rightarrow> int \<Rightarrow> int vec \<Rightarrow> int vec" where
  "vec_inc ls n v = AList.update ls ((case map_of v ls of None \<Rightarrow> 0 | Some x \<Rightarrow> x) + n) v"

definition vec_observe :: "string list \<Rightarrow> rat \<Rightarrow> rat list vec \<Rightarrow> rat list vec" where
  "vec_observe ls x v = AList.update ls ((case map_of v ls of None \<Rightarrow> [] | Some xs \<Rightarrow> xs) @ [x]) v"

definition vec_set :: "string list \<Rightarrow> int \<Rightarrow> int vec \<Rightarrow> int vec" where
  "vec_set ls n v = AList.update ls n v"

record dimensions =
  di_keys :: "string list"
  di_requests :: "int vec"
  di_duration :: "rat list vec"

record metrics_collector =
  mc_service :: string
  mc_maxLabelValues :: int
  mc_seen :: "goset gomap"
  mc_dims :: dimensions
  mc_reqSize :: "rat list vec"
  mc_respSize :: "rat list vec"
  mc_streams :: "int vec"
  mc_streamDuration :: "rat list vec"
  mc_streamsOpen :: int
  mc_inflight :: int
  mc_dropped :: int
  mc_ingested :: int
  mc_appLogsStored :: int
  mc_appLogsDropped :: "int vec"
  mc_spansStored :: int
  mc_spansDropped :: "int vec"
  mc_spanDuration :: "rat list vec"
  mc_exported :: "int vec"
  mc_exportFailed :: "int vec"
  mc_exportDrops :: "int vec"
  mc_labelCapped :: "int vec"
  mc_labelDistinct :: "int vec"

definition newDimensions :: "string list \<Rightarrow> dimensions" where
  "newDimensions ks = \<lparr>di_keys = ks, di_requests = [], di_duration = []\<rparr>"

definition metrics_New :: "string \<Rightarrow> string list \<Rightarrow> int \<Rightarrow> metrics_collector" where
  "metrics_New service customKeys maxLabelValues =
     \<lparr>mc_service = service, mc_maxLabelValues = maxLabelValues, mc_seen = [], mc_dims = newDimensions customKeys,
      mc_reqSize = [], mc_respSize = [], mc_streams = [], mc_streamDuration = [], mc_streamsOpen = 0,
      mc_inflight = 0, mc_dropped = 0, mc_ingested = 0, mc_appLogsStored = 0, mc_appLogsDropped = [],
      mc_spansStored = 0, mc_spansDropped = [], mc_spanDuration = [], mc_exported = [], mc_exportFailed = [],
      mc_exportDrops = [], mc_labelCapped = [], mc_labelDistinct = []\<rparr>"

definition statusClass :: "int \<Rightarrow> string" where
  "statusClass code = (if code \<ge> 500 then ''5xx'' else if code \<ge> 400 then ''4xx'' else if code \<ge> 300 then ''3xx''
     else if code \<ge> 200 then ''2xx'' else ''1xx'')"

definition seen_values :: "goset gomap \<Rightarrow> string \<Rightarrow> goset" where
  "seen_values m k = (case lookup m k of None \<Rightarrow> [] | Some vs \<Rightarrow> vs)"

definition metrics_guard :: "string \<Rightarrow> string \<Rightarrow> metrics_collector \<Rightarrow> string \<times> metrics_collector" where
  "metrics_guard key v c =
     (if mc_maxLabelValues c \<le> 0 \<or> v = [] then (v, c)
      else (let vals = seen_values (mc_seen c) key
            in if v \<in> set vals then (v, c)
               else if int (length vals) \<ge> mc_maxLabelValues c then
                 (OverLimit, c\<lparr>mc_labelCapped := vec_inc [key] 1 (mc_labelCapped c)\<rparr>)
               else (v, c\<lparr>mc_seen := store key (v # vals) (mc_seen c),
                     mc_labelDistinct := vec_set [key] (int (length vals) + 1) (mc_labelDistinct c)\<rparr>)))"

fun guard_all :: "string list \<Rightarrow> string gomap \<Rightarrow> metrics_collector \<Rightarrow> string list \<times> metrics_collector" where
  "guard_all [] labels c = ([], c)"
| "guard_all (k # ks) labels c =
     (case metrics_guard k (case lookup labels k of None \<Rightarrow> [] | Some v \<Rightarrow> v) c of
        (v, c') \<Rightarrow> (case guard_all ks labels c' of (vs, c'') \<Rightarrow> (v # vs, c'')))"

definition counter_labels :: "metrics_collector \<Rightarrow> metric_observation \<Rightarrow> string list" where
  "counter_labels c ob = [if ob_Service ob = [] then mc_service c else ob_Service ob, ob_Method ob, ob_Route ob,
     itoa (ob_Status ob), statusClass (ob_Status ob)]"

definition metrics_Observe :: "metric_observation \<Rightarrow> metrics_collector \<Rightarrow> metrics_collector" where
  "metrics_Observe ob c0 =
     (case guard_all (di_keys (mc_dims c0)) (ob_Labels ob) c0 of (custom, c) \<Rightarrow>
       (let d = mc_dims c; mr = [ob_Method ob, ob_Route ob];
            d1 = d\<lparr>di_requests := vec_inc (counter_labels c ob @ custom) 1 (di_requests d)\<rparr>;
            c1 = (if ob_Stream ob
                  then c\<lparr>mc_dims := d1, mc_streams := vec_inc mr 1 (mc_streams c),
                         mc_streamDuration := vec_observe mr (ob_Seconds ob) (mc_streamDuration c)\<rparr>
                  else c\<lparr>mc_dims := d1\<lparr>di_duration :=
                         vec_observe (take 3 (counter_labels c ob) @ custom) (ob_Seconds ob) (di_duration d1)\<rparr>\<rparr>);
            c2 = (if ob_ReqBytes ob > 0
                  then c1\<lparr>mc_reqSize := vec_observe mr (of_int (ob_ReqBytes ob)) (mc_reqSize c1)\<rparr> else c1)
        in if ob_RespBytes ob > 0
           then c2\<lparr>mc_respSize := vec_observe mr (of_int (ob_RespBytes ob)) (mc_respSize c2)\<rparr> else c2))"

definition metrics_LabelKeys :: "metrics_collector \<Rightarrow> string list" where
  "metrics_LabelKeys c = di_keys (mc_dims c)"

definition SetLabelKeys :: "string list \<Rightarrow> metrics_collector \<Rightarrow> metrics_collector \<times> bool" where
  "SetLabelKeys ks c = (if di_keys (mc_dims c) = ks then (c, False)
     else (c\<lparr>mc_dims := newDimensions ks, mc_seen := []\<rparr>, True))"

definition InflightInc :: "metrics_collector \<Rightarrow> metrics_collector" where
  "InflightInc c = c\<lparr>mc_inflight := mc_inflight c + 1\<rparr>"
definition InflightDec :: "metrics_collector \<Rightarrow> metrics_collector" where
  "InflightDec c = c\<lparr>mc_inflight := mc_inflight c - 1\<rparr>"
definition StreamOpened :: "metrics_collector \<Rightarrow> metrics_collector" where
  "StreamOpened c = c\<lparr>mc_streamsOpen := mc_streamsOpen c + 1\<rparr>"
definition StreamClosed :: "metrics_collector \<Rightarrow> metrics_collector" where
  "StreamClosed c = c\<lparr>mc_streamsOpen := mc_streamsOpen c - 1\<rparr>"
definition StoreDropped :: "metrics_collector \<Rightarrow> metrics_collector" where
  "StoreDropped c = c\<lparr>mc_dropped := mc_dropped c + 1\<rparr>"
definition SDKIngested :: "metrics_collector \<Rightarrow> metrics_collector" where
  "SDKIngested c = c\<lparr>mc_ingested := mc_ingested c + 1\<rparr>"
definition AppLogStored :: "int \<Rightarrow> metrics_collector \<Rightarrow> metrics_collector" where
  "AppLogStored n c = (if n > 0 then c\<lparr>mc_appLogsStored := mc_appLogsStored c + n\<rparr> else c)"
definition AppLogDropped :: "string \<Rightarrow> int \<Rightarrow> metrics_collector \<Rightarrow> metrics_collector" where
  "AppLogDropped reason n c = (if n > 0 then c\<lparr>mc_appLogsDropped := vec_inc [reason] n (mc_appLogsDropped c)\<rparr> else c)"
definition SpansStored :: "int \<Rightarrow> metrics_collector \<Rightarrow> metrics_collector" where
  "SpansStored n c = (if n > 0 then c\<lparr>mc_spansStored := mc_spansStored c + n\<rparr> else c)"
definition SpansDropped :: "string \<Rightarrow> int \<Rightarrow> metrics_collector \<Rightarrow> metrics_collector" where
  "SpansDropped reason n c = (if n > 0 then c\<lparr>mc_spansDropped := vec_inc [reason] n (mc_spansDropped c)\<rparr> else c)"
definition SpanObserved :: "string \<Rightarrow> string \<Rightarrow> string \<Rightarrow> rat \<Rightarrow> metrics_collector \<Rightarrow> metrics_collector" where
  "SpanObserved name kind service seconds c = c\<lparr>mc_spanDuration :=
     vec_observe [name, if kind = [] then ''unspecified'' else kind, service] seconds (mc_spanDuration c)\<rparr>"
definition ExportDelivered :: "string \<Rightarrow> int \<Rightarrow> metrics_collector \<Rightarrow> metrics_collector" where
  "ExportDelivered ex n c = c\<lparr>mc_exported := vec_inc [ex] n (mc_exported c)\<rparr>"
definition ExportFailed :: "string \<Rightarrow> int \<Rightarrow> metrics_collector \<Rightarrow> metrics_collector" where
  "ExportFailed ex n c = c\<lparr>mc_exportFailed := vec_inc [ex] n (mc_exportFailed c)\<rparr>"
definition ExportDropped :: "string \<Rightarrow> metrics_collector \<Rightarrow> metrics_collector" where
  "ExportDropped ex c = c\<lparr>mc_exportDrops := vec_inc [ex] 1 (mc_exportDrops c)\<rparr>"

text \<open>A scrape gathers the fixed vectors and the two of the current schema.\<close>

definition scraped_requests :: "metrics_collector \<Rightarrow> int vec" where
  "scraped_requests c = di_requests (mc_dims c)"

subsection \<open>The value guard\<close>

definition within_cap :: "metrics_collector \<Rightarrow> bool" where
  "within_cap c \<longleftrightarrow> (\<forall>k. int (length (seen_values (mc_seen c) k)) \<le> mc_maxLabelValues c)"

definition counted_value :: "metrics_collector \<Rightarrow> string \<Rightarrow> string \<Rightarrow> bool" where
  "counted_value c k v \<longleftrightarrow> v = [] \<or> v = OverLimit \<or> v \<in> set (seen_values (mc_seen c) k)"

definition series_counted :: "metrics_collector \<Rightarrow> bool" where
  "series_counted c \<longleftrightarrow> (\<forall>ls \<in> fst ` set (di_requests (mc_dims c)).
     list_all2 (counted_value c) (di_keys (mc_dims c)) (drop 5 ls))"

definition seen_grows :: "metrics_collector \<Rightarrow> metrics_collector \<Rightarrow> bool" where
  "seen_grows c c' \<longleftrightarrow> (\<forall>k. set (seen_values (mc_seen c) k) \<subseteq> set (seen_values (mc_seen c') k))"

lemma counted_grows: "seen_grows c c' \<Longrightarrow> counted_value c k v \<Longrightarrow> counted_value c' k v"
  by (auto simp: seen_grows_def counted_value_def)

lemma metrics_guard_step:
  assumes "metrics_guard k v c = (w, c')" and "0 < mc_maxLabelValues c" and "within_cap c"
  shows "within_cap c'" and "counted_value c' k w" and "seen_grows c c'" and "mc_dims c' = mc_dims c"
    and "mc_maxLabelValues c' = mc_maxLabelValues c" and "mc_service c' = mc_service c"
proof -
  have old: "int (length (seen_values (mc_seen c) j)) \<le> mc_maxLabelValues c" for j
    using assms(3) by (simp add: within_cap_def)
  show "within_cap c'" "counted_value c' k w" "seen_grows c c'"
    using assms(1,2) old
    by (auto simp: metrics_guard_def within_cap_def counted_value_def seen_grows_def seen_values_def Let_def
        split: if_splits)
  show "mc_dims c' = mc_dims c" "mc_maxLabelValues c' = mc_maxLabelValues c" "mc_service c' = mc_service c"
    using assms(1) by (auto simp: metrics_guard_def Let_def split: if_splits)
qed

lemma guard_all_step:
  assumes "guard_all ks ls c = (vs, c')" and "0 < mc_maxLabelValues c" and "within_cap c"
  shows "within_cap c' \<and> list_all2 (counted_value c') ks vs \<and> seen_grows c c' \<and> mc_dims c' = mc_dims c \<and>
    mc_maxLabelValues c' = mc_maxLabelValues c \<and> mc_service c' = mc_service c"
  using assms
proof (induction ks arbitrary: c vs)
  case Nil
  then show ?case by (simp add: seen_grows_def)
next
  case (Cons k ks)
  obtain v c1 where g: "metrics_guard k (case lookup ls k of None \<Rightarrow> [] | Some v \<Rightarrow> v) c = (v, c1)"
    by (cases "metrics_guard k (case lookup ls k of None \<Rightarrow> [] | Some v \<Rightarrow> v) c")
  obtain ws where r: "guard_all ks ls c1 = (ws, c')" "vs = v # ws"
    using Cons.prems(1) g by (auto split: prod.splits)
  note step = metrics_guard_step [OF g Cons.prems(2,3)]
  have ih: "within_cap c' \<and> list_all2 (counted_value c') ks ws \<and> seen_grows c1 c' \<and> mc_dims c' = mc_dims c1 \<and>
      mc_maxLabelValues c' = mc_maxLabelValues c1 \<and> mc_service c' = mc_service c1"
    using Cons.IH [OF r(1)] step Cons.prems(2) by simp
  then have "counted_value c' k v"
    using counted_grows step(2) by blast
  moreover have "seen_grows c c'"
    using ih step(3) unfolding seen_grows_def by blast
  ultimately show ?case
    using ih r step by simp
qed

lemma fst_update: "fst ` set (AList.update k v al) = insert k (fst ` set al)"
  by (simp add: dom_update)

lemma Observe_fields:
  assumes "guard_all (di_keys (mc_dims c)) (ob_Labels ob) c = (custom, c1)"
  shows "mc_seen (metrics_Observe ob c) = mc_seen c1"
    and "mc_maxLabelValues (metrics_Observe ob c) = mc_maxLabelValues c1"
    and "di_keys (mc_dims (metrics_Observe ob c)) = di_keys (mc_dims c1)"
    and "di_requests (mc_dims (metrics_Observe ob c)) = vec_inc (counter_labels c1 ob @ custom) 1 (di_requests (mc_dims c1))"
  using assms by (simp_all add: metrics_Observe_def Let_def)

datatype metrics_event = Observed metric_observation | Rekeyed "string list"

fun metrics_step :: "metrics_event \<Rightarrow> metrics_collector \<Rightarrow> metrics_collector" where
  "metrics_step (Observed ob) c = metrics_Observe ob c"
| "metrics_step (Rekeyed ks) c = fst (SetLabelKeys ks c)"

definition metrics_inv :: "metrics_collector \<Rightarrow> bool" where
  "metrics_inv c \<longleftrightarrow> 0 < mc_maxLabelValues c \<and> within_cap c \<and> series_counted c"

lemma metrics_inv_New: "0 < n \<Longrightarrow> metrics_inv (metrics_New s ks n)"
  by (simp add: metrics_inv_def metrics_New_def within_cap_def seen_values_def series_counted_def newDimensions_def)

lemma metrics_inv_step:
  assumes "metrics_inv c"
  shows "metrics_inv (metrics_step e c)"
proof (cases e)
  case (Observed ob)
  obtain custom c1 where g: "guard_all (di_keys (mc_dims c)) (ob_Labels ob) c = (custom, c1)"
    by (cases "guard_all (di_keys (mc_dims c)) (ob_Labels ob) c")
  have step: "within_cap c1" "list_all2 (counted_value c1) (di_keys (mc_dims c)) custom" "seen_grows c c1"
      "mc_dims c1 = mc_dims c" "mc_maxLabelValues c1 = mc_maxLabelValues c"
    using guard_all_step [OF g] assms by (simp_all add: metrics_inv_def)
  note fields = Observe_fields [OF g]
  have same: "counted_value (metrics_Observe ob c) = counted_value c1"
    by (simp add: counted_value_def fun_eq_iff fields)
  have "list_all2 (counted_value c1) (di_keys (mc_dims c)) (drop 5 ls)"
    if "ls \<in> fst ` set (di_requests (mc_dims c))" for ls
  proof -
    have "list_all2 (counted_value c) (di_keys (mc_dims c)) (drop 5 ls)"
      using that assms by (auto simp: metrics_inv_def series_counted_def)
    then show ?thesis
      by (rule list_all2_mono) (rule counted_grows [OF step(3)])
  qed
  then have "series_counted (metrics_Observe ob c)"
    using step(2,4) by (auto simp: series_counted_def fields same vec_inc_def fst_update counter_labels_def)
  then show ?thesis
    using Observed step assms by (simp add: metrics_inv_def within_cap_def fields)
next
  case (Rekeyed ks)
  show ?thesis
  proof (cases "di_keys (mc_dims c) = ks")
    case True
    then show ?thesis using assms Rekeyed by (simp add: SetLabelKeys_def)
  next
    case False
    then show ?thesis
      using assms Rekeyed
      by (simp add: metrics_inv_def SetLabelKeys_def within_cap_def seen_values_def series_counted_def newDimensions_def)
  qed
qed

lemma metrics_inv_run: "metrics_inv c \<Longrightarrow> metrics_inv (fold metrics_step es c)"
  by (induction es arbitrary: c) (simp_all add: metrics_inv_step)

text \<open>
  C19. However many values requests bring, and whatever schemas reloads install, a custom label of the
  request counter never has more than the configured number of values, the empty value and the
  over-limit value.
\<close>

theorem label_values_bounded:
  assumes "0 < n" and "c = fold metrics_step es (metrics_New service ks n)" and "i < length (metrics_LabelKeys c)"
  shows "int (card ((\<lambda>ls. ls ! (5 + i)) ` fst ` set (scraped_requests c))) \<le> n + 2"
proof -
  have inv: "metrics_inv c"
    unfolding assms(2) by (intro metrics_inv_run metrics_inv_New assms(1))
  have cap: "mc_maxLabelValues (fold metrics_step es d) = mc_maxLabelValues d" if "metrics_inv d" for d
    using that
  proof (induction es arbitrary: d)
    case (Cons e es)
    have "mc_maxLabelValues (metrics_step e d) = mc_maxLabelValues d"
    proof (cases e)
      case (Observed ob)
      obtain custom c1 where g: "guard_all (di_keys (mc_dims d)) (ob_Labels ob) d = (custom, c1)"
        by (cases "guard_all (di_keys (mc_dims d)) (ob_Labels ob) d")
      from guard_all_step [OF g] Cons.prems show ?thesis
        by (simp add: Observed Observe_fields [OF g] metrics_inv_def)
    qed (simp add: SetLabelKeys_def)
    then show ?case
      using Cons metrics_inv_step by simp
  qed simp
  have max: "mc_maxLabelValues c = n"
    unfolding assms(2) using cap [OF metrics_inv_New [OF assms(1)]] by (simp add: metrics_New_def)
  let ?k = "metrics_LabelKeys c ! i"
  let ?S = "insert [] (insert OverLimit (set (seen_values (mc_seen c) ?k)))"
  have "ls ! (5 + i) \<in> ?S" if "ls \<in> fst ` set (scraped_requests c)" for ls
  proof -
    have rel: "list_all2 (counted_value c) (di_keys (mc_dims c)) (drop 5 ls)"
      using inv that by (auto simp: metrics_inv_def series_counted_def scraped_requests_def)
    then have "counted_value c ?k (drop 5 ls ! i)" "i < length (drop 5 ls)"
      using assms(3) by (auto simp: metrics_LabelKeys_def list_all2_conv_all_nth)
    then show ?thesis
      by (auto simp: counted_value_def)
  qed
  then have "card ((\<lambda>ls. ls ! (5 + i)) ` fst ` set (scraped_requests c)) \<le> card ?S"
    by (intro card_mono) auto
  moreover have "card ?S \<le> Suc (Suc (card (set (seen_values (mc_seen c) ?k))))"
    by (simp add: card_insert_if)
  moreover have "card (set (seen_values (mc_seen c) ?k)) \<le> length (seen_values (mc_seen c) ?k)"
    by (rule card_length)
  moreover have "int (length (seen_values (mc_seen c) ?k)) \<le> n"
    using inv max by (simp add: metrics_inv_def within_cap_def)
  ultimately show ?thesis by linarith
qed

definition tagged :: "string \<Rightarrow> metric_observation" where
  "tagged tenant = \<lparr>ob_Service = [], ob_Method = ''GET'', ob_Route = ''/api/**'', ob_Status = 200, ob_Seconds = 1,
     ob_ReqBytes = 0, ob_RespBytes = 0, ob_Labels = [(''tenant'', tenant)], ob_Stream = False\<rparr>"

theorem label_values_bounded_witness:
  "card ((\<lambda>ls. ls ! 5) ` fst ` set (scraped_requests (fold metrics_step
     (map (Observed \<circ> tagged) [''a'', ''b'', ''c'', ''d'']) (metrics_New ''shop'' [''tenant''] 1)))) \<le> 3"
proof -
  let ?c = "fold metrics_step (map (Observed \<circ> tagged) [''a'', ''b'', ''c'', ''d'']) (metrics_New ''shop'' [''tenant''] 1)"
  have "0 < length (metrics_LabelKeys ?c)"
    by code_simp
  from label_values_bounded [OF _ refl this] show ?thesis
    by simp
qed

subsection \<open>What is not bounded\<close>

text \<open>
  The guard covers custom labels only: every method a client makes up is a series of its own.
\<close>

definition with_verb :: "string \<Rightarrow> metric_observation" where
  "with_verb m = (tagged [])\<lparr>ob_Method := m\<rparr>"

lemma methods_unbounded:
  "(\<lambda>ls. ls ! 1) ` fst ` set (scraped_requests (fold metrics_step (map (Observed \<circ> with_verb) ms) (metrics_New s [] n))) = set ms"
proof -
  have "(\<lambda>ls. ls ! 1) ` fst ` set (di_requests (mc_dims (fold metrics_step (map (Observed \<circ> with_verb) ms) c))) =
      (\<lambda>ls. ls ! 1) ` fst ` set (di_requests (mc_dims c)) \<union> set ms" if "di_keys (mc_dims c) = []" for c
    using that
  proof (induction ms arbitrary: c)
    case (Cons m ms)
    have "guard_all (di_keys (mc_dims c)) (ob_Labels (with_verb m)) c = ([], c)"
      using Cons.prems by simp
    note fields = Observe_fields [OF this]
    have "di_keys (mc_dims (metrics_Observe (with_verb m) c)) = []"
      using Cons.prems fields by simp
    from Cons.IH [OF this]
    have "(\<lambda>ls. ls ! 1) ` fst ` set (di_requests (mc_dims (fold metrics_step (map (Observed \<circ> with_verb) (m # ms)) c))) =
        (\<lambda>ls. ls ! 1) ` fst ` set (di_requests (mc_dims (metrics_Observe (with_verb m) c))) \<union> set ms"
      by (simp add: comp_def)
    also have "(\<lambda>ls. ls ! 1) ` fst ` set (di_requests (mc_dims (metrics_Observe (with_verb m) c))) =
        insert m ((\<lambda>ls. ls ! 1) ` fst ` set (di_requests (mc_dims c)))"
      by (simp add: fields vec_inc_def fst_update counter_labels_def) (simp add: with_verb_def)
    finally show ?case by simp
  qed simp
  from this [of "metrics_New s [] n"] show ?thesis
    by (simp add: scraped_requests_def metrics_New_def newDimensions_def)
qed

end
