(* ===== verification/AdminIngest.thy ===== *)
theory AdminIngest
  imports AdminReads Metrics
begin

text \<open>
  The handlers of the admin surface that write (\<open>internal/admin/admin.go\<close>): records, application log
  lines and inner spans pushed by SDKs and log shippers.  They return the state of what they touched;
  decoding a body is the decoder's answer, \<open>Inl\<close> its error.
\<close>

subsection \<open>Records\<close>

definition sdk_record :: "int \<Rightarrow> http_record \<Rightarrow> http_record" where
  "sdk_record now_time rec = rec\<lparr>
     hr_Time := (if hr_Time rec = 0 then now_time else hr_Time rec),
     hr_Source := (if hr_Source rec = [] \<or> hr_Source rec = ''proxy'' then ''sdk'' else hr_Source rec),
     hr_Route := (if hr_Route rec = [] then hr_Path rec else hr_Route rec),
     hr_RequestHeaders := canonicalHeaderNames (hr_RequestHeaders rec),
     hr_ResponseHeaders := canonicalHeaderNames (hr_ResponseHeaders rec)\<rparr>"

definition sdk_observation :: "http_record \<Rightarrow> metric_observation" where
  "sdk_observation rec = \<lparr>ob_Service = hr_Service rec, ob_Method = hr_Method rec, ob_Route = hr_Route rec,
     ob_Status = hr_Status rec, ob_Seconds = of_int (trunc_int (hr_DurationMS rec * 1000000)) / 1000000000,
     ob_ReqBytes = hr_ReqBytes rec, ob_RespBytes = hr_RespBytes rec, ob_Labels = hr_Labels rec, ob_Stream = False\<rparr>"

text \<open>What the handler may touch: each part is absent where it is not configured.\<close>

record ingest_state =
  is_Collector :: "metrics_collector option"
  is_Writer :: "http_record async_writer option"
  is_Dispatcher :: "(http_record, app_log) worker list option"

definition admin_ingest :: "int \<Rightarrow> string + http_record \<Rightarrow> ingest_state \<Rightarrow> unit reply \<times> ingest_state" where
  "admin_ingest now_time body st = (case body of
     Inl e \<Rightarrow> (HttpError 400 (''invalid record: '' @ e), st)
   | Inr raw \<Rightarrow>
       (let rec = sdk_record now_time raw
        in (Reply 202 (), st\<lparr>
             is_Collector := map_option (\<lambda>c. metrics_Observe (sdk_observation rec) (SDKIngested c)) (is_Collector st),
             is_Writer := map_option (async_Enqueue rec) (is_Writer st),
             is_Dispatcher := map_option (dispatcher_Enqueue rec) (is_Dispatcher st)\<rparr>)))"

subsection \<open>Application log lines\<close>

definition maxAppLogBatch :: nat where "maxAppLogBatch = 1000"

definition maxAppLogBodyBytes :: int where "maxAppLogBodyBytes = 4 * 2 ^ 20"

definition reason_name :: "log_reason \<Rightarrow> string" where
  "reason_name r = (case r of LogOrphan \<Rightarrow> ''orphan'' | LogLevel \<Rightarrow> ''level'' | LogSpanCap \<Rightarrow> ''span_cap''
     | LogDisabled \<Rightarrow> ''disabled'' | LogEmpty \<Rightarrow> ''empty'' | LogRuleDrop \<Rightarrow> ''rule_drop'')"

definition stamped_line :: "int \<Rightarrow> app_log \<Rightarrow> app_log" where
  "stamped_line now_time l = l\<lparr>l_Time := (if l_Time l = 0 then now_time else l_Time l),
     l_Source := (if l_Source l = [] then ''ingest'' else l_Source l)\<rparr>"

fun admit_lines ::
    "int \<Rightarrow> app_log list \<Rightarrow> log_governor \<times> app_log list \<times> int gomap \<Rightarrow> log_governor \<times> app_log list \<times> int gomap" where
  "admit_lines now_time [] acc = acc"
| "admit_lines now_time (l # ls) acc = (case acc of (g, kept, dropped) \<Rightarrow>
     (case log_Admit g (stamped_line now_time l) of (g', l', r) \<Rightarrow>
        admit_lines now_time ls
          (g', (case r of None \<Rightarrow> kept @ [l'] | Some _ \<Rightarrow> kept),
           (case r of None \<Rightarrow> dropped | Some reason \<Rightarrow> count_drop (reason_name reason) dropped))))"

record lines_state =
  ls_Governor :: "log_governor option"
  ls_Store :: "app_log list list option"
  ls_Collector :: "metrics_collector option"
  ls_Dispatcher :: "(http_record, app_log) worker list option"

definition log_enabled :: "log_governor option \<Rightarrow> bool" where
  "log_enabled g = (case g of None \<Rightarrow> False | Some x \<Rightarrow> lg_enabled x)"

definition count_drops :: "(string \<Rightarrow> int \<Rightarrow> metrics_collector \<Rightarrow> metrics_collector) \<Rightarrow> int gomap \<Rightarrow> metrics_collector \<Rightarrow> metrics_collector" where
  "count_drops add dropped c = fold (\<lambda>(reason, n). add reason n) dropped c"

text \<open>
  The store of lines is the list of batches it accepted; \<open>accepts\<close> is its answer to the batch.  A line
  may also come as one object, which the decoder turns into a batch of one.
\<close>

definition ingestAppLogs ::
    "int \<Rightarrow> (app_log list \<Rightarrow> bool) \<Rightarrow> string + app_log list \<Rightarrow> lines_state \<Rightarrow> (int \<times> int gomap) reply \<times> lines_state" where
  "ingestAppLogs now_time accepts body st =
     (case ls_Governor st of
        None \<Rightarrow> (HttpError 501 ''application logs are off'', st)
      | Some g \<Rightarrow>
          if \<not> lg_enabled g then (HttpError 501 ''application logs are off'', st)
          else (case ls_Store st of
             None \<Rightarrow> (HttpError 501 ''the configured store driver does not implement app-log storage'', st)
           | Some batches \<Rightarrow> (case body of
               Inl e \<Rightarrow> (HttpError 400 (''invalid log batch: '' @ e), st)
             | Inr lines \<Rightarrow>
                 if length lines > maxAppLogBatch then (HttpError 413 ''batch exceeds the limit'', st)
                 else (case admit_lines now_time lines (g, [], []) of (g', kept, dropped) \<Rightarrow>
                   (let st1 = st\<lparr>ls_Governor := Some g'\<rparr>
                    in if kept \<noteq> [] \<and> \<not> accepts kept then (HttpError 503 ''store unavailable'', st1)
                       else (Reply 202 (int (length kept), dropped), st1\<lparr>
                         ls_Store := Some (if kept = [] then batches else batches @ [kept]),
                         ls_Collector := map_option (\<lambda>c. count_drops AppLogDropped dropped
                             (AppLogStored (int (length kept)) c)) (ls_Collector st),
                         ls_Dispatcher := map_option (fold EnqueueAppLog kept) (ls_Dispatcher st)\<rparr>))))))"

subsection \<open>Inner spans\<close>

definition span_reason_name :: "span_reason \<Rightarrow> string" where
  "span_reason_name r = (case r of SpanOrphan \<Rightarrow> ''orphan'' | SpanTooFast \<Rightarrow> ''too_fast''
     | SpanRequestCap \<Rightarrow> ''request_cap'' | SpanDisabled \<Rightarrow> ''disabled'' | SpanEmpty \<Rightarrow> ''empty'')"

definition stamped_span :: "int \<Rightarrow> span \<Rightarrow> span" where
  "stamped_span now_time sp = sp\<lparr>s_Start := (if s_Start sp = 0 then now_time else s_Start sp),
     s_Source := (if s_Source sp = [] then ''ingest'' else s_Source sp)\<rparr>"

fun admit_spans ::
    "int \<Rightarrow> span list \<Rightarrow> span_governor \<times> span list \<times> int gomap \<Rightarrow> span_governor \<times> span list \<times> int gomap" where
  "admit_spans now_time [] acc = acc"
| "admit_spans now_time (sp # sps) acc = (case acc of (g, kept, dropped) \<Rightarrow>
     (case span_Admit g (stamped_span now_time sp) of (g', sp', r) \<Rightarrow>
        admit_spans now_time sps
          (g', (case r of None \<Rightarrow> kept @ [sp'] | Some _ \<Rightarrow> kept),
           (case r of None \<Rightarrow> dropped | Some reason \<Rightarrow> count_drop (span_reason_name reason) dropped))))"

record spans_state =
  ss_Governor :: "span_governor option"
  ss_Store :: "span list list option"
  ss_Collector :: "metrics_collector option"

definition ingestSpans ::
    "int \<Rightarrow> (span list \<Rightarrow> bool) \<Rightarrow> string + span list \<Rightarrow> spans_state \<Rightarrow> (int \<times> int \<times> int gomap) reply \<times> spans_state" where
  "ingestSpans now_time accepts body st =
     (case ss_Governor st of
        None \<Rightarrow> (HttpError 501 ''inner spans are not enabled'', st)
      | Some g \<Rightarrow>
          if \<not> sg_enabled g then (HttpError 501 ''inner spans are not enabled'', st)
          else (case ss_Store st of
             None \<Rightarrow> (HttpError 501 ''inner spans are enabled but this store driver cannot persist them'', st)
           | Some batches \<Rightarrow> (case body of
               Inl e \<Rightarrow> (HttpError 400 e, st)
             | Inr sps \<Rightarrow> (case admit_spans now_time sps (g, [], []) of (g', kept, dropped) \<Rightarrow>
                 (let st1 = st\<lparr>ss_Governor := Some g'\<rparr>
                  in if kept \<noteq> [] \<and> \<not> accepts kept then (HttpError 500 ''save failed'', st1)
                     else (Reply 202 (int (length kept), int (length sps) - int (length kept), dropped), st1\<lparr>
                       ss_Store := Some (if kept = [] then batches else batches @ [kept]),
                       ss_Collector := map_option (\<lambda>c. fold (\<lambda>sp. SpanObserved (s_Name sp) (s_Kind sp) (s_Service sp)
                             (s_DurationMS sp / 1000)) kept (count_drops SpansDropped dropped (SpansStored (int (length kept)) c)))
                           (ss_Collector st)\<rparr>))))))"

subsection \<open>Every line is accounted for\<close>

lemma admit_lines_accounts:
  "admit_lines t ls (g, kept, dropped) = (g', kept', dropped') \<Longrightarrow>
     int (length kept') + sum_list (map snd dropped') = int (length kept) + sum_list (map snd dropped) + int (length ls)"
proof (induction ls arbitrary: g kept dropped)
  case (Cons l ls)
  obtain g1 l1 r where step: "log_Admit g (stamped_line t l) = (g1, l1, r)"
    by (cases "log_Admit g (stamped_line t l)") auto
  show ?case
  proof (cases r)
    case None
    then show ?thesis using Cons step by fastforce
  next
    case (Some x)
    then show ?thesis
      using Cons.prems Cons.IH [of g1 kept "count_drop (reason_name x) dropped"] step by (simp add: sum_count_drop)
  qed
qed simp

lemma admit_lines_store: "admit_lines t ls (g, kept, dropped) = (g', kept', dropped') \<Longrightarrow>
    kept' = kept @ log_store g (map (stamped_line t) ls)"
proof (induction ls arbitrary: g kept dropped)
  case (Cons l ls)
  obtain g1 l1 r where step: "log_Admit g (stamped_line t l) = (g1, l1, r)"
    by (cases "log_Admit g (stamped_line t l)") auto
  show ?case
  proof (cases r)
    case None
    then show ?thesis
      using Cons.prems Cons.IH [of g1 "kept @ [l1]" dropped] step by simp
  next
    case (Some x)
    then show ?thesis
      using Cons.prems Cons.IH [of g1 kept "count_drop (reason_name x) dropped"] step by simp
  qed
qed simp

text \<open>
  C12. An accepted batch is stored as the governor passes it, in order, and every line of it is reported:
  stored or dropped under a reason.  A batch that is refused or that the store rejects stores nothing.
\<close>

theorem lines_accounted:
  assumes "ingestAppLogs t accepts (Inr lines) st = (res, st')" and "ls_Governor st = Some g" and "ls_Store st = Some batches"
  shows "case res of
    Reply code (stored, dropped) \<Rightarrow> code = 202 \<and> length lines \<le> maxAppLogBatch \<and>
      stored + sum_list (map snd dropped) = int (length lines) \<and>
      concat (the (ls_Store st')) = concat batches @ log_store g (map (stamped_line t) lines) \<and>
      stored = int (length (log_store g (map (stamped_line t) lines)))
  | HttpError code e \<Rightarrow> ls_Store st' = Some batches \<and> ls_Dispatcher st' = ls_Dispatcher st"
proof -
  obtain g' kept dropped where adm: "admit_lines t lines (g, [], []) = (g', kept, dropped)"
    by (cases "admit_lines t lines (g, [], [])") auto
  have sum: "int (length kept) + sum_list (map snd dropped) = int (length lines)"
    using admit_lines_accounts [OF adm] by simp
  have kept: "kept = log_store g (map (stamped_line t) lines)"
    using admit_lines_store [OF adm] by simp
  show ?thesis
    using assms adm sum
    by (auto simp: ingestAppLogs_def Let_def kept split: if_splits)
qed

definition lines_of :: "log_governor \<Rightarrow> lines_state" where
  "lines_of g = \<lparr>ls_Governor = Some g, ls_Store = Some [], ls_Collector = None, ls_Dispatcher = None\<rparr>"

definition answered_202 :: "(int \<times> int gomap) reply \<times> lines_state \<Rightarrow> (int \<times> int gomap) option" where
  "answered_202 rs = (case fst rs of Reply _ x \<Rightarrow> Some x | HttpError _ _ \<Rightarrow> None)"

theorem lines_accounted_witness:
  "(case fst (ingestAppLogs 1 (\<lambda>_. True) (Inr [sample_line]) (lines_of sample_governor)) of
      Reply code (stored, dropped) \<Rightarrow> stored + sum_list (map snd dropped) = 1 | HttpError _ _ \<Rightarrow> False)"
proof -
  obtain res st' where run: "ingestAppLogs 1 (\<lambda>_. True) (Inr [sample_line]) (lines_of sample_governor) = (res, st')"
    by (cases "ingestAppLogs 1 (\<lambda>_. True) (Inr [sample_line]) (lines_of sample_governor)")
  have "answered_202 (ingestAppLogs 1 (\<lambda>_. True) (Inr [sample_line]) (lines_of sample_governor)) \<noteq> None"
    by code_simp
  then obtain code x where "res = Reply code x"
    unfolding run answered_202_def by (cases res) auto
  with lines_accounted [OF run, of sample_governor "[]"] run show ?thesis
    by (cases x) (simp add: lines_of_def)
qed

text \<open>
  What an SDK pushes never passes as the interceptor's own record, is stamped with a time and a route,
  and has header names in canonical form; nothing else of it changes.
\<close>

lemma sdk_record_fields:
  assumes "now_time \<noteq> 0"
  shows "hr_Source (sdk_record now_time rec) \<notin> {[], ''proxy''} \<and> hr_Time (sdk_record now_time rec) \<noteq> 0 \<and>
    (\<forall>k \<in> fst ` set (hr_RequestHeaders (sdk_record now_time rec)). CanonicalHeaderKey k = k) \<and>
    hr_RequestBody (sdk_record now_time rec) = hr_RequestBody rec \<and> hr_Labels (sdk_record now_time rec) = hr_Labels rec"
  using assms canonical_names_canonical by (auto simp: sdk_record_def)

text \<open>A record without a route puts its raw path into the route label of the metrics.\<close>

lemma raw_path_in_metrics:
  "hr_Route rec = [] \<Longrightarrow> ob_Route (sdk_observation (sdk_record t rec)) = hr_Path rec"
  by (simp add: sdk_observation_def sdk_record_def)

lemma admit_spans_accounts:
  "admit_spans t sps (g, kept, dropped) = (g', kept', dropped') \<Longrightarrow>
     int (length kept') + sum_list (map snd dropped') = int (length kept) + sum_list (map snd dropped) + int (length sps) \<and>
     kept' = kept @ span_store g (map (stamped_span t) sps)"
proof (induction sps arbitrary: g kept dropped)
  case (Cons sp sps)
  obtain g1 sp1 r where step: "span_Admit g (stamped_span t sp) = (g1, sp1, r)"
    by (cases "span_Admit g (stamped_span t sp)") auto
  show ?case
  proof (cases r)
    case None
    then show ?thesis using Cons step by fastforce
  next
    case (Some x)
    then show ?thesis
      using Cons.prems Cons.IH [of g1 kept "count_drop (span_reason_name x) dropped"] step by (auto simp: sum_count_drop)
  qed
qed simp

lemma spans_accounted:
  assumes "ingestSpans t accepts (Inr sps) st = (Reply code (stored, gone, dropped), st')" and "ss_Governor st = Some g"
  shows "stored + gone = int (length sps) \<and> sum_list (map snd dropped) = gone \<and>
    stored = int (length (span_store g (map (stamped_span t) sps)))"
proof -
  obtain g' kept drops where adm: "admit_spans t sps (g, [], []) = (g', kept, drops)"
    by (cases "admit_spans t sps (g, [], [])") auto
  show ?thesis
    using assms adm admit_spans_accounts [OF adm]
    by (auto simp: ingestSpans_def Let_def split: if_splits option.splits)
qed

end
