(* ===== verification/RuleTest.thy ===== *)
theory RuleTest
  imports Proxy Scanner SqlText
begin

text \<open>
  Assertions on a rule set (\<open>internal/ruletest/ruletest.go\<close>): a fixture is a request with the bodies of
  both sides, and the run compares what the engine decides about it with what the fixture expects.
  Decoding the test file is the YAML package's answer.
\<close>

subsection \<open>Fixtures\<close>

text \<open>
  What yaml.v3 decodes into \<open>any\<close>: a mapping whose keys are all strings becomes a
  \<open>map[string]any\<close>, any other a \<open>map[any]any\<close>.  A key is a scalar.
\<close>

datatype yaml_key = KNil | KBool bool | KInt int | KFloat rat | KText string

datatype yaml =
    YNil
  | YBool bool
  | YNum rat
  | YStr string
  | YSeq "yaml list"
  | YMap "(string \<times> yaml) list"
  | YAnyMap "(yaml_key \<times> yaml) list"

fun sprint_key :: "yaml_key \<Rightarrow> string" where
  "sprint_key KNil = ''<nil>''"
| "sprint_key (KBool b) = (if b then ''true'' else ''false'')"
| "sprint_key (KInt i) = itoa i"
| "sprint_key (KFloat q) = format_v q"
| "sprint_key (KText s) = s"

function normalizeYAML :: "yaml \<Rightarrow> json" where
  "normalizeYAML YNil = JNull"
| "normalizeYAML (YBool b) = JBool b"
| "normalizeYAML (YNum q) = JNum q"
| "normalizeYAML (YStr s) = JStr s"
| "normalizeYAML (YSeq xs) = JArr (map normalizeYAML xs)"
| "normalizeYAML (YMap kvs) = JObj (map (\<lambda>(k, v). (k, normalizeYAML v)) kvs)"
| "normalizeYAML (YAnyMap kvs) =
     JObj (fold (\<lambda>(k, v). store k v) (map (\<lambda>(k, v). (sprint_key k, normalizeYAML v)) kvs) [])"
  by pat_completeness auto

termination
proof (relation "measure size")
  fix kvs :: "(string \<times> yaml) list" and z k v
  assume "z \<in> set kvs" and "(k, v) = z"
  then show "(v, YMap kvs) \<in> measure size"
    by (induction kvs) auto
next
  fix kvs :: "(yaml_key \<times> yaml) list" and z k v
  assume "z \<in> set kvs" and "(k, v) = z"
  then show "(v, YAnyMap kvs) \<in> measure size"
    by (induction kvs) auto
qed (auto simp: less_Suc_eq_le size_list_estimation')

text \<open>\<open>encoding/json\<close> refuses a \<open>map[any]any\<close> at any depth.\<close>

fun marshalable :: "yaml \<Rightarrow> bool" where
  "marshalable (YSeq xs) = list_all marshalable xs"
| "marshalable (YMap kvs) = list_all (\<lambda>(_, v). marshalable v) kvs"
| "marshalable (YAnyMap kvs) = False"
| "marshalable v = True"

definition json_Marshal :: "json_codec \<Rightarrow> yaml \<Rightarrow> string option" where
  "json_Marshal jc v = (if marshalable v then jc_marshal jc (normalizeYAML v) else None)"

record fixture_request =
  tq_Method :: string
  tq_Path :: string
  tq_Headers :: "string gomap"
  tq_Body :: yaml
  tq_Response :: yaml
  tq_Status :: int
  tq_TookMS :: rat

record expectation =
  xp_MatchedRules :: "string list option"
  xp_Route :: "string option"
  xp_CapturesReqBody :: "bool option"
  xp_CapturesResBody :: "bool option"
  xp_CapturesHeaders :: "bool option"
  xp_StoredReqBody :: "string option"
  xp_StoredResBody :: "string option"
  xp_RedactedHeaders :: "string list option"
  xp_Labels :: "string gomap"
  xp_Meters :: "rat gomap"
  xp_KeepsBody :: "bool option"
  xp_NotContains :: "string list"

record test_case =
  tc_Name :: string
  tc_Request :: fixture_request
  tc_Expect :: expectation

record failure =
  fl_Case :: string
  fl_Assert :: string
  fl_Want :: string
  fl_Got :: string

record test_result =
  tr_Total :: int
  tr_Passed :: int
  tr_Failures :: "failure list"

text \<open>\<open>as_list\<close> and \<open>as_wrapper\<close> are the two ways the file is decoded; \<open>None\<close> is a decoding error.\<close>

definition Load ::
    "(string \<Rightarrow> test_case list option) \<Rightarrow> (string \<Rightarrow> test_case list option) \<Rightarrow> string \<Rightarrow> string + string \<Rightarrow>
       string + test_case list" where
  "Load as_list as_wrapper path file = (case file of
     Inl e \<Rightarrow> Inl e
   | Inr raw \<Rightarrow> (case as_list raw of
       Some (c # cs) \<Rightarrow> Inr (c # cs)
     | _ \<Rightarrow> (case as_wrapper raw of
         None \<Rightarrow> Inl (''parse '' @ path)
       | Some cs \<Rightarrow> if cs = [] then Inl (path @ '' contains no test cases'') else Inr cs)))"

subsection \<open>Governed bodies\<close>

definition governedDoc :: "json_codec \<Rightarrow> yaml \<Rightarrow> policy \<Rightarrow> json option" where
  "governedDoc jc body p =
     (if body = YNil then None
      else case jc_marshal jc (normalizeYAML body) of
          None \<Rightarrow> None
        | Some raw \<Rightarrow>
            (let (red, ok) = RedactJSONBody jc p raw
             in jc_unmarshal jc (if ok then red else raw)))"

definition governBody :: "json_codec \<Rightarrow> policy \<Rightarrow> yaml \<Rightarrow> bool \<Rightarrow> string" where
  "governBody jc p body is_captured =
     (if body = YNil \<or> \<not> is_captured then []
      else case jc_marshal jc (normalizeYAML body) of
          None \<Rightarrow> []
        | Some raw \<Rightarrow> (let (red, ok) = RedactJSONBody jc p raw in if ok then red else raw))"

definition marshal_text :: "json_codec \<Rightarrow> json \<Rightarrow> string" where
  "marshal_text jc d = (case jc_marshal jc d of None \<Rightarrow> [] | Some s \<Rightarrow> s)"

definition jsonEquivalent :: "json_codec \<Rightarrow> string \<Rightarrow> string \<Rightarrow> bool" where
  "jsonEquivalent jc want got =
     (if trim_space want = trim_space got then True
      else case (jc_unmarshal jc want, jc_unmarshal jc got) of
          (Some a, Some b) \<Rightarrow> marshal_text jc a = marshal_text jc b
        | _ \<Rightarrow> False)"

subsection \<open>One case\<close>

definition path_part :: "string \<Rightarrow> string" where
  "path_part s = takeWhile (\<lambda>c. c \<noteq> CHR ''?'') s"

definition query_part :: "string \<Rightarrow> string" where
  "query_part s = tl (dropWhile (\<lambda>c. c \<noteq> CHR ''?'') s)"

definition fixture_header :: "fixture_request \<Rightarrow> header" where
  "fixture_header q = fold (\<lambda>(k, v). header_Set k v) (tq_Headers q) []"

definition case_attrs :: "fixture_request \<Rightarrow> attrs" where
  "case_attrs q =
     \<lparr>at_Method = (if to_upper (tq_Method q) = [] then ''GET'' else to_upper (tq_Method q)),
      at_Path = path_part (tq_Path q), at_Headers = Some (fixture_header q),
      at_Query = Some (fst (ParseQuery (query_part (tq_Path q)))), at_Operation = [], at_Body = JNull,
      at_BodyKnown = False\<rparr>"

text \<open>The policy of a case, and the governed request body its labels read.\<close>

definition case_policy :: "json_codec \<Rightarrow> engine \<Rightarrow> fixture_request \<Rightarrow> policy \<times> json" where
  "case_policy jc eng q =
     (let a = case_attrs q; p = evaluate eng a
      in case governedDoc jc (tq_Body q) p of
           None \<Rightarrow> (p, JNull)
         | Some doc \<Rightarrow> (evaluate eng (a\<lparr>at_Body := doc, at_BodyKnown := True\<rparr>), doc))"

definition sprint_bool :: "bool \<Rightarrow> string" where
  "sprint_bool b = (if b then ''true'' else ''false'')"

definition sprint_list :: "string list \<Rightarrow> string" where
  "sprint_list xs = ''['' @ join '' '' xs @ '']''"

definition unless_met :: "string \<Rightarrow> bool \<Rightarrow> string \<Rightarrow> string \<Rightarrow> string \<Rightarrow> failure list" where
  "unless_met name ok assert want got =
     (if ok then [] else [\<lparr>fl_Case = name, fl_Assert = assert, fl_Want = want, fl_Got = got\<rparr>])"

definition check_flag :: "string \<Rightarrow> string \<Rightarrow> bool option \<Rightarrow> bool \<Rightarrow> failure list" where
  "check_flag name label want got = (case want of None \<Rightarrow> []
     | Some w \<Rightarrow> unless_met name (w = got) label (sprint_bool w) (sprint_bool got))"

definition check_stored :: "json_codec \<Rightarrow> string \<Rightarrow> string \<Rightarrow> string option \<Rightarrow> string \<Rightarrow> failure list" where
  "check_stored jc name label want got = (case want of None \<Rightarrow> []
     | Some w \<Rightarrow> unless_met name (jsonEquivalent jc w got) label w got)"

definition check_rules :: "string \<Rightarrow> policy \<Rightarrow> string list option \<Rightarrow> failure list" where
  "check_rules name p want = (case want of None \<Rightarrow> []
     | Some ws \<Rightarrow> unless_met name (join '','' (sort ws) = join '','' (sort (pol_MatchedRules p)))
         ''matched_rules'' (sprint_list ws) (sprint_list (pol_MatchedRules p)))"

definition check_route :: "string \<Rightarrow> policy \<Rightarrow> string \<Rightarrow> string option \<Rightarrow> failure list" where
  "check_route name p path want = (case want of None \<Rightarrow> []
     | Some w \<Rightarrow> (let got = (if pol_RoutePattern p = [] then NormalizeRoute path else pol_RoutePattern p)
                  in unless_met name (got = w) ''route'' w got))"

definition check_header :: "string \<Rightarrow> policy \<Rightarrow> string gomap \<Rightarrow> string \<Rightarrow> failure list" where
  "check_header name p sanitized want =
     (let canonical = CanonicalHeaderKey want
      in if \<not> pol_CaptureHeaders p then []
         else case lookup sanitized canonical of
             None \<Rightarrow> unless_met name False ''redacted_headers'' (canonical @ '' present and masked'')
                       (canonical @ '' absent from fixture'')
           | Some got \<Rightarrow> unless_met name (got = RedactedPlaceholder) ''redacted_headers''
                       (canonical @ ''=[REDACTED]'') (canonical @ ''='' @ got))"

definition label_value :: "json_codec \<Rightarrow> policy \<Rightarrow> http_request \<Rightarrow> json \<Rightarrow> yaml \<Rightarrow> label_source \<Rightarrow> string" where
  "label_value jc p req reqBody response src =
     (if ls_Kind src = ''json'' then ValueFromBody src reqBody
      else if ls_Kind src = ''json_response'' then
        ValueFromBody src (case governedDoc jc response p of None \<Rightarrow> JNull | Some doc \<Rightarrow> doc)
      else label_Value src req)"

definition check_label :: "string \<Rightarrow> policy \<Rightarrow> (label_source \<Rightarrow> string) \<Rightarrow> string \<times> string \<Rightarrow> failure list" where
  "check_label name p read nw = (case nw of (label, want) \<Rightarrow>
     (case lookup (pol_Labels p) label of
        None \<Rightarrow> unless_met name False (''labels.'' @ label) want ''(label not defined by any matching rule)''
      | Some src \<Rightarrow> unless_met name (read src = want) (''labels.'' @ label) want (read src)))"

definition check_meter :: "string \<Rightarrow> rat gomap \<Rightarrow> string \<times> rat \<Rightarrow> failure list" where
  "check_meter name meters nw = (case nw of (meter, want) \<Rightarrow>
     (case lookup meters meter of
        None \<Rightarrow> unless_met name False (''meters.'' @ meter) (format_v want) ''(not extracted)''
      | Some got \<Rightarrow> unless_met name (got = want) (''meters.'' @ meter) (format_v want) (format_v got)))"

definition haystack :: "string \<Rightarrow> string \<Rightarrow> string gomap \<Rightarrow> string" where
  "haystack reqStored resStored sanitized =
     reqStored @ [CHR 0x00] @ resStored @ concat (map (\<lambda>(k, v). [CHR 0x00] @ k @ ''='' @ v) sanitized)"

definition check_leak :: "string \<Rightarrow> string \<Rightarrow> string \<Rightarrow> failure list" where
  "check_leak name hay needle =
     unless_met name (\<not> (needle \<noteq> [] \<and> contains hay needle)) ''not_contains'' (''absent: '' @ needle)
       ''found in governed record''"

definition runCase :: "json_codec \<Rightarrow> engine \<Rightarrow> string \<Rightarrow> test_case \<Rightarrow> failure list" where
  "runCase jc eng name c =
     (let q = tc_Request c; x = tc_Expect c; hdr = fixture_header q; path = path_part (tq_Path q);
          (p, reqBody) = case_policy jc eng q;
          reqStored = governBody jc p (tq_Body q) (pol_CaptureRequestBody p);
          resStored = governBody jc p (tq_Response q) (pol_CaptureResponseBody p);
          sanitized = (if pol_CaptureHeaders p then SanitizeHeaders p hdr else []);
          req = \<lparr>req_Method = [], req_Path = path, req_RawQuery = query_part (tq_Path q), req_Header = hdr,
                 req_RemoteAddr = [], req_ContentLength = 0\<rparr>;
          meters = (if tq_Response q = YNil then [] else case json_Marshal jc (tq_Response q) of
                      None \<Rightarrow> [] | Some raw \<Rightarrow> ExtractMeters jc p raw);
          status = (if tq_Status q = 0 then 200 else tq_Status q);
          elapsed = trunc_int (tq_TookMS q * 1000000)
      in check_rules name p (xp_MatchedRules x) @
         check_route name p path (xp_Route x) @
         check_flag name ''captures_request_body'' (xp_CapturesReqBody x) (pol_CaptureRequestBody p) @
         check_flag name ''captures_response_body'' (xp_CapturesResBody x) (pol_CaptureResponseBody p) @
         check_flag name ''captures_headers'' (xp_CapturesHeaders x) (pol_CaptureHeaders p) @
         check_stored jc name ''stored_request_body'' (xp_StoredReqBody x) reqStored @
         check_stored jc name ''stored_response_body'' (xp_StoredResBody x) resStored @
         (case xp_RedactedHeaders x of None \<Rightarrow> [] | Some hs \<Rightarrow> concat (map (check_header name p sanitized) hs)) @
         concat (map (check_label name p (label_value jc p req reqBody (tq_Response q))) (xp_Labels x)) @
         concat (map (check_meter name meters) (xp_Meters x)) @
         check_flag name ''keeps_body'' (xp_KeepsBody x) (KeepBody p False status elapsed) @
         concat (map (check_leak name (haystack reqStored resStored sanitized)) (xp_NotContains x)))"

subsection \<open>The run\<close>

definition case_name :: "nat \<Rightarrow> test_case \<Rightarrow> string" where
  "case_name i c = (if tc_Name c = [] then ''case #'' @ itoa (int i + 1) else tc_Name c)"

definition run_one :: "json_codec \<Rightarrow> engine \<Rightarrow> nat \<times> test_case \<Rightarrow> test_result \<Rightarrow> test_result" where
  "run_one jc eng ic res = (case ic of (i, c) \<Rightarrow>
     (let fails = runCase jc eng (case_name i c) c
      in if fails \<noteq> [] then res\<lparr>tr_Failures := tr_Failures res @ fails\<rparr>
         else res\<lparr>tr_Passed := tr_Passed res + 1\<rparr>))"

definition ruletest_Run :: "json_codec \<Rightarrow> engine \<Rightarrow> test_case list \<Rightarrow> test_result" where
  "ruletest_Run jc eng cases =
     fold (run_one jc eng) (List.enumerate 0 cases)
       \<lparr>tr_Total = int (length cases), tr_Passed = 0, tr_Failures = []\<rparr>"

lemma run_fold:
  "fold (run_one jc eng) ics res =
     res\<lparr>tr_Passed := tr_Passed res + int (length (filter (\<lambda>(i, c). runCase jc eng (case_name i c) c = []) ics)),
        tr_Failures := tr_Failures res @ concat (map (\<lambda>(i, c). runCase jc eng (case_name i c) c) ics)\<rparr>"
  by (induction ics arbitrary: res) (auto simp: run_one_def)

lemma all_empty_iff: "concat (map f xs) = [] \<longleftrightarrow> length (filter (\<lambda>x. f x = []) xs) = length xs"
proof (induction xs)
  case (Cons x xs)
  have "length (filter (\<lambda>x. f x = []) xs) \<noteq> Suc (length xs)"
    using length_filter_le [of "\<lambda>x. f x = []" xs] by linarith
  with Cons show ?case
    by (simp del: concat_eq_Nil_conv)
qed simp

text \<open>
  The report of a run holds the failures of every case in order, and a case counts as passed exactly
  when it has none; so a run without failures is one where every case passed.
\<close>

theorem run_reports_all:
  "tr_Failures (ruletest_Run jc eng cases) =
     concat (map (\<lambda>(i, c). runCase jc eng (case_name i c) c) (List.enumerate 0 cases)) \<and>
   (tr_Failures (ruletest_Run jc eng cases) = [] \<longleftrightarrow>
      tr_Passed (ruletest_Run jc eng cases) = tr_Total (ruletest_Run jc eng cases))"
proof -
  let ?fails = "\<lambda>ic. runCase jc eng (case_name (fst ic) (snd ic)) (snd ic)"
  have "concat (map ?fails (List.enumerate 0 cases)) = [] \<longleftrightarrow>
      length (filter (\<lambda>ic. ?fails ic = []) (List.enumerate 0 cases)) = length cases"
    unfolding all_empty_iff by simp
  then show ?thesis
    unfolding ruletest_Run_def run_fold split_def by simp
qed

subsection \<open>What a passed leak assertion says\<close>

lemma not_contains_append:
  "\<not> contains (u @ v) sub \<Longrightarrow> \<not> contains u sub \<and> \<not> contains v sub"
  using contains_append [of u sub "[]" v] contains_append [of v sub u "[]"] by auto

lemma not_contains_haystack:
  assumes "\<not> contains (haystack a b hs) sub"
  shows "\<not> contains a sub \<and> \<not> contains b sub \<and> (\<forall>(k, v) \<in> set hs. \<not> contains k sub \<and> \<not> contains v sub)"
proof -
  have "\<not> contains (concat (map (\<lambda>(k, v). [CHR 0x00] @ k @ ''='' @ v) hs)) sub" and bodies: "\<not> contains a sub" "\<not> contains b sub"
    using assms unfolding haystack_def by (metis not_contains_append)+
  then have "\<not> contains k sub \<and> \<not> contains v sub" if "(k, v) \<in> set hs" for k v
    using that
  proof (induction hs)
    case (Cons kv hs)
    have rest: "\<not> contains (concat (map (\<lambda>(k, v). [CHR 0x00] @ k @ ''='' @ v) hs)) sub"
      and here: "\<not> contains ((\<lambda>(k, v). [CHR 0x00] @ k @ ''='' @ v) kv) sub"
      using Cons.prems(1) by (simp_all only: list.map concat.simps) (metis not_contains_append)+
    show ?case
    proof (cases "kv = (k, v)")
      case True
      have "\<not> contains (([CHR 0x00] @ k) @ (''='' @ v)) sub"
        using here unfolding True by simp
      then show ?thesis
        by (metis not_contains_append)
    next
      case False
      then show ?thesis
        using Cons.IH rest bodies Cons.prems by auto
    qed
  qed simp
  then show ?thesis
    using bodies by blast
qed

text \<open>
  C34. A case that passes with a leak assertion proves that the text occurs in neither stored body nor in a
  captured header of the exchange.
\<close>

theorem leak_assertion_sound:
  assumes "runCase jc eng name c = []" and "needle \<in> set (xp_NotContains (tc_Expect c))" and "needle \<noteq> []"
  defines "q \<equiv> tc_Request c"
  defines "p \<equiv> fst (case_policy jc eng q)"
  shows "\<not> contains (governBody jc p (tq_Body q) (pol_CaptureRequestBody p)) needle \<and>
    \<not> contains (governBody jc p (tq_Response q) (pol_CaptureResponseBody p)) needle \<and>
    (pol_CaptureHeaders p \<longrightarrow> (\<forall>(k, v) \<in> set (SanitizeHeaders p (fixture_header q)). \<not> contains v needle))"
proof -
  let ?hs = "if pol_CaptureHeaders p then SanitizeHeaders p (fixture_header q) else []"
  let ?hay = "haystack (governBody jc p (tq_Body q) (pol_CaptureRequestBody p))
     (governBody jc p (tq_Response q) (pol_CaptureResponseBody p)) ?hs"
  have "concat (map (check_leak name ?hay) (xp_NotContains (tc_Expect c))) = []"
    using assms(1) unfolding runCase_def Let_def split_def p_def q_def append_is_Nil_conv by (elim conjE)
  then have "check_leak name ?hay needle = []"
    using assms(2) by auto
  then have "\<not> contains ?hay needle"
    using assms(3) by (simp add: check_leak_def unless_met_def split: if_splits)
  from not_contains_haystack [OF this] show ?thesis
    by (auto split: if_splits)
qed

definition payment_request :: fixture_request where
  "payment_request = \<lparr>tq_Method = ''post'', tq_Path = ''/api/v1/payments/42?x=1'',
     tq_Headers = [(''content-type'', ''application/json'')],
     tq_Body = YMap [(''card'', YMap [(''number'', YStr ''4111''), (''exp'', YStr ''12/30'')])],
     tq_Response = YNil, tq_Status = 0, tq_TookMS = 0\<rparr>"

definition nothing_expected :: expectation where
  "nothing_expected = \<lparr>xp_MatchedRules = None, xp_Route = None, xp_CapturesReqBody = None, xp_CapturesResBody = None,
     xp_CapturesHeaders = None, xp_StoredReqBody = None, xp_StoredResBody = None, xp_RedactedHeaders = None,
     xp_Labels = [], xp_Meters = [], xp_KeepsBody = None, xp_NotContains = []\<rparr>"

definition payment_case :: test_case where
  "payment_case = \<lparr>tc_Name = ''card'', tc_Request = payment_request,
     tc_Expect = nothing_expected\<lparr>xp_NotContains := [''4111'']\<rparr>\<rparr>"

theorem leak_assertion_sound_witness:
  "let p = fst (case_policy sample_codec (engine_New sample_env sample_loaded) payment_request)
   in pol_CaptureRequestBody p \<and> \<not> contains (governBody sample_codec p (tq_Body payment_request) True) ''4111''"
proof -
  let ?e = "engine_New sample_env sample_loaded"
  have "runCase sample_codec ?e ''card'' payment_case = []"
    by code_simp
  moreover have "''4111'' \<in> set (xp_NotContains (tc_Expect payment_case))"
    by (simp add: payment_case_def)
  moreover have "pol_CaptureRequestBody (fst (case_policy sample_codec ?e payment_request))"
    by code_simp
  ultimately show ?thesis
    using leak_assertion_sound [of sample_codec ?e "''card''" payment_case "''4111''"]
    by (simp add: payment_case_def Let_def)
qed

subsection \<open>The test and the interceptor\<close>

definition request_of :: "fixture_request \<Rightarrow> http_request \<Rightarrow> bool" where
  "request_of q r \<longleftrightarrow> req_Method r = at_Method (case_attrs q) \<and> req_Path r = path_part (tq_Path q) \<and>
     req_RawQuery r = query_part (tq_Path q) \<and> req_Header r = fixture_header q"

lemma AttrsOf_case: "request_of q r \<Longrightarrow> AttrsOf r = case_attrs q"
  by (simp add: AttrsOf_def request_of_def case_attrs_def)

lemma captured_whole:
  assumes "int (length raw) \<le> limit"
  shows "lb_buf (captured limit raw) = raw" and "\<not> lb_truncated (captured limit raw)"
  using assms by (simp_all add: captured_def)

lemma governed_agrees:
  assumes "jc_marshal jc (normalizeYAML body) = Some raw" and "body \<noteq> YNil" and "lb_buf b = raw"
    and "contains ct ''json''"
  shows "governedJSON jc (Some b) ct p = (case governedDoc jc body p of None \<Rightarrow> (JNull, False) | Some d \<Rightarrow> (d, True))"
proof -
  have "to_lower ''json'' = ''json''"
    by code_simp
  then have "contains (to_lower ct) ''json''"
    using contains_to_lower [OF assms(4)] by simp
  then show ?thesis
    using assms(1-3) by (simp add: governedJSON_def governedDoc_def Let_def split_def)
qed


definition body_interceptor :: interceptor where
  "body_interceptor = sample_interceptor\<lparr>ic_bodyPaths := [[''**'']], ic_propagate := False\<rparr>"

definition payment_exchange :: exchange where
  "payment_exchange = sample_exchange\<lparr>ex_request := \<lparr>req_Method = ''POST'', req_Path = ''/api/v1/payments/42'',
     req_RawQuery = ''x=1'', req_Header = [(''Content-Type'', [''application/json''])], req_RemoteAddr = ''10.0.0.1'',
     req_ContentLength = 4\<rparr>\<rparr>"


subsection \<open>What a test does not see\<close>

text \<open>A rule on a GraphQL operation applies in no test, because a fixture has no operation.\<close>

lemma graphql_rules_untested:
  "cr_gqlOp r \<noteq> [] \<Longrightarrow> \<not> rule_applies ((case_attrs q)\<lparr>at_Body := d, at_BodyKnown := k\<rparr>) r"
  by (simp add: rule_applies_def case_attrs_def)

text \<open>
  The leak assertion does not look at labels: with the headers restricted, a header that a label copies
  into the record passes it.
\<close>

definition tenant_rule :: compiled_rule where
  "tenant_rule = \<lparr>cr_name = ''tag'', cr_rawPattern = ''/**'', cr_gqlOp = [], cr_sample = None, cr_keepErrors = None,
     cr_keepSlower = 0, cr_pathSegs = [''**''], cr_methods = None, cr_hdrCriteria = [], cr_qryCriteria = [],
     cr_bodyCriteria = [], cr_bodyPaths = [], cr_restrict = [FieldHeaders], cr_redactHdrs = [], cr_redactQuery = [],
     cr_redactPaths = [],
     cr_labels = [(''tenant'', \<lparr>ls_Kind = ''header'', ls_Key = ''X-Tenant'', ls_Seg = 0, ls_JSONPath = [], ls_Extract = None\<rparr>)],
     cr_meters = []\<rparr>"

definition tagging :: engine where
  "tagging = \<lparr>eng_defaults = c_Defaults sample_loaded, eng_rules = [tenant_rule]\<rparr>"

definition tenant_case :: test_case where
  "tenant_case = \<lparr>tc_Name = ''no leak'',
     tc_Request = \<lparr>tq_Method = ''get'', tq_Path = ''/orders?page=2'', tq_Headers = [(''x-tenant'', ''s3cr3t'')],
       tq_Body = YNil, tq_Response = YNil, tq_Status = 0, tq_TookMS = 0\<rparr>,
     tc_Expect = nothing_expected\<lparr>xp_NotContains := [''s3cr3t'']\<rparr>\<rparr>"

lemma label_leak_passes:
  "runCase sample_codec tagging ''no leak'' tenant_case = [] \<and>
   runCase sample_codec tagging ''no leak''
     (tenant_case\<lparr>tc_Expect := nothing_expected\<lparr>xp_Labels := [(''tenant'', ''s3cr3t'')]\<rparr>\<rparr>) = []"
  by (intro conjI; code_simp)

end
