(* ===== verification/Replay.thy ===== *)
theory Replay
  imports Proxy StoreTypes "HOL-Library.Multiset"
begin

text \<open>
  Replaying captured traffic (\<open>internal/replay/replay.go\<close>).  The HTTP client is a function from a request
  to an error or a status; the order in which concurrent results come back is \<open>arrive\<close>, and \<open>cancelled i\<close>
  tells whether the wait before the i-th rate-limited request ends with the context.  Durations are left out.
\<close>

subsection \<open>Requests\<close>

record replay_options =
  po_Target :: string
  po_RatePerSec :: rat
  po_Concurrency :: int
  po_Timeout :: int
  po_DryRun :: bool
  po_SkipRedacted :: bool
  po_Headers :: "string gomap"

record replay_result =
  rs_Method :: string
  rs_Path :: string
  rs_OriginalCode :: int
  rs_ReplayedCode :: int
  rs_Err :: "string option"
  rs_Skipped :: string

record replay_summary =
  ry_Total :: int
  ry_Sent :: int
  ry_Skipped :: int
  ry_Matched :: int
  ry_Diverged :: int
  ry_Failed :: int
  ry_SkipReason :: "int gomap"
  ry_Diffs :: "replay_result list"

record outgoing =
  og_Method :: string
  og_URL :: string
  og_Header :: header
  og_Body :: string

definition hopByHop :: "string \<Rightarrow> bool" where
  "hopByHop h \<longleftrightarrow> to_lower h \<in> set [''content-length'', ''host'', ''connection'', ''keep-alive'', ''transfer-encoding'',
     ''upgrade'', ''proxy-authenticate'', ''proxy-authorization'', ''te'', ''trailer'', ''accept-encoding'']"

definition skipReason :: "http_record \<Rightarrow> replay_options \<Rightarrow> string" where
  "skipReason rec opts =
     (if hr_Method rec = [] \<or> hr_Path rec = [] then ''incomplete record''
      else if hr_Method rec \<in> {''POST'', ''PUT'', ''PATCH''} \<and> hr_RequestBody rec = [] \<and> hr_ReqBytes rec > 0
        then ''request body was not captured (restricted or sampled out)''
      else if hr_ReqTruncated rec then ''request body was truncated at capture_limit_bytes''
      else if po_SkipRedacted opts \<and> contains (hr_RequestBody rec) RedactedPlaceholder
        then ''request body contains redacted fields''
      else [])"

definition replay_request :: "string \<Rightarrow> string gomap \<Rightarrow> http_record \<Rightarrow> outgoing" where
  "replay_request target extra rec =
     (let url = target @ hr_Path rec @ (if hr_Query rec \<noteq> [] then ''?'' @ hr_Query rec else []);
          h1 = fold (\<lambda>(k, v) h. if hopByHop k \<or> v = RedactedPlaceholder then h else header_Set k v h)
                 (hr_RequestHeaders rec) [];
          h2 = fold (\<lambda>(k, v) h. header_Set k v h) extra h1
      in \<lparr>og_Method = hr_Method rec, og_URL = url, og_Header = header_Set ''X-OpticTrace-Replay'' ''1'' h2,
          og_Body = hr_RequestBody rec\<rparr>)"

definition replayOne :: "(outgoing \<Rightarrow> string + int) \<Rightarrow> string \<Rightarrow> http_record \<Rightarrow> string gomap \<Rightarrow> replay_result" where
  "replayOne client target rec extra =
     (let res = \<lparr>rs_Method = hr_Method rec, rs_Path = hr_Path rec, rs_OriginalCode = hr_Status rec,
                 rs_ReplayedCode = 0, rs_Err = None, rs_Skipped = []\<rparr>
      in case client (replay_request target extra rec) of
           Inl e \<Rightarrow> res\<lparr>rs_Err := Some e\<rparr>
         | Inr code \<Rightarrow> res\<lparr>rs_ReplayedCode := code\<rparr>)"

subsection \<open>The run\<close>

text \<open>The dispatch loop: whether the context ended it, the summary so far, and the records sent.\<close>

fun launch ::
    "replay_options \<Rightarrow> (nat \<Rightarrow> bool) \<Rightarrow> nat \<Rightarrow> http_record list \<Rightarrow> replay_summary \<times> http_record list \<Rightarrow>
       bool \<times> replay_summary \<times> http_record list" where
  "launch opts cancelled i [] acc = (False, acc)"
| "launch opts cancelled i (rec # rs) acc = (case acc of (s, sent) \<Rightarrow>
     (let reason = skipReason rec opts
      in if reason \<noteq> [] then
           launch opts cancelled i rs
             (s\<lparr>ry_Skipped := ry_Skipped s + 1, ry_SkipReason := count_drop reason (ry_SkipReason s)\<rparr>, sent)
         else if po_RatePerSec opts > 0 \<and> cancelled i then (True, acc)
         else if po_DryRun opts then launch opts cancelled (Suc i) rs (s\<lparr>ry_Sent := ry_Sent s + 1\<rparr>, sent)
         else launch opts cancelled (Suc i) rs (s, sent @ [rec])))"

definition count_result :: "replay_result \<Rightarrow> replay_summary \<Rightarrow> replay_summary" where
  "count_result res s0 =
     (let s = s0\<lparr>ry_Sent := ry_Sent s0 + 1\<rparr>
      in if rs_Err res \<noteq> None then s\<lparr>ry_Failed := ry_Failed s + 1, ry_Diffs := ry_Diffs s @ [res]\<rparr>
         else if rs_ReplayedCode res = rs_OriginalCode res then s\<lparr>ry_Matched := ry_Matched s + 1\<rparr>
         else s\<lparr>ry_Diverged := ry_Diverged s + 1, ry_Diffs := ry_Diffs s @ [res]\<rparr>)"

definition no_replay :: "nat \<Rightarrow> replay_summary" where
  "no_replay n = \<lparr>ry_Total = int n, ry_Sent = 0, ry_Skipped = 0, ry_Matched = 0, ry_Diverged = 0, ry_Failed = 0,
     ry_SkipReason = [], ry_Diffs = []\<rparr>"

definition replay_Run ::
    "(outgoing \<Rightarrow> string + int) \<Rightarrow> (replay_result list \<Rightarrow> replay_result list) \<Rightarrow> (nat \<Rightarrow> bool) \<Rightarrow> replay_options \<Rightarrow>
       http_record list \<Rightarrow> replay_summary option \<times> string option" where
  "replay_Run client arrive cancelled opts records =
     (if po_Target opts = [] then (None, Some ''replay requires a target URL'')
      else
        (let target = trim_right (\<lambda>c. c = CHR ''/'') (po_Target opts);
             (stopped, s, sent) = launch opts cancelled 0 (sort_key hr_Time records) (no_replay (length records), [])
         in if stopped then (Some s, Some ''context ended'')
            else (Some (fold count_result
                     (arrive (map (\<lambda>r. replayOne client target r (po_Headers opts)) sent)) s), None)))"

subsection \<open>Nothing is lost\<close>

definition replayed :: "replay_options \<Rightarrow> http_record list \<Rightarrow> http_record list" where
  "replayed opts records = filter (\<lambda>r. skipReason r opts = []) (sort_key hr_Time records)"

lemma launch_uncancelled:
  assumes "\<And>i. \<not> (po_RatePerSec opts > 0 \<and> cancelled i)"
  shows "\<exists>s'. launch opts cancelled i rs (s, sent) =
      (False, s', sent @ (if po_DryRun opts then [] else filter (\<lambda>r. skipReason r opts = []) rs)) \<and>
    ry_Total s' = ry_Total s \<and> ry_Matched s' = ry_Matched s \<and> ry_Diverged s' = ry_Diverged s \<and>
    ry_Failed s' = ry_Failed s \<and> ry_Diffs s' = ry_Diffs s \<and>
    ry_Sent s' = ry_Sent s + (if po_DryRun opts then int (length (filter (\<lambda>r. skipReason r opts = []) rs)) else 0) \<and>
    ry_Skipped s' = ry_Skipped s + int (length (filter (\<lambda>r. skipReason r opts \<noteq> []) rs)) \<and>
    sum_list (map snd (ry_SkipReason s')) = sum_list (map snd (ry_SkipReason s)) + int (length (filter (\<lambda>r. skipReason r opts \<noteq> []) rs))"
proof (induction rs arbitrary: i s sent)
  case (Cons r rs)
  have go: "\<not> (po_RatePerSec opts > 0 \<and> cancelled i)"
    by (rule assms)
  show ?case
  proof (cases "skipReason r opts = []")
    case True
    show ?thesis
    proof (cases "po_DryRun opts")
      case dry: True
      show ?thesis
        using Cons.IH [of "Suc i" "s\<lparr>ry_Sent := ry_Sent s + 1\<rparr>" sent] True go dry by fastforce
    next
      case wet: False
      show ?thesis
        using Cons.IH [of "Suc i" s "sent @ [r]"] True go wet by fastforce
    qed
  next
    case False
    show ?thesis
      using Cons.IH [of i "s\<lparr>ry_Skipped := ry_Skipped s + 1,
          ry_SkipReason := count_drop (skipReason r opts) (ry_SkipReason s)\<rparr>" sent] False
      by (auto simp: Let_def sum_count_drop)
  qed
qed simp

lemma count_results:
  "let s' = fold count_result rs s in
     ry_Total s' = ry_Total s \<and> ry_Skipped s' = ry_Skipped s \<and> ry_SkipReason s' = ry_SkipReason s \<and>
     ry_Sent s' = ry_Sent s + int (length rs) \<and>
     ry_Matched s' = ry_Matched s + int (length (filter (\<lambda>r. rs_Err r = None \<and> rs_ReplayedCode r = rs_OriginalCode r) rs)) \<and>
     ry_Diffs s' = ry_Diffs s @ filter (\<lambda>r. rs_Err r \<noteq> None \<or> rs_ReplayedCode r \<noteq> rs_OriginalCode r) rs \<and>
     ry_Matched s' + ry_Diverged s' + ry_Failed s' = ry_Matched s + ry_Diverged s + ry_Failed s + int (length rs)"
proof (induction rs arbitrary: s)
  case (Cons r rs)
  show ?case
    using Cons.IH [of "count_result r s"] by (auto simp: Let_def count_result_def)
qed simp

text \<open>
  C36. A run that the context does not end skips or sends every record: the skip reasons add up to what was
  skipped, every request sent is matched, diverged or failed, whatever the order of the answers, and the
  report lists exactly those that did not match.
\<close>

theorem replay_accounts:
  assumes "po_Target opts \<noteq> []" and "\<And>i. \<not> cancelled i" and "\<And>xs. mset (arrive xs) = mset xs"
  shows "\<exists>s. replay_Run client arrive cancelled opts records = (Some s, None) \<and>
    ry_Total s = int (length records) \<and> ry_Sent s + ry_Skipped s = ry_Total s \<and>
    ry_Sent s = int (length (replayed opts records)) \<and>
    sum_list (map snd (ry_SkipReason s)) = ry_Skipped s \<and>
    (if po_DryRun opts then ry_Diffs s = []
     else ry_Matched s + ry_Diverged s + ry_Failed s = ry_Sent s \<and>
       mset (ry_Diffs s) = mset (filter (\<lambda>r. rs_Err r \<noteq> None \<or> rs_ReplayedCode r \<noteq> rs_OriginalCode r)
         (map (\<lambda>r. replayOne client (trim_right (\<lambda>c. c = CHR ''/'') (po_Target opts)) r (po_Headers opts))
           (replayed opts records))))"
proof -
  let ?ordered = "sort_key hr_Time records"
  let ?sent = "if po_DryRun opts then [] else replayed opts records"
  let ?one = "\<lambda>r. replayOne client (trim_right (\<lambda>c. c = CHR ''/'') (po_Target opts)) r (po_Headers opts)"
  let ?odd = "\<lambda>r. rs_Err r \<noteq> None \<or> rs_ReplayedCode r \<noteq> rs_OriginalCode r"
  obtain s where launch: "launch opts cancelled 0 ?ordered (no_replay (length records), []) = (False, s, ?sent)"
    and s: "ry_Total s = int (length records)" "ry_Matched s = 0" "ry_Diverged s = 0" "ry_Failed s = 0" "ry_Diffs s = []"
      "ry_Sent s = (if po_DryRun opts then int (length (replayed opts records)) else 0)"
      "ry_Skipped s = int (length (filter (\<lambda>r. skipReason r opts \<noteq> []) ?ordered))"
      "sum_list (map snd (ry_SkipReason s)) = ry_Skipped s"
    using launch_uncancelled [of opts cancelled 0 ?ordered "no_replay (length records)" "[]"] assms(2)
    by (auto simp: no_replay_def replayed_def)
  let ?rs = "arrive (map ?one ?sent)"
  have n: "length ?rs = length ?sent"
    using assms(3) [of "map ?one ?sent"] by (metis length_map size_mset)
  have odd: "mset (filter ?odd ?rs) = mset (filter ?odd (map ?one ?sent))"
    using assms(3) by (simp only: mset_filter)
  have all: "length (replayed opts records) + length (filter (\<lambda>r. skipReason r opts \<noteq> []) ?ordered) = length records"
    using sum_length_filter_compl [of "\<lambda>r. skipReason r opts = []" ?ordered] by (simp add: replayed_def)
  have run: "replay_Run client arrive cancelled opts records = (Some (fold count_result ?rs s), None)"
    using assms(1) launch by (simp add: replay_Run_def Let_def)
  show ?thesis
    using count_results [of ?rs s] s n odd all
    by (intro exI [of _ "fold count_result ?rs s"]) (auto simp: run Let_def)
qed

definition captured_post :: "string \<Rightarrow> string \<Rightarrow> http_record" where
  "captured_post body tok = \<lparr>hr_ID = 1, hr_Time = 7, hr_Service = ''shop'', hr_Method = ''POST'',
     hr_Path = ''/api/orders'', hr_Query = ''token='' @ tok, hr_Route = ''/api/**'', hr_Status = 201, hr_DurationMS = 3,
     hr_Remote = [], hr_Source = ''proxy'', hr_TraceID = [], hr_SpanID = [], hr_ParentSpanID = [], hr_Stream = False,
     hr_RequestHeaders = [(''Authorization'', RedactedPlaceholder), (''Host'', ''shop.local''), (''Accept'', ''*/*'')],
     hr_ResponseHeaders = [], hr_RequestBody = body, hr_ResponseBody = [], hr_ReqTruncated = False,
     hr_RespTruncated = False, hr_ReqBytes = 9, hr_RespBytes = 0, hr_Labels = [], hr_MatchedRules = [], hr_Meters = []\<rparr>"

definition replay_staging :: replay_options where
  "replay_staging = \<lparr>po_Target = ''http://staging/'', po_RatePerSec = 5, po_Concurrency = 4, po_Timeout = 0,
     po_DryRun = False, po_SkipRedacted = True, po_Headers = [(''x-env'', ''staging'')]\<rparr>"

theorem replay_accounts_witness:
  "\<exists>s. replay_Run (\<lambda>_. Inr 500) rev (\<lambda>_. False) replay_staging [captured_post ''{}'' ''a'', captured_post [] ''b''] = (Some s, None) \<and>
     ry_Sent s = 1 \<and> ry_Skipped s = 1"
proof -
  have "po_Target replay_staging \<noteq> []"
    by (simp add: replay_staging_def)
  moreover have "length (replayed replay_staging [captured_post ''{}'' ''a'', captured_post [] ''b'']) = 1"
    by code_simp
  ultimately show ?thesis
    using replay_accounts [of replay_staging "\<lambda>_. False" rev "\<lambda>_. Inr 500"
        "[captured_post ''{}'' ''a'', captured_post [] ''b'']"] by fastforce
qed

subsection \<open>What is sent\<close>

lemma store_entry: "(k, v) \<in> set (store n x m) \<Longrightarrow> (k = n \<and> v = x) \<or> (k, v) \<in> set m"
  unfolding store_def by (induction m) (auto split: if_splits)

lemma hopByHop_canonical: "hopByHop (CanonicalHeaderKey k) = hopByHop k"
proof -
  have "to_lower (canonical_chars up k) = to_lower k" for up
    by (induction up k rule: canonical_chars.induct) (auto simp: to_lower_def Let_def)
  then show ?thesis
    by (simp add: hopByHop_def CanonicalHeaderKey_def)
qed

text \<open>
  A replayed request carries the method, target, path, query and body of its record, every header is a
  captured one that is neither masked nor about the original connection, or one the options ask for, or the
  replay mark, and no truncated or missing body is sent.
\<close>

theorem replay_sends_clean:
  assumes "skipReason rec opts = []" and "(k, vs) \<in> set (og_Header (replay_request target extra rec))"
  shows "((\<exists>n v. (n, v) \<in> set (hr_RequestHeaders rec) \<and> k = CanonicalHeaderKey n \<and> vs = [v] \<and>
        v \<noteq> RedactedPlaceholder \<and> \<not> hopByHop k) \<or>
     (\<exists>n v. (n, v) \<in> set extra \<and> k = CanonicalHeaderKey n \<and> vs = [v]) \<or>
     k = CanonicalHeaderKey ''X-OpticTrace-Replay'' \<and> vs = [''1'']) \<and>
     (og_Body (replay_request target extra rec) = hr_RequestBody rec \<and> \<not> hr_ReqTruncated rec \<and>
     (po_SkipRedacted opts \<longrightarrow> \<not> contains (hr_RequestBody rec) RedactedPlaceholder))"
proof -
  have captured: "(k, vs) \<in> set (fold (\<lambda>(k, v) h. if hopByHop k \<or> v = RedactedPlaceholder then h else header_Set k v h) hs h0) \<Longrightarrow>
      (k, vs) \<in> set h0 \<or> (\<exists>n v. (n, v) \<in> set hs \<and> k = CanonicalHeaderKey n \<and> vs = [v] \<and> v \<noteq> RedactedPlaceholder \<and> \<not> hopByHop k)"
    for hs h0
    by (induction hs arbitrary: h0) (fastforce simp: header_Set_def hopByHop_canonical dest: store_entry split: if_splits)+
  have added: "(k, vs) \<in> set (fold (\<lambda>(k, v) h. header_Set k v h) hs h0) \<Longrightarrow>
      (k, vs) \<in> set h0 \<or> (\<exists>n v. (n, v) \<in> set hs \<and> k = CanonicalHeaderKey n \<and> vs = [v])"
    for hs h0
    by (induction hs arbitrary: h0) (fastforce simp: header_Set_def dest: store_entry)+
  have "(k, vs) \<in> set (store (CanonicalHeaderKey ''X-OpticTrace-Replay'') [''1''] (fold (\<lambda>(k, v) h. header_Set k v h) extra
      (fold (\<lambda>(k, v) h. if hopByHop k \<or> v = RedactedPlaceholder then h else header_Set k v h) (hr_RequestHeaders rec) [])))"
    using assms(2) by (simp add: replay_request_def Let_def header_Set_def [of "''X-OpticTrace-Replay''"])
  moreover have "og_Body (replay_request target extra rec) = hr_RequestBody rec \<and> \<not> hr_ReqTruncated rec \<and>
     (po_SkipRedacted opts \<longrightarrow> \<not> contains (hr_RequestBody rec) RedactedPlaceholder)"
    using assms(1) by (auto simp: replay_request_def skipReason_def Let_def split: if_splits)
  ultimately show ?thesis
    by (auto dest!: store_entry added captured)
qed

theorem replay_sends_clean_witness:
  "hr_RequestHeaders (captured_post ''{}'' ''a'') \<noteq> [] \<and>
   og_Header (replay_request ''http://staging'' [] (captured_post ''{}'' ''a'')) =
     [(''Accept'', [''*/*'']), (CanonicalHeaderKey ''X-OpticTrace-Replay'', [''1''])]
   \<and> \<not> contains (og_Body (replay_request ''http://staging'' [] (captured_post ''{}'' ''a''))) RedactedPlaceholder"
proof -
  have ok: "skipReason (captured_post ''{}'' ''a'') replay_staging = []"
    by code_simp
  have hs: "og_Header (replay_request ''http://staging'' [] (captured_post ''{}'' ''a'')) =
     [(''Accept'', [''*/*'']), (CanonicalHeaderKey ''X-OpticTrace-Replay'', [''1''])]"
    by code_simp
  then have "(''Accept'', [''*/*'']) \<in> set (og_Header (replay_request ''http://staging'' [] (captured_post ''{}'' ''a'')))"
    by simp
  from replay_sends_clean [OF ok this] hs show ?thesis
    by (simp add: captured_post_def replay_staging_def)
qed

text \<open>
  The summary that the interceptor stores in place of a body that is no JSON is sent as the body, a masked
  query parameter is sent as it is stored, and a run that the context ends reports none of the requests
  that are out.
\<close>

lemma summary_replayed:
  "let rec = captured_post (body_summary ''text/plain'' 9) ''a'' in
     skipReason rec replay_staging = [] \<and>
     og_Body (replay_request [] [] rec) = ''<text/plain body, 9 bytes captured>''"
  unfolding Let_def by (intro conjI; code_simp)

lemma masked_query_replayed:
  "skipReason (captured_post ''{}'' RedactedPlaceholder) replay_staging = []"
  by code_simp

lemma cancelled_run_forgets:
  "map_option ry_Sent (fst (replay_Run client arrive (\<lambda>i. i = 1) replay_staging
     [captured_post ''{}'' ''a'', captured_post ''{}'' ''b''])) = Some 0 \<and>
   snd (snd (launch replay_staging (\<lambda>i. i = 1) 0 [captured_post ''{}'' ''a'', captured_post ''{}'' ''b''] (no_replay 2, [])))
     = [captured_post ''{}'' ''a'']"
proof -
  have "skipReason (captured_post ''{}'' ''a'') replay_staging = []" "skipReason (captured_post ''{}'' ''b'') replay_staging = []"
    by code_simp+
  moreover have "sort_key hr_Time [captured_post ''{}'' ''a'', captured_post ''{}'' ''b''] =
      [captured_post ''{}'' ''a'', captured_post ''{}'' ''b'']"
    by (simp add: captured_post_def)
  ultimately show ?thesis
    by (simp add: replay_Run_def Let_def no_replay_def) (simp add: replay_staging_def)
qed

end
