(* ===== verification/Backends.thy ===== *)
theory Backends
  imports TraceCtx MemStore ConfigTypes "HOL-Library.Sublist"
begin

text \<open>
  The export plugins that ship with the agent (\<open>internal/export/file.go\<close>, \<open>webhook.go\<close>, \<open>command.go\<close>,
  \<open>otlp.go\<close>).  What the operating system or the peer answers is an argument: the JSON text of a record, the
  outcome of a write, of a rename, of a request.
\<close>

subsection \<open>Files\<close>

text \<open>
  The file at the path, the generation before it, and the handle: \<open>fe_open\<close> is false once the handle is
  closed.  A write goes to the file at the path, which only \<open>rotate\<close> moves.
\<close>

record file_exporter =
  fe_name :: string
  fe_path :: string
  fe_maxBytes :: int
  fe_open :: bool
  fe_written :: int
  fe_main :: string
  fe_old :: string

definition newFileExporter :: "string \<Rightarrow> exporter_cfg \<Rightarrow> file_exporter" where
  "newFileExporter present c =
     (let sizeMB = (if ex_MaxSizeMB c \<le> 0 then 100 else ex_MaxSizeMB c)
      in \<lparr>fe_name = ex_Name c, fe_path = ex_Path c, fe_maxBytes = sizeMB * 2 ^ 20, fe_open = True,
          fe_written = int (length present), fe_main = present, fe_old = []\<rparr>)"

text \<open>\<open>io_rename\<close> and \<open>io_open\<close> are the outcomes of the calls of one rotation.\<close>

record file_io =
  io_marshal :: "http_record \<Rightarrow> string option"
  io_rename :: bool
  io_open :: bool

definition file_rotate :: "file_io \<Rightarrow> file_exporter \<Rightarrow> file_exporter \<times> string option" where
  "file_rotate io e =
     (if \<not> fe_open e then (e, Some ''file already closed'')
      else
        (let closed = e\<lparr>fe_open := False\<rparr>
         in if \<not> io_rename io then (closed, Some ''rename failed'')
            else if \<not> io_open io then (closed\<lparr>fe_old := fe_main e, fe_main := []\<rparr>, Some ''open failed'')
            else (closed\<lparr>fe_old := fe_main e, fe_main := [], fe_open := True, fe_written := 0\<rparr>, None)))"

fun write_lines :: "('r \<Rightarrow> string option) \<Rightarrow> 'r list \<Rightarrow> file_exporter \<Rightarrow> file_exporter \<times> string option" where
  "write_lines mar [] e = (e, None)"
| "write_lines mar (rec # batch) e = (case mar rec of
     None \<Rightarrow> (e, Some ''marshal record'')
   | Some line \<Rightarrow>
       if \<not> fe_open e then (e, Some ''file already closed'')
       else write_lines mar batch
         (e\<lparr>fe_main := fe_main e @ line @ [CHR 0x0A], fe_written := fe_written e + int (length line) + 1\<rparr>))"

definition file_Export :: "file_io \<Rightarrow> http_record list \<Rightarrow> file_exporter \<Rightarrow> file_exporter \<times> string option" where
  "file_Export io batch e =
     (case write_lines (io_marshal io) batch e of
        (e1, Some err) \<Rightarrow> (e1, Some err)
      | (e1, None) \<Rightarrow> if fe_written e1 \<ge> fe_maxBytes e1 then file_rotate io e1 else (e1, None))"

text \<open>A log line is wrapped with its kind before it is marshalled.\<close>

definition file_ExportAppLogs ::
    "(app_log \<Rightarrow> string option) \<Rightarrow> file_io \<Rightarrow> app_log list \<Rightarrow> file_exporter \<Rightarrow> file_exporter \<times> string option" where
  "file_ExportAppLogs wrapped io batch e =
     (case write_lines wrapped batch e of
        (e1, Some err) \<Rightarrow> (e1, Some err)
      | (e1, None) \<Rightarrow> if fe_written e1 \<ge> fe_maxBytes e1 then file_rotate io e1 else (e1, None))"

definition file_Close :: "file_exporter \<Rightarrow> file_exporter" where
  "file_Close e = e\<lparr>fe_open := False\<rparr>"

subsection \<open>Webhooks\<close>

text \<open>The answer of one attempt: a transport error or a status.  \<open>waits\<close> says that the pause is not cut short.\<close>

definition webhook_Export :: "(http_record list \<Rightarrow> string option) \<Rightarrow> (nat \<Rightarrow> string + int) \<Rightarrow> bool \<Rightarrow>
    http_record list \<Rightarrow> nat \<times> string option" where
  "webhook_Export mar answer waits batch =
     (let outcome = (\<lambda>i. case answer i of
            Inl e \<Rightarrow> Some e
          | Inr code \<Rightarrow> if code \<ge> 200 \<and> code < 300 then None else Some (''webhook returned '' @ itoa code))
      in case mar batch of
           None \<Rightarrow> (0, Some ''marshal'')
         | Some body \<Rightarrow>
             if outcome 0 = None then (1, None)
             else if \<not> waits then (1, Some ''context ended'')
             else (2, outcome 1))"

subsection \<open>Commands\<close>

text \<open>
  The plugin process: whether one was started, whether it has exited, when the last start was tried (0 is
  the zero time, before every clock reading) and the lines written to the input of each process so far.
\<close>

record command_exporter =
  ce_started :: bool
  ce_exited :: bool
  ce_lastStart :: int
  ce_starts :: "int list"
  ce_lines :: "string list"

definition newCommandExporter :: command_exporter where
  "newCommandExporter = \<lparr>ce_started = False, ce_exited = False, ce_lastStart = 0, ce_starts = [], ce_lines = []\<rparr>"

definition restart_backoff :: int where
  "restart_backoff = 3000000000"

definition ensureRunning :: "int \<Rightarrow> bool \<Rightarrow> command_exporter \<Rightarrow> command_exporter \<times> string option" where
  "ensureRunning now_time start_ok e =
     (if ce_started e \<and> \<not> ce_exited e then (e, None)
      else if now_time - ce_lastStart e < restart_backoff then (e, Some ''plugin restart suppressed'')
      else
        (let e1 = e\<lparr>ce_lastStart := now_time, ce_starts := ce_starts e @ [now_time]\<rparr>
         in if \<not> start_ok then (e1, Some ''start plugin'')
            else (e1\<lparr>ce_started := True, ce_exited := False\<rparr>, None)))"

text \<open>\<open>accepts\<close> is the number of lines the process takes before its pipe breaks.\<close>

fun feed :: "('r \<Rightarrow> string option) \<Rightarrow> bool \<Rightarrow> nat \<Rightarrow> 'r list \<Rightarrow> command_exporter \<Rightarrow> command_exporter \<times> string option" where
  "feed mar kills accepts [] e = (e, None)"
| "feed mar kills accepts (rec # batch) e = (case mar rec of
     None \<Rightarrow> (e, Some ''marshal'')
   | Some line \<Rightarrow>
       (case accepts of
          0 \<Rightarrow> (if kills then e\<lparr>ce_exited := True\<rparr> else e, Some ''write to plugin'')
        | Suc n \<Rightarrow> feed mar kills n batch (e\<lparr>ce_lines := ce_lines e @ [line @ [CHR 0x0A]]\<rparr>)))"

definition command_Export ::
    "(http_record \<Rightarrow> string option) \<Rightarrow> int \<Rightarrow> bool \<Rightarrow> nat \<Rightarrow> http_record list \<Rightarrow> command_exporter \<Rightarrow>
       command_exporter \<times> string option" where
  "command_Export mar now_time start_ok accepts batch e =
     (case ensureRunning now_time start_ok e of
        (e1, Some err) \<Rightarrow> (e1, Some err)
      | (e1, None) \<Rightarrow> feed mar True accepts batch e1)"

definition command_ExportAppLogs ::
    "(app_log \<Rightarrow> string option) \<Rightarrow> int \<Rightarrow> bool \<Rightarrow> nat \<Rightarrow> app_log list \<Rightarrow> command_exporter \<Rightarrow>
       command_exporter \<times> string option" where
  "command_ExportAppLogs wrapped now_time start_ok accepts batch e =
     (case ensureRunning now_time start_ok e of
        (e1, Some err) \<Rightarrow> (e1, Some err)
      | (e1, None) \<Rightarrow> feed wrapped False accepts batch e1)"

text \<open>Closing the input lets the process end; one that ignores it for five seconds is killed.\<close>

definition command_Close :: "command_exporter \<Rightarrow> command_exporter" where
  "command_Close e = (if ce_started e then e\<lparr>ce_exited := True\<rparr> else e)"

subsection \<open>Spans over OTLP\<close>

definition attr :: "string \<Rightarrow> string \<Rightarrow> json" where
  "attr k v = JObj [(''key'', JStr k), (''value'', JObj [(''stringValue'', JStr v)])]"

definition attrInt :: "string \<Rightarrow> int \<Rightarrow> json" where
  "attrInt k v = JObj [(''key'', JStr k), (''value'', JObj [(''intValue'', JStr (itoa v))])]"

definition attrFloat :: "string \<Rightarrow> rat \<Rightarrow> json" where
  "attrFloat k v = JObj [(''key'', JStr k), (''value'', JObj [(''doubleValue'', JNum v)])]"

definition traceContext :: "entropy \<Rightarrow> string gomap \<Rightarrow> string \<times> string \<times> bool" where
  "traceContext e headers =
     (case split_on (CHR ''-'') (Lookup headers ''traceparent'') of
        [version, tid, pid, flags] \<Rightarrow>
          if version \<noteq> ''00'' \<or> \<not> isHex tid 32 \<or> \<not> isHex pid 16 \<or> \<not> isHex flags 2 \<or>
             tid = replicate 32 (CHR ''0'') \<or> pid = replicate 16 (CHR ''0'')
          then (RandomHex e 16, [], False)
          else (tid, pid, odd (parse_hex flags))
      | _ \<Rightarrow> (RandomHex e 16, [], False))"

definition otlp_attrs :: "http_record \<Rightarrow> json list" where
  "otlp_attrs rec =
     [attr ''http.request.method'' (hr_Method rec), attr ''url.path'' (hr_Path rec), attr ''http.route'' (hr_Route rec),
      attrInt ''http.response.status_code'' (hr_Status rec), attrInt ''http.request.body.size'' (hr_ReqBytes rec),
      attrInt ''http.response.body.size'' (hr_RespBytes rec), attr ''optictrace.source'' (hr_Source rec)] @
     (if hr_Query rec \<noteq> [] then [attr ''url.query'' (hr_Query rec)] else []) @
     (if hr_MatchedRules rec \<noteq> [] then [attr ''optictrace.matched_rules'' (join '','' (hr_MatchedRules rec))] else []) @
     map (\<lambda>(k, v). attr (''optictrace.label.'' @ k) v) (hr_Labels rec) @
     map (\<lambda>(k, v). attrFloat (''optictrace.meter.'' @ k) v) (hr_Meters rec)"

definition span_ids :: "entropy \<Rightarrow> http_record \<Rightarrow> string \<times> string \<times> string \<times> bool" where
  "span_ids e rec =
     (let (traceID, parentID, sampled) =
            (if hr_TraceID rec = [] then traceContext e (hr_RequestHeaders rec)
             else (hr_TraceID rec, hr_ParentSpanID rec, True))
      in (traceID, if hr_SpanID rec = [] then RandomHex e 8 else hr_SpanID rec, parentID, sampled))"

text \<open>\<open>status_text\<close> is \<open>http.StatusText\<close>.\<close>

definition otlp_span :: "(int \<Rightarrow> string) \<Rightarrow> entropy \<Rightarrow> http_record \<Rightarrow> json" where
  "otlp_span status_text e rec =
     (let start_ns = hr_Time rec; end_ns = start_ns + trunc_int (hr_DurationMS rec * 1000000);
          (traceID, spanID, parentID, sampled) = span_ids e rec;
          ts = (case lookup (hr_RequestHeaders rec) ''tracestate'' of None \<Rightarrow> [] | Some v \<Rightarrow> v)
      in JObj (
        [(''traceId'', JStr traceID), (''spanId'', JStr spanID), (''name'', JStr (hr_Method rec @ '' '' @ hr_Route rec)),
         (''kind'', JNum 2), (''startTimeUnixNano'', JStr (itoa start_ns)), (''endTimeUnixNano'', JStr (itoa end_ns)),
         (''attributes'', JArr (otlp_attrs rec))] @
        (if parentID \<noteq> [] then [(''parentSpanId'', JStr parentID)] else []) @
        (if sampled then [(''flags'', JNum 1)] else []) @
        (if ts \<noteq> [] then [(''traceState'', JStr ts)] else []) @
        [(''status'', if hr_Status rec \<ge> 500
                      then JObj [(''code'', JNum 2), (''message'', JStr (status_text (hr_Status rec)))]
                      else JObj [(''code'', JNum 1)])]))"

definition otlp_payload :: "(int \<Rightarrow> string) \<Rightarrow> entropy \<Rightarrow> string \<Rightarrow> http_record list \<Rightarrow> json" where
  "otlp_payload status_text e service batch =
     JObj [(''resourceSpans'', JArr [JObj
       [(''resource'', JObj [(''attributes'', JArr [attr ''service.name'' service,
            attr ''telemetry.sdk.name'' ''optictrace'', attr ''telemetry.sdk.language'' ''go''])]),
        (''scopeSpans'', JArr [JObj [(''scope'', JObj [(''name'', JStr ''optictrace'')]),
            (''spans'', JArr (map (otlp_span status_text e) batch))]])]])]"

definition newOTLPExporter :: "exporter_cfg \<Rightarrow> string" where
  "newOTLPExporter c =
     (let endpoint = trim_right (\<lambda>x. x = CHR ''/'') (ex_URL c)
      in if has_suffix endpoint ''/v1/traces'' then endpoint else endpoint @ ''/v1/traces'')"

definition otlp_Export ::
    "(json \<Rightarrow> string option) \<Rightarrow> (string \<Rightarrow> string + int) \<Rightarrow> json \<Rightarrow> string option" where
  "otlp_Export mar post payload = (case mar payload of
     None \<Rightarrow> Some ''marshal''
   | Some body \<Rightarrow> (case post body of
       Inl e \<Rightarrow> Some e
     | Inr code \<Rightarrow> if code < 200 \<or> code \<ge> 300 then Some (''otlp collector returned '' @ itoa code) else None))"

subsection \<open>Rotation loses nothing but what it replaced\<close>

definition file_ok :: "file_exporter \<Rightarrow> bool" where
  "file_ok e \<longleftrightarrow> fe_open e \<and> fe_written e = int (length (fe_main e))"

definition line_text :: "('r \<Rightarrow> string option) \<Rightarrow> 'r list \<Rightarrow> string" where
  "line_text mar rs = concat (map (\<lambda>r. the (mar r) @ [CHR 0x0A]) rs)"

lemma write_lines_all:
  assumes "list_all (\<lambda>r. mar r \<noteq> None) rs" and "file_ok e"
  shows "write_lines mar rs e = (e\<lparr>fe_main := fe_main e @ line_text mar rs,
      fe_written := int (length (fe_main e @ line_text mar rs))\<rparr>, None)"
  using assms
proof (induction rs arbitrary: e)
  case Nil
  then show ?case by (simp add: line_text_def file_ok_def)
next
  case (Cons r rs)
  then show ?case by (auto simp: line_text_def file_ok_def)
qed

lemma file_Export_step:
  assumes "list_all (\<lambda>r. io_marshal io r \<noteq> None) rs" and "file_ok e" and "io_rename io" and "io_open io" and "0 < fe_maxBytes e"
  obtains e' where "file_Export io rs e = (e', None)" and "file_ok e'" and "fe_maxBytes e' = fe_maxBytes e"
    and "fe_written e' < fe_maxBytes e"
    and "\<exists>lost. lost @ fe_old e' @ fe_main e' = fe_old e @ fe_main e @ line_text (io_marshal io) rs"
proof -
  let ?e = "e\<lparr>fe_main := fe_main e @ line_text (io_marshal io) rs,
      fe_written := int (length (fe_main e @ line_text (io_marshal io) rs))\<rparr>"
  let ?r = "?e\<lparr>fe_old := fe_main ?e, fe_main := [], fe_written := 0\<rparr>"
  have w: "write_lines (io_marshal io) rs e = (?e, None)"
    by (rule write_lines_all [OF assms(1,2)])
  show thesis
  proof (cases "fe_written ?e \<ge> fe_maxBytes e")
    case True
    show thesis
    proof (rule that [of ?r])
      show "file_Export io rs e = (?r, None)"
        using True assms(2-4) by (simp add: file_Export_def w file_rotate_def file_ok_def)
    qed (use assms(2,5) in \<open>simp_all add: file_ok_def\<close>)
  next
    case False
    show thesis
    proof (rule that [of ?e])
      show "file_Export io rs e = (?e, None)"
        using False by (simp add: file_Export_def w)
      show "\<exists>lost. lost @ fe_old ?e @ fe_main ?e = fe_old e @ fe_main e @ line_text (io_marshal io) rs"
        by (rule exI [of _ "[]"]) simp
    qed (use False assms(2) in \<open>simp_all add: file_ok_def\<close>)
  qed
qed


definition small_file :: file_exporter where
  "small_file = \<lparr>fe_name = ''audit'', fe_path = ''audit.jsonl'', fe_maxBytes = 4, fe_open = True, fe_written = 0,
     fe_main = [], fe_old = []\<rparr>"

definition quiet_io :: file_io where
  "quiet_io = \<lparr>io_marshal = (\<lambda>r. Some (hr_Method r)), io_rename = True, io_open = True\<rparr>"

definition one_batch :: "http_record list" where
  "one_batch = [stored_record 3000000 ''acme'' 200 5, stored_record 5000000 ''bolt'' 201 9]"


text \<open>A rotation whose rename fails leaves a closed handle, and every later batch fails.\<close>

lemma failed_rename_is_final:
  assumes "\<not> fe_open e" and "rs \<noteq> []" and "list_all (\<lambda>r. io_marshal io r \<noteq> None) rs"
  shows "file_Export io rs e = (e, Some ''file already closed'')" and
    "fe_open e0 \<Longrightarrow> \<not> fe_open (fst (file_rotate (quiet_io\<lparr>io_rename := False\<rparr>) e0))"
  using assms by (cases rs; auto simp: file_Export_def file_rotate_def quiet_io_def)+

subsection \<open>Restarts are spaced\<close>

datatype command_event =
    SendRecords "http_record \<Rightarrow> string option" int bool nat "http_record list"
  | SendLines "app_log \<Rightarrow> string option" int bool nat "app_log list"
  | ChildExits

fun command_step :: "command_event \<Rightarrow> command_exporter \<Rightarrow> command_exporter" where
  "command_step (SendRecords mar t ok n batch) e = fst (command_Export mar t ok n batch e)"
| "command_step (SendLines mar t ok n batch) e = fst (command_ExportAppLogs mar t ok n batch e)"
| "command_step ChildExits e = e\<lparr>ce_exited := True\<rparr>"

definition spaced :: "int list \<Rightarrow> bool" where
  "spaced ts \<longleftrightarrow> sorted_wrt (\<lambda>a b. a + restart_backoff \<le> b) ts"

definition starts_inv :: "command_exporter \<Rightarrow> bool" where
  "starts_inv e \<longleftrightarrow> spaced (ce_starts e) \<and> (\<forall>t \<in> set (ce_starts e). t \<le> ce_lastStart e)"

lemma feed_starts: "ce_starts (fst (feed mar kills n batch e)) = ce_starts e \<and> ce_lastStart (fst (feed mar kills n batch e)) = ce_lastStart e"
  by (induction mar kills n batch e rule: feed.induct) (auto split: option.splits nat.splits)

lemma ensureRunning_inv: "starts_inv e \<Longrightarrow> starts_inv (fst (ensureRunning t ok e))"
  by (fastforce simp: ensureRunning_def starts_inv_def spaced_def sorted_wrt_append Let_def restart_backoff_def)

lemma command_step_inv: "starts_inv e \<Longrightarrow> starts_inv (command_step ev e)"
proof (cases ev)
  case (SendRecords mar t ok n batch)
  assume "starts_inv e"
  then have "starts_inv (fst (ensureRunning t ok e))"
    by (rule ensureRunning_inv)
  then show ?thesis
    by (simp add: SendRecords command_Export_def split_def feed_starts starts_inv_def split: option.split prod.split)
next
  case (SendLines mar t ok n batch)
  assume "starts_inv e"
  then have "starts_inv (fst (ensureRunning t ok e))"
    by (rule ensureRunning_inv)
  then show ?thesis
    by (simp add: SendLines command_ExportAppLogs_def split_def feed_starts starts_inv_def split: option.split prod.split)
next
  case ChildExits
  then show "starts_inv e \<Longrightarrow> ?thesis"
    by (simp add: starts_inv_def)
qed

text \<open>
  However batches, exits and failures follow one another, two starts of the plugin are at least three
  seconds apart.
\<close>

theorem restarts_spaced: "spaced (ce_starts (fold command_step es newCommandExporter))"
proof -
  have "starts_inv e \<Longrightarrow> starts_inv (fold command_step es e)" for e
    by (induction es arbitrary: e) (simp_all add: command_step_inv)
  then show ?thesis
    by (simp add: starts_inv_def newCommandExporter_def spaced_def)
qed

subsection \<open>Spans\<close>

text \<open>The exporter reads a trace header as the interceptor does, up to the white space around it.\<close>

lemma traceContext_FromHeader:
  assumes "trim_space (Lookup hs ''traceparent'') = Lookup hs ''traceparent''"
  shows "traceContext e hs = (let c = FromHeader e (Lookup hs ''traceparent'') in (tc_TraceID c, tc_ParentSpanID c, tc_Sampled c))"
  unfolding traceContext_def FromHeader_def assms Let_def by (simp split: list.split) blast


definition untraced :: http_record where
  "untraced = (stored_record 3000000 ''acme'' 502 7)\<lparr>hr_TraceID := [], hr_SpanID := [], hr_RequestBody := ''4111''\<rparr>"


text \<open>
  A span starts at the time of its record, which is the time the exchange ended; it claims the sampled flag
  for every record with a trace id; and the trace state is looked up under a name that a captured header
  never has.
\<close>

definition otlp_member :: "string \<Rightarrow> json \<Rightarrow> json option" where
  "otlp_member k d = (case d of JObj kvs \<Rightarrow> map_of kvs k | _ \<Rightarrow> None)"

lemma span_starts_at_the_end:
  "otlp_member ''startTimeUnixNano'' (otlp_span st e rec) = Some (JStr (itoa (hr_Time rec)))"
  by (simp add: otlp_span_def otlp_member_def split_def Let_def)

lemma span_always_sampled:
  "hr_TraceID rec \<noteq> [] \<Longrightarrow> otlp_member ''flags'' (otlp_span st e rec) = Some (JNum 1)"
  by (simp add: otlp_span_def otlp_member_def split_def Let_def span_ids_def)

lemma tracestate_never_found:
  "hr_RequestHeaders rec = [(''Tracestate'', v)] \<Longrightarrow> otlp_member ''traceState'' (otlp_span st e rec) = None"
  by (simp add: otlp_span_def otlp_member_def split_def Let_def)

text \<open>A batch whose answer was lost is sent again, so it may be delivered twice.\<close>

lemma webhook_resends:
  "mar batch = Some body \<Longrightarrow> webhook_Export mar (\<lambda>i. if i = 0 then Inl ''timeout'' else Inr 200) True batch = (2, None)"
  by (simp add: webhook_Export_def Let_def)

end
